(* ===== verification/Prelude.thy ===== *)
theory Prelude
  imports Main "HOL-Library.Word" "HOL-Library.AList" "HOL-Library.Multiset"
begin

text \<open>
  Shared vocabulary of the development: the types that stand for Go's own types (byte
  slices, strings, times, durations, maps), the collections of rewrite rules that the
  component proofs draw on, and the generic lemmas on lists, association lists and
  results that more than one component needs.

  A Go \<open>map\<close> is an association list with distinct keys. Go iterates over a map in an
  unspecified order; here the order of the list is that order, so a theorem about every
  association list is a theorem about every iteration order.
\<close>

unbundle bit_operations_syntax

section \<open>Types\<close>

type_synonym byte = "8 word"
type_synonym bytes = "byte list"

text \<open>Times and durations count nanoseconds; the zero \<open>time.Time\<close> is 0.\<close>

type_synonym time = int
type_synonym duration = int

type_synonym ('k, 'v) gomap = "('k \<times> 'v) list"

abbreviation second :: duration where "second \<equiv> 1000000000"
abbreviation minute :: duration where "minute \<equiv> 60 * second"
abbreviation hour :: duration where "hour \<equiv> 3600 * second"

text \<open>A signed 64-bit value: the wrap-around of Go's \<open>int\<close>, \<open>int64\<close> and
  \<open>time.Duration\<close> arithmetic.\<close>

definition wrap64 :: "int \<Rightarrow> int" where
  "wrap64 x = (x + 2 ^ 63) mod 2 ^ 64 - 2 ^ 63"

section \<open>Collections of rules\<close>

named_theorems wire_simps \<open>length and layout of wire encodings\<close>
named_theorems roster_simps \<open>effect of roster operations on lookups\<close>
named_theorems inv_intros \<open>invariant preservation, one rule per operation\<close>

section \<open>Lists\<close>

lemma wrap64_id: "- (2 ^ 63) \<le> x \<Longrightarrow> x < 2 ^ 63 \<Longrightarrow> wrap64 x = x"
  by (simp add: wrap64_def)

lemma wrap64_bounds: "- (2 ^ 63) \<le> wrap64 x \<and> wrap64 x < 2 ^ 63"
  by (simp add: wrap64_def)

lemma take_append_eq [simp]: "length xs = n \<Longrightarrow> take n (xs @ ys) = xs"
  by simp

lemma drop_append_eq [simp]: "length xs = n \<Longrightarrow> drop n (xs @ ys) = ys"
  by simp

lemma filter_length_le_1: "distinct xs \<Longrightarrow> (\<And>x y. x \<in> set xs \<Longrightarrow> y \<in> set xs \<Longrightarrow> P x \<Longrightarrow> P y \<Longrightarrow> x = y)
    \<Longrightarrow> length (filter P xs) \<le> 1"
proof (induction xs)
  case Nil
  then show ?case by simp
next
  case (Cons a xs)
  show ?case
  proof (cases "P a")
    case True
    with Cons.prems have "\<forall>x \<in> set xs. \<not> P x" by auto
    then have "filter P xs = []" by (simp add: filter_empty_conv)
    then show ?thesis using True by simp
  next
    case False
    with Cons show ?thesis by simp
  qed
qed

section \<open>Association lists as Go maps\<close>

definition gm_ok :: "('k, 'v) gomap \<Rightarrow> bool" where
  "gm_ok m \<longleftrightarrow> distinct (map fst m)"

lemma gm_ok_Nil [simp]: "gm_ok []"
  by (simp add: gm_ok_def)

lemma gm_ok_update [simp]: "gm_ok m \<Longrightarrow> gm_ok (AList.update k v m)"
  by (simp add: gm_ok_def distinct_update)

lemma gm_ok_delete [simp]: "gm_ok m \<Longrightarrow> gm_ok (AList.delete k m)"
  by (simp add: gm_ok_def distinct_delete)

lemma gm_ok_filter [simp]: "gm_ok m \<Longrightarrow> gm_ok (filter P m)"
  by (induction m) (auto simp: gm_ok_def)

lemma map_of_update_iff [simp]: "map_of (AList.update k v m) k' = (if k' = k then Some v else map_of m k')"
  by (simp add: update_conv')

lemma map_of_delete_iff [simp]: "map_of (AList.delete k m) k' = (if k' = k then None else map_of m k')"
  by (simp add: delete_conv')

lemma map_of_filter_ok: "gm_ok m \<Longrightarrow>
    map_of (filter P m) k = (case map_of m k of None \<Rightarrow> None | Some v \<Rightarrow> if P (k, v) then Some v else None)"
proof (induction m)
  case Nil
  then show ?case by simp
next
  case (Cons p m)
  obtain k' v' where p: "p = (k', v')" by (cases p)
  from Cons.prems p have ok: "gm_ok m" and nin: "k' \<notin> fst ` set m"
    by (auto simp: gm_ok_def)
  from nin have "map_of m k' = None" by (simp add: map_of_eq_None_iff)
  with Cons.IH [OF ok] p show ?case by auto
qed

lemma in_set_map_of: "gm_ok m \<Longrightarrow> (k, v) \<in> set m \<longleftrightarrow> map_of m k = Some v"
  by (auto simp: gm_ok_def dest: map_of_SomeD)

lemma map_of_mset_eq: "gm_ok m \<Longrightarrow> mset m = mset m' \<Longrightarrow> map_of m = map_of m'"
proof -
  assume ok: "gm_ok m" and eq: "mset m = mset m'"
  then have "mset (map fst m) = mset (map fst m')" by simp
  with ok have "distinct (map fst m')"
    by (metis gm_ok_def mset_eq_imp_distinct_iff)
  moreover have "set m = set m'" using eq by (rule mset_eq_setD)
  ultimately show ?thesis
    using ok by (simp add: gm_ok_def map_of_inject_set)
qed

lemma length_update_new: "k \<notin> fst ` set m \<Longrightarrow> length (AList.update k v m) = Suc (length m)"
  by (induction m) auto

lemma length_update_old: "k \<in> fst ` set m \<Longrightarrow> length (AList.update k v m) = length m"
  by (induction m) auto

lemma length_delete_le': "length (AList.delete k m) \<le> length m"
  by (simp add: length_delete_le)

section \<open>Sorting by a comparison\<close>

text \<open>\<open>sort.Slice\<close> with a \<open>less\<close> function. Where \<open>less\<close> is a strict total order on the
  elements, every sorting algorithm returns the same list.\<close>

fun insert_by :: "('a \<Rightarrow> 'a \<Rightarrow> bool) \<Rightarrow> 'a \<Rightarrow> 'a list \<Rightarrow> 'a list" where
  "insert_by lt x [] = [x]"
| "insert_by lt x (y # ys) = (if lt y x then y # insert_by lt x ys else x # y # ys)"

definition sort_slice :: "('a \<Rightarrow> 'a \<Rightarrow> bool) \<Rightarrow> 'a list \<Rightarrow> 'a list" where
  "sort_slice lt xs = foldr (insert_by lt) xs []"

lemma mset_insert_by [simp]: "mset (insert_by lt x ys) = add_mset x (mset ys)"
  by (induction ys) auto

lemma mset_sort_slice [simp]: "mset (sort_slice lt xs) = mset xs"
  by (induction xs) (auto simp: sort_slice_def)

lemma set_insert_by [simp]: "set (insert_by lt x ys) = insert x (set ys)"
  by (induction ys) auto

lemma set_sort_slice [simp]: "set (sort_slice lt xs) = set xs"
  by (metis mset_sort_slice set_mset_mset)

lemma length_sort_slice [simp]: "length (sort_slice lt xs) = length xs"
  by (metis mset_sort_slice size_mset)

text \<open>The strict weak order of a key into a linear order.\<close>

lemma sorted_insert_by_key:
  assumes "\<And>x y. lt x y \<longleftrightarrow> (k x :: 'b :: linorder) < k y"
  shows "sorted (map k ys) \<Longrightarrow> sorted (map k (insert_by lt x ys))"
  by (induction ys) (auto simp: assms not_less intro: less_imp_le)

lemma sorted_sort_slice_key:
  assumes "\<And>x y. lt x y \<longleftrightarrow> (k x :: 'b :: linorder) < k y"
  shows "sorted (map k (sort_slice lt xs))"
  by (induction xs) (auto simp: sort_slice_def intro: sorted_insert_by_key [where k = k, OF assms])

lemma sorted_sort_unique: "sorted xs \<Longrightarrow> sorted ys \<Longrightarrow> mset xs = mset ys \<Longrightarrow> xs = ys"
  by (metis properties_for_sort)

text \<open>Two lists with the same elements and pairwise different keys sort to the same list.\<close>

lemma sort_slice_unique:
  assumes lt: "\<And>x y. lt x y \<longleftrightarrow> (k x :: 'b :: linorder) < k y"
    and inj: "inj_on k (set xs)" and eq: "mset xs = mset ys"
  shows "sort_slice lt xs = sort_slice lt ys"
proof -
  have m: "map k (sort_slice lt xs) = map k (sort_slice lt ys)"
    by (rule sorted_sort_unique) (use eq in \<open>simp_all add: sorted_sort_slice_key [where k = k, OF lt]\<close>)
  have s: "set (sort_slice lt xs) = set xs" "set (sort_slice lt ys) = set xs"
    using mset_eq_setD [OF eq] by simp_all
  show ?thesis
    by (rule map_inj_on [OF m]) (use s inj in \<open>simp only: Un_absorb\<close>)
qed

section \<open>Bytes\<close>

text \<open>A property of a byte holds when it holds of all 256 values.\<close>

lemma byte_forall:
  assumes "list_all (\<lambda>n. P (word_of_nat n :: byte)) [0..<256]"
  shows "P b"
proof -
  have "unat b < 256" using unsigned_less [of b, where ?'a = nat] by simp
  then have "unat b \<in> set [0..<256]" by simp
  with assms have "P (word_of_nat (unat b))" by (simp only: list_all_iff)
  then show ?thesis by simp
qed

section \<open>Wire codecs\<close>

text \<open>A packer and a parser that are inverse to each other on the canonical values: what the
  protocol layers promise each other about every wire format.\<close>

locale wire_codec =
  fixes pack :: "'a \<Rightarrow> 'e + bytes"
    and parse :: "bytes \<Rightarrow> 'f + 'a"
    and canon :: "'a \<Rightarrow> bool"
  assumes parse_pack: "canon p \<Longrightarrow> \<exists>raw. pack p = Inr raw \<and> parse raw = Inr p"
    and pack_parse: "parse raw = Inr p \<Longrightarrow> canon p \<and> pack p = Inr raw"
begin

lemma pack_inj: "canon p \<Longrightarrow> canon q \<Longrightarrow> pack p = pack q \<Longrightarrow> p = q"
  by (metis parse_pack sum.inject(2))

lemma parse_inj: "parse a = Inr p \<Longrightarrow> parse b = Inr p \<Longrightarrow> a = b"
  by (metis pack_parse sum.inject(2))

lemma accepted_iff: "(\<exists>p. parse raw = Inr p) \<longleftrightarrow> (\<exists>p. canon p \<and> pack p = Inr raw)"
  by (metis parse_pack pack_parse sum.inject(2))

lemma roundtrip: "canon p \<Longrightarrow> pack p = Inr raw \<Longrightarrow> parse raw = Inr p"
  by (metis parse_pack sum.inject(2))

end

end
