(* ===== verification/Go_Strings.thy ===== *)
theory Go_Strings
  imports Prelude "HOL-Library.Char_ord" "HOL-Library.List_Lexorder"
begin

text \<open>
  The part of Go's string library that the program uses. A Go string is a sequence of
  bytes, which is what \<open>string\<close> is here: a \<open>char\<close> is one byte. Runes (code points)
  appear where the library decodes UTF-8: \<open>range\<close> over a string, case mapping, white
  space. The tables are those of Unicode 15.0. The lemmas say what the functions do on the ASCII
  strings that hashes, nicknames and command names are made of.
\<close>

section \<open>Bytes and characters\<close>

abbreviation code :: "char \<Rightarrow> nat" where
  "code c \<equiv> of_char c"

abbreviation chr :: "nat \<Rightarrow> char" where
  "chr n \<equiv> char_of n"

definition byte_of_char :: "char \<Rightarrow> byte" where
  "byte_of_char c = of_nat (code c)"

definition char_of_byte :: "byte \<Rightarrow> char" where
  "char_of_byte b = char_of (unat b)"

text \<open>The conversions \<open>[]byte(s)\<close> and \<open>string(b)\<close>.\<close>

definition bytes_of :: "string \<Rightarrow> bytes" where
  "bytes_of s = map byte_of_char s"

definition string_of :: "bytes \<Rightarrow> string" where
  "string_of b = map char_of_byte b"

section \<open>UTF-8\<close>

definition RuneError :: nat where
  "RuneError = 65533"

definition cont_byte :: "char \<Rightarrow> bool" where
  "cont_byte c \<longleftrightarrow> 128 \<le> code c \<and> code c \<le> 191"

text \<open>The range of the second byte that \<open>unicode/utf8\<close> accepts after a first byte of a
  multi-byte sequence, with the length of the sequence.\<close>

definition first_info :: "nat \<Rightarrow> (nat \<times> nat \<times> nat) option" where
  "first_info x =
     (if 194 \<le> x \<and> x \<le> 223 then Some (2, 128, 191)
      else if x = 224 then Some (3, 160, 191)
      else if x = 237 then Some (3, 128, 159)
      else if 225 \<le> x \<and> x \<le> 239 then Some (3, 128, 191)
      else if x = 240 then Some (4, 144, 191)
      else if 241 \<le> x \<and> x \<le> 243 then Some (4, 128, 191)
      else if x = 244 then Some (4, 128, 143)
      else None)"

text \<open>\<open>utf8.DecodeRuneInString\<close>: the first rune and its width in bytes. An invalid
  sequence is \<open>RuneError\<close> of width 1.\<close>

fun decode_rune :: "string \<Rightarrow> nat \<times> nat" where
  "decode_rune [] = (RuneError, 0)"
| "decode_rune (c # cs) =
     (if code c < 128 then (code c, 1)
      else case first_info (code c) of
        None \<Rightarrow> (RuneError, 1)
      | Some (sz, lo, hi) \<Rightarrow>
          (case cs of
             [] \<Rightarrow> (RuneError, 1)
           | c1 # cs1 \<Rightarrow>
               if length cs1 + 2 < sz \<or> \<not> (lo \<le> code c1 \<and> code c1 \<le> hi) then (RuneError, 1)
               else if sz = 2 then ((code c mod 32) * 64 + code c1 mod 64, 2)
               else case cs1 of
                 [] \<Rightarrow> (RuneError, 1)
               | c2 # cs2 \<Rightarrow>
                   if \<not> cont_byte c2 then (RuneError, 1)
                   else if sz = 3 then
                     ((code c mod 16) * 4096 + (code c1 mod 64) * 64 + code c2 mod 64, 3)
                   else case cs2 of
                     [] \<Rightarrow> (RuneError, 1)
                   | c3 # _ \<Rightarrow>
                       if \<not> cont_byte c3 then (RuneError, 1)
                       else ((code c mod 8) * 262144 + (code c1 mod 64) * 4096
                               + (code c2 mod 64) * 64 + code c3 mod 64, 4)))"

text \<open>\<open>utf8.AppendRune\<close>.\<close>

definition encode_rune :: "nat \<Rightarrow> string" where
  "encode_rune r0 =
     (let r = (if 55296 \<le> r0 \<and> r0 \<le> 57343 \<or> 1114111 < r0 then RuneError else r0) in
      if r < 128 then [chr r]
      else if r < 2048 then [chr (192 + r div 64), chr (128 + r mod 64)]
      else if r < 65536 then
        [chr (224 + r div 4096), chr (128 + (r div 64) mod 64), chr (128 + r mod 64)]
      else [chr (240 + r div 262144), chr (128 + (r div 4096) mod 64),
            chr (128 + (r div 64) mod 64), chr (128 + r mod 64)])"

text \<open>The runes of a string with the bytes each was decoded from, in the order in which
  \<open>for _, r := range s\<close> visits them.\<close>

lemma decode_rune_width_pos: "s \<noteq> [] \<Longrightarrow> 1 \<le> snd (decode_rune s)"
  by (cases s) (auto split: option.splits list.splits prod.splits)

fun rune_chunks :: "string \<Rightarrow> (nat \<times> string) list" where
  "rune_chunks [] = []"
| "rune_chunks (c # cs) =
     (let (r, w) = decode_rune (c # cs)
      in (r, take w (c # cs)) # rune_chunks (drop (w - 1) cs))"

definition runes :: "string \<Rightarrow> nat list" where
  "runes s = map fst (rune_chunks s)"

text \<open>\<open>utf8.RuneCountInString\<close>.\<close>

definition RuneCount :: "string \<Rightarrow> nat" where
  "RuneCount s = length (runes s)"

text \<open>\<open>utf8.DecodeLastRuneInString\<close>: walk back over at most three continuation bytes to a
  possible first byte, decode there, and accept only a rune that ends at the end.\<close>

fun last_start :: "nat \<Rightarrow> string \<Rightarrow> nat" where
  "last_start 0 rs = 0"
| "last_start (Suc n) [] = 0"
| "last_start (Suc n) (c # rs) = (if cont_byte c then Suc (last_start n rs) else 0)"

definition decode_last_rune :: "string \<Rightarrow> nat \<times> nat" where
  "decode_last_rune s =
     (if s = [] then (RuneError, 0)
      else if code (last s) < 128 then (code (last s), 1)
      else
        (let k = last_start 3 (rev s);
             start = length s - 1 - k;
             (r, w) = decode_rune (drop start s)
         in if start + w \<noteq> length s then (RuneError, 1) else (r, w)))"

text \<open>What a string becomes when \<open>encoding/json\<close> writes it and reads it back: bytes that are not
  valid UTF-8 turn into U+FFFD.\<close>

definition json_str :: "string \<Rightarrow> string" where
  "json_str s = concat (map encode_rune (runes s))"

section \<open>Case mapping\<close>

definition lower_ascii :: "char \<Rightarrow> char" where
  "lower_ascii c = (if 65 \<le> code c \<and> code c \<le> 90 then chr (code c + 32) else c)"

text \<open>The lower-case mappings above ASCII as (first, last, step, offset).\<close>

definition lower_ranges :: "(nat \<times> nat \<times> nat \<times> int) list" where
  "lower_ranges =
    [(192, 214, 1, 32), (216, 222, 1, 32), (256, 302, 2, 1), (304, 304, 1, -199),
     (306, 310, 2, 1), (313, 327, 2, 1), (330, 374, 2, 1), (376, 376, 1, -121), (377, 381, 2, 1),
     (385, 385, 1, 210), (386, 388, 2, 1), (390, 390, 1, 206), (391, 391, 1, 1),
     (393, 394, 1, 205), (395, 395, 1, 1), (398, 398, 1, 79), (399, 399, 1, 202),
     (400, 400, 1, 203), (401, 401, 1, 1), (403, 403, 1, 205), (404, 404, 1, 207),
     (406, 406, 1, 211), (407, 407, 1, 209), (408, 408, 1, 1), (412, 412, 1, 211),
     (413, 413, 1, 213), (415, 415, 1, 214), (416, 420, 2, 1), (422, 422, 1, 218),
     (423, 423, 1, 1), (425, 425, 1, 218), (428, 428, 1, 1), (430, 430, 1, 218),
     (431, 431, 1, 1), (433, 434, 1, 217), (435, 437, 2, 1), (439, 439, 1, 219),
     (440, 440, 1, 1), (444, 444, 1, 1), (452, 452, 1, 2), (453, 453, 1, 1), (455, 455, 1, 2),
     (456, 456, 1, 1), (458, 458, 1, 2), (459, 475, 2, 1), (478, 494, 2, 1), (497, 497, 1, 2),
     (498, 500, 2, 1), (502, 502, 1, -97), (503, 503, 1, -56), (504, 542, 2, 1),
     (544, 544, 1, -130), (546, 562, 2, 1), (570, 570, 1, 10795), (571, 571, 1, 1),
     (573, 573, 1, -163), (574, 574, 1, 10792), (577, 577, 1, 1), (579, 579, 1, -195),
     (580, 580, 1, 69), (581, 581, 1, 71), (582, 590, 2, 1), (880, 882, 2, 1), (886, 886, 1, 1),
     (895, 895, 1, 116), (902, 902, 1, 38), (904, 906, 1, 37), (908, 908, 1, 64),
     (910, 911, 1, 63), (913, 929, 1, 32), (931, 939, 1, 32), (975, 975, 1, 8),
     (984, 1006, 2, 1), (1012, 1012, 1, -60), (1015, 1015, 1, 1), (1017, 1017, 1, -7),
     (1018, 1018, 1, 1), (1021, 1023, 1, -130), (1024, 1039, 1, 80), (1040, 1071, 1, 32),
     (1120, 1152, 2, 1), (1162, 1214, 2, 1), (1216, 1216, 1, 15), (1217, 1229, 2, 1),
     (1232, 1326, 2, 1), (1329, 1366, 1, 48), (4256, 4293, 1, 7264), (4295, 4295, 1, 7264),
     (4301, 4301, 1, 7264), (5024, 5103, 1, 38864), (5104, 5109, 1, 8), (7312, 7354, 1, -3008),
     (7357, 7359, 1, -3008), (7680, 7828, 2, 1), (7838, 7838, 1, -7615), (7840, 7934, 2, 1),
     (7944, 7951, 1, -8), (7960, 7965, 1, -8), (7976, 7983, 1, -8), (7992, 7999, 1, -8),
     (8008, 8013, 1, -8), (8025, 8031, 2, -8), (8040, 8047, 1, -8), (8072, 8079, 1, -8),
     (8088, 8095, 1, -8), (8104, 8111, 1, -8), (8120, 8121, 1, -8), (8122, 8123, 1, -74),
     (8124, 8124, 1, -9), (8136, 8139, 1, -86), (8140, 8140, 1, -9), (8152, 8153, 1, -8),
     (8154, 8155, 1, -100), (8168, 8169, 1, -8), (8170, 8171, 1, -112), (8172, 8172, 1, -7),
     (8184, 8185, 1, -128), (8186, 8187, 1, -126), (8188, 8188, 1, -9), (8486, 8486, 1, -7517),
     (8490, 8490, 1, -8383), (8491, 8491, 1, -8262), (8498, 8498, 1, 28), (8544, 8559, 1, 16),
     (8579, 8579, 1, 1), (9398, 9423, 1, 26), (11264, 11311, 1, 48), (11360, 11360, 1, 1),
     (11362, 11362, 1, -10743), (11363, 11363, 1, -3814), (11364, 11364, 1, -10727),
     (11367, 11371, 2, 1), (11373, 11373, 1, -10780), (11374, 11374, 1, -10749),
     (11375, 11375, 1, -10783), (11376, 11376, 1, -10782), (11378, 11378, 1, 1),
     (11381, 11381, 1, 1), (11390, 11391, 1, -10815), (11392, 11490, 2, 1), (11499, 11501, 2, 1),
     (11506, 11506, 1, 1), (42560, 42604, 2, 1), (42624, 42650, 2, 1), (42786, 42798, 2, 1),
     (42802, 42862, 2, 1), (42873, 42875, 2, 1), (42877, 42877, 1, -35332), (42878, 42886, 2, 1),
     (42891, 42891, 1, 1), (42893, 42893, 1, -42280), (42896, 42898, 2, 1), (42902, 42920, 2, 1),
     (42922, 42922, 1, -42308), (42923, 42923, 1, -42319), (42924, 42924, 1, -42315),
     (42925, 42925, 1, -42305), (42926, 42926, 1, -42308), (42928, 42928, 1, -42258),
     (42929, 42929, 1, -42282), (42930, 42930, 1, -42261), (42931, 42931, 1, 928),
     (42932, 42946, 2, 1), (42948, 42948, 1, -48), (42949, 42949, 1, -42307),
     (42950, 42950, 1, -35384), (42951, 42953, 2, 1), (42960, 42960, 1, 1), (42966, 42968, 2, 1),
     (42997, 42997, 1, 1), (65313, 65338, 1, 32), (66560, 66599, 1, 40), (66736, 66771, 1, 40),
     (66928, 66938, 1, 39), (66940, 66954, 1, 39), (66956, 66962, 1, 39), (66964, 66965, 1, 39),
     (68736, 68786, 1, 64), (71840, 71871, 1, 32), (93760, 93791, 1, 32), (125184, 125217, 1, 34)]"

text \<open>\<open>unicode.ToLower\<close>.\<close>

definition unicode_lower :: "nat \<Rightarrow> nat" where
  "unicode_lower r =
     (if r < 128 then (if 65 \<le> r \<and> r \<le> 90 then r + 32 else r)
      else case find (\<lambda>(lo, hi, st, d). lo \<le> r \<and> r \<le> hi \<and> (r - lo) mod st = 0) lower_ranges of
        None \<Rightarrow> r
      | Some (lo, hi, st, d) \<Rightarrow> nat (int r + d))"

definition is_ascii :: "string \<Rightarrow> bool" where
  "is_ascii s \<longleftrightarrow> (\<forall>c \<in> set s. code c < 128)"

text \<open>\<open>strings.ToLower\<close>: bytewise on ASCII strings, \<open>strings.Map(unicode.ToLower, s)\<close>
  otherwise.\<close>

definition ToLower :: "string \<Rightarrow> string" where
  "ToLower s =
     (if is_ascii s then map lower_ascii s
      else concat (map (\<lambda>r. encode_rune (unicode_lower r)) (runes s)))"

section \<open>White space\<close>

definition IsSpace :: "nat \<Rightarrow> bool" where
  "IsSpace r \<longleftrightarrow> 9 \<le> r \<and> r \<le> 13 \<or> r = 32 \<or> r = 133 \<or> r = 160 \<or> r = 5760
     \<or> 8192 \<le> r \<and> r \<le> 8202 \<or> r = 8232 \<or> r = 8233 \<or> r = 8239 \<or> r = 8287 \<or> r = 12288"

function trim_left_space :: "string \<Rightarrow> string" where
  "trim_left_space s =
     (if s = [] then []
      else let (r, w) = decode_rune s in if IsSpace r then trim_left_space (drop w s) else s)"
  by pat_completeness auto
termination
proof (relation "measure length", goal_cases)
  case 1
  show ?case by simp
next
  case (2 s x r w)
  then have "1 \<le> w" using decode_rune_width_pos [of s] by (metis snd_conv)
  with 2(1) show ?case by (cases s) auto
qed

declare trim_left_space.simps [simp del]

lemma decode_last_rune_width_pos: "s \<noteq> [] \<Longrightarrow> 1 \<le> snd (decode_last_rune s)"
proof -
  assume ne: "s \<noteq> []"
  then have "1 \<le> snd (decode_rune (drop (length s - 1 - k) s))" for k
    by (intro decode_rune_width_pos) (cases s, auto)
  then show ?thesis
    using ne by (auto simp: decode_last_rune_def Let_def split: prod.splits if_splits)
      (metis One_nat_def snd_conv)
qed

function trim_right_space :: "string \<Rightarrow> string" where
  "trim_right_space s =
     (if s = [] then []
      else let (r, w) = decode_last_rune s
           in if IsSpace r then trim_right_space (take (length s - w) s) else s)"
  by pat_completeness auto
termination
proof (relation "measure length", goal_cases)
  case 1
  show ?case by simp
next
  case (2 s x r w)
  then have "1 \<le> w" using decode_last_rune_width_pos [of s] by (metis snd_conv)
  with 2(1) show ?case by (cases s) auto
qed

declare trim_right_space.simps [simp del]

text \<open>\<open>strings.TrimSpace\<close>.\<close>

definition TrimSpace :: "string \<Rightarrow> string" where
  "TrimSpace s = trim_right_space (trim_left_space s)"

text \<open>\<open>strings.Fields\<close>: the maximal runs of runes that are not white space.\<close>

fun fields_chunks :: "string \<Rightarrow> (nat \<times> string) list \<Rightarrow> string list" where
  "fields_chunks cur [] = (if cur = [] then [] else [cur])"
| "fields_chunks cur ((r, bs) # cs) =
     (if IsSpace r then (if cur = [] then fields_chunks [] cs else cur # fields_chunks [] cs)
      else fields_chunks (cur @ bs) cs)"

definition Fields :: "string \<Rightarrow> string list" where
  "Fields s = fields_chunks [] (rune_chunks s)"

text \<open>\<open>strings.HasPrefix\<close>, and \<open>strings.TrimLeft\<close>, \<open>TrimRight\<close>, \<open>Trim\<close> with an ASCII cutset.\<close>

definition HasPrefix :: "string \<Rightarrow> string \<Rightarrow> bool" where
  "HasPrefix s p \<longleftrightarrow> take (length p) s = p"

definition TrimLeft :: "string \<Rightarrow> string \<Rightarrow> string" where
  "TrimLeft s cs = dropWhile (\<lambda>c. c \<in> set cs) s"

definition TrimRight :: "string \<Rightarrow> string \<Rightarrow> string" where
  "TrimRight s cs = rev (dropWhile (\<lambda>c. c \<in> set cs) (rev s))"

definition Trim :: "string \<Rightarrow> string \<Rightarrow> string" where
  "Trim s cs = TrimRight (TrimLeft s cs) cs"

text \<open>\<open>strings.Join\<close>.\<close>

fun Join :: "string list \<Rightarrow> string \<Rightarrow> string" where
  "Join [] sep = []"
| "Join [x] sep = x"
| "Join (x # y # xs) sep = x @ sep @ Join (y # xs) sep"

section \<open>Numbers and hexadecimal\<close>

fun nat_str :: "nat \<Rightarrow> string" where
  "nat_str n = (if n < 10 then [chr (48 + n)] else nat_str (n div 10) @ [chr (48 + n mod 10)])"

declare nat_str.simps [simp del]

text \<open>The verb \<open>%d\<close>.\<close>

definition int_str :: "int \<Rightarrow> string" where
  "int_str i = (if i < 0 then CHR ''-'' # nat_str (nat (- i)) else nat_str (nat i))"

definition hex_digit :: "nat \<Rightarrow> char" where
  "hex_digit n = (if n < 10 then chr (48 + n) else chr (87 + n))"

definition hex_of_byte :: "byte \<Rightarrow> string" where
  "hex_of_byte b = [hex_digit (unat b div 16), hex_digit (unat b mod 16)]"

text \<open>\<open>hex.EncodeToString\<close>.\<close>

definition hex_encode :: "bytes \<Rightarrow> string" where
  "hex_encode bs = concat (map hex_of_byte bs)"

definition hex_value :: "char \<Rightarrow> nat option" where
  "hex_value c =
     (if 48 \<le> code c \<and> code c \<le> 57 then Some (code c - 48)
      else if 97 \<le> code c \<and> code c \<le> 102 then Some (code c - 87)
      else if 65 \<le> code c \<and> code c \<le> 70 then Some (code c - 55)
      else None)"

text \<open>\<open>hex.DecodeString\<close>: None stands for either of its two errors.\<close>

fun hex_decode :: "string \<Rightarrow> bytes option" where
  "hex_decode [] = Some []"
| "hex_decode [c] = None"
| "hex_decode (c # d # cs) =
     (case (hex_value c, hex_value d) of
        (Some hi, Some lo) \<Rightarrow> map_option (Cons (of_nat (16 * hi + lo))) (hex_decode cs)
      | _ \<Rightarrow> None)"

section \<open>Lemmas\<close>

lemma code_less [simp]: "code c < 256"
proof -
  have "(of_char c :: nat) \<in> {0..<256}" using range_nat_of_char by (metis rangeI)
  then show ?thesis by simp
qed

lemma code_chr [simp]: "n < 256 \<Longrightarrow> code (chr n) = n"
  by (simp add: of_char_of)

lemma chr_code [simp]: "chr (code c) = c"
  by simp

lemma code_eq_iff: "code c = code d \<longleftrightarrow> c = d"
  by (simp add: of_char_eq_iff)

lemma unat_byte_less: "unat (b :: byte) < 256"
  using unsigned_less [of b, where ?'a = nat] by simp

lemma unat_of_nat_byte: "n < 256 \<Longrightarrow> unat (of_nat n :: byte) = n"
  by (simp add: unsigned_of_nat take_bit_eq_mod)

lemma byte_of_char_code: "byte_of_char c = of_nat (code c)"
  by (fact byte_of_char_def)

lemma char_of_byte_of_char [simp]: "char_of_byte (byte_of_char c) = c"
  by (simp add: char_of_byte_def byte_of_char_code unat_of_nat_byte del: of_nat_of_char)

lemma byte_of_char_of_byte [simp]: "byte_of_char (char_of_byte b) = b"
  by (simp add: char_of_byte_def byte_of_char_code unat_byte_less del: of_nat_of_char)

lemma string_of_bytes_of [simp]: "string_of (bytes_of s) = s"
  by (simp add: string_of_def bytes_of_def map_idI)

lemma bytes_of_string_of [simp]: "bytes_of (string_of b) = b"
  by (simp add: string_of_def bytes_of_def map_idI)

lemma length_bytes_of [simp]: "length (bytes_of s) = length s"
  by (simp add: bytes_of_def)

subsection \<open>Hexadecimal\<close>

lemma length_hex_encode [simp]: "length (hex_encode bs) = 2 * length bs"
  by (induction bs) (auto simp: hex_encode_def hex_of_byte_def)

lemma hex_encode_Nil [simp]: "hex_encode [] = []"
  by (simp add: hex_encode_def)

lemma hex_encode_Cons: "hex_encode (b # bs) = hex_digit (unat b div 16) # hex_digit (unat b mod 16) # hex_encode bs"
  by (simp add: hex_encode_def hex_of_byte_def)

lemma hex_value_digit [simp]: "n < 16 \<Longrightarrow> hex_value (hex_digit n) = Some n"
  by (auto simp: hex_value_def hex_digit_def)

lemma hex_decode_encode [simp]: "hex_decode (hex_encode bs) = Some bs"
proof (induction bs)
  case Nil
  show ?case by simp
next
  case (Cons b bs)
  have "unat b div 16 < 16" using unat_byte_less [of b] by simp
  moreover have "16 * (unat b div 16) + unat b mod 16 = unat b" by simp
  ultimately show ?case
    using Cons by (simp add: hex_encode_Cons)
qed

lemma hex_encode_inject [simp]: "hex_encode a = hex_encode b \<longleftrightarrow> a = b"
  by (metis hex_decode_encode option.inject)

definition hex_char :: "char \<Rightarrow> bool" where
  "hex_char c \<longleftrightarrow> 48 \<le> code c \<and> code c \<le> 57 \<or> 97 \<le> code c \<and> code c \<le> 102"

lemma hex_digit_char: "n < 16 \<Longrightarrow> hex_char (hex_digit n)"
  by (auto simp: hex_char_def hex_digit_def)

lemma hex_encode_chars: "c \<in> set (hex_encode bs) \<Longrightarrow> hex_char c"
proof (induction bs)
  case (Cons b bs)
  have "unat b div 16 < 16" using unat_byte_less [of b] by simp
  with Cons show ?case by (auto simp: hex_encode_Cons hex_digit_char)
qed simp

lemma hex_char_ascii: "hex_char c \<Longrightarrow> code c < 128"
  by (auto simp: hex_char_def)

lemma hex_char_lower: "hex_char c \<Longrightarrow> lower_ascii c = c"
  by (auto simp: hex_char_def lower_ascii_def)

lemma ToLower_hex: "(\<And>c. c \<in> set s \<Longrightarrow> hex_char c) \<Longrightarrow> ToLower s = s"
  by (simp add: ToLower_def is_ascii_def hex_char_ascii hex_char_lower map_idI)

lemma ToLower_hex_encode [simp]: "ToLower (hex_encode bs) = hex_encode bs"
  by (rule ToLower_hex) (rule hex_encode_chars)

lemma hex_decode_Some_encode: "hex_decode s = Some bs \<Longrightarrow> \<forall>c \<in> set s. hex_char c \<Longrightarrow> hex_encode bs = s"
proof (induction s arbitrary: bs rule: hex_decode.induct)
  case (3 c d cs)
  then obtain hi lo bs' where v: "hex_value c = Some hi" "hex_value d = Some lo"
    and r: "hex_decode cs = Some bs'" "bs = of_nat (16 * hi + lo) # bs'"
    by (auto split: option.splits)
  have dig: "n < 16 \<and> hex_digit n = x" if "hex_value x = Some n" "hex_char x" for x n
    using that by (auto simp: hex_value_def hex_char_def hex_digit_def split: if_splits)
  from v 3(3) dig have c: "hi < 16" "lo < 16" "hex_digit hi = c" "hex_digit lo = d" by auto
  then have "unat (of_nat (16 * hi + lo) :: byte) = 16 * hi + lo"
    by (intro unat_of_nat_byte) simp
  moreover have "hex_encode bs' = cs" using 3(1) [OF refl] v r(1) 3(3) by simp
  ultimately show ?case using c r(2) by (simp add: hex_encode_Cons del: of_nat_add of_nat_mult)
qed auto

lemma length_hex_decode: "hex_decode s = Some bs \<Longrightarrow> length s = 2 * length bs"
  by (induction s arbitrary: bs rule: hex_decode.induct) (auto split: option.splits)

subsection \<open>ASCII strings\<close>

lemma is_ascii_simps [simp]: "is_ascii []" "is_ascii (c # s) \<longleftrightarrow> code c < 128 \<and> is_ascii s"
  "is_ascii (s @ t) \<longleftrightarrow> is_ascii s \<and> is_ascii t"
  by (auto simp: is_ascii_def)

lemma lower_ascii_idem [simp]: "lower_ascii (lower_ascii c) = lower_ascii c"
  by (auto simp: lower_ascii_def)

lemma lower_ascii_less: "code c < 128 \<Longrightarrow> code (lower_ascii c) < 128"
  by (auto simp: lower_ascii_def)

lemma ToLower_ascii: "is_ascii s \<Longrightarrow> ToLower s = map lower_ascii s"
  by (simp add: ToLower_def)

lemma is_ascii_ToLower: "is_ascii s \<Longrightarrow> is_ascii (ToLower s)"
  by (auto simp: ToLower_ascii is_ascii_def lower_ascii_less)

lemma ToLower_idem_ascii: "is_ascii s \<Longrightarrow> ToLower (ToLower s) = ToLower s"
  using is_ascii_ToLower [of s] by (simp add: ToLower_ascii)

lemma ToLower_Nil [simp]: "ToLower [] = []"
  by (simp add: ToLower_def)

lemma decode_rune_ascii: "code c < 128 \<Longrightarrow> decode_rune (c # cs) = (code c, 1)"
  by simp

declare decode_rune.simps(2) [simp del]

lemma rune_chunks_ascii: "is_ascii s \<Longrightarrow> rune_chunks s = map (\<lambda>c. (code c, [c])) s"
  by (induction s) (auto simp: decode_rune_ascii)

lemma concat_encode_ascii: "is_ascii s \<Longrightarrow> concat (map (\<lambda>c. encode_rune (code c)) s) = s"
  by (induction s) (auto simp: encode_rune_def)

lemma json_str_ascii [simp]: "is_ascii s \<Longrightarrow> json_str s = s"
  by (simp add: json_str_def runes_def rune_chunks_ascii o_def concat_encode_ascii)

lemma RuneCount_ascii: "is_ascii s \<Longrightarrow> RuneCount s = length s"
  by (simp add: RuneCount_def runes_def rune_chunks_ascii)

lemma concat_rune_chunks: "concat (map snd (rune_chunks s)) = s"
proof (induction s rule: rune_chunks.induct)
  case (2 c cs)
  obtain r w where d: "decode_rune (c # cs) = (r, w)" by (cases "decode_rune (c # cs)")
  have "1 \<le> w" using decode_rune_width_pos [of "c # cs"] d by simp
  then have "take w (c # cs) @ drop (w - 1) cs = c # cs"
    by (cases w) auto
  with 2 d show ?case by simp
qed simp

lemma trim_left_space_none: "s \<noteq> [] \<Longrightarrow> code (hd s) < 128 \<Longrightarrow> \<not> IsSpace (code (hd s)) \<Longrightarrow> trim_left_space s = s"
  by (cases s) (auto simp: trim_left_space.simps decode_rune_ascii)

lemma trim_right_space_none: "s \<noteq> [] \<Longrightarrow> code (last s) < 128 \<Longrightarrow> \<not> IsSpace (code (last s)) \<Longrightarrow> trim_right_space s = s"
  by (auto simp: trim_right_space.simps decode_last_rune_def)

lemma TrimSpace_none:
  assumes "\<And>c. c \<in> set s \<Longrightarrow> code c < 128 \<and> \<not> IsSpace (code c)"
  shows "TrimSpace s = s"
proof (cases "s = []")
  case True
  then show ?thesis by (simp add: TrimSpace_def trim_left_space.simps trim_right_space.simps)
next
  case False
  with assms have "trim_left_space s = s" by (intro trim_left_space_none) auto
  moreover from False assms have "trim_right_space s = s" by (intro trim_right_space_none) auto
  ultimately show ?thesis by (simp add: TrimSpace_def)
qed

lemma fields_chunks_word:
  assumes "\<And>r bs. (r, bs) \<in> set cs \<Longrightarrow> \<not> IsSpace r"
  shows "fields_chunks cur cs = (if cur @ concat (map snd cs) = [] then [] else [cur @ concat (map snd cs)])"
  using assms
proof (induction cs arbitrary: cur)
  case (Cons p cs)
  obtain r bs where p: "p = (r, bs)" by (cases p)
  with Cons.prems have "\<not> IsSpace r" by auto
  moreover have "fields_chunks (cur @ bs) cs =
      (if (cur @ bs) @ concat (map snd cs) = [] then [] else [(cur @ bs) @ concat (map snd cs)])"
    by (rule Cons.IH) (use Cons.prems in auto)
  ultimately show ?case using p by simp
qed simp

text \<open>A field is never empty.\<close>

lemma fields_chunks_nonempty: "f \<in> set (fields_chunks cur cs) \<Longrightarrow> f \<noteq> []"
  by (induction cur cs rule: fields_chunks.induct) (auto split: if_splits)

lemma Fields_nonempty: "f \<in> set (Fields s) \<Longrightarrow> f \<noteq> []"
  by (auto simp: Fields_def dest: fields_chunks_nonempty)

text \<open>Lower-casing leaves no upper-case ASCII letter, whatever the input: no code point above ASCII
  maps into that range.\<close>

lemma lower_ranges_above: "list_all (\<lambda>(lo, hi, st, d). 128 \<le> lo \<and> 90 < int lo + d) lower_ranges"
  by (simp add: lower_ranges_def)

lemma unicode_lower_no_upper: "\<not> (65 \<le> unicode_lower r \<and> unicode_lower r \<le> 90)"
proof (cases "r < 128")
  case False
  show ?thesis
  proof (cases "find (\<lambda>(lo, hi, st, d). lo \<le> r \<and> r \<le> hi \<and> (r - lo) mod st = 0) lower_ranges")
    case (Some x)
    obtain lo hi st d where x: "x = (lo, hi, st, d)" by (cases x)
    from Some obtain i where "i < length lower_ranges" "x = lower_ranges ! i" and lo: "lo \<le> r"
      by (auto simp: find_Some_iff x)
    then have m: "x \<in> set lower_ranges" by simp
    with lower_ranges_above x have "90 < int lo + d" by (auto simp: list_all_iff)
    with lo have "90 < nat (int r + d)" by linarith
    with False Some x show ?thesis by (simp add: unicode_lower_def)
  qed (use False in \<open>simp add: unicode_lower_def\<close>)
qed (auto simp: unicode_lower_def)

lemma encode_rune_no_upper:
  assumes "\<not> (65 \<le> r \<and> r \<le> 90)" and "c \<in> set (encode_rune r)"
  shows "\<not> (65 \<le> code c \<and> code c \<le> 90)"
proof -
  define r' where "r' = (if 55296 \<le> r \<and> r \<le> 57343 \<or> 1114111 < r then RuneError else r)"
  have r': "\<not> (65 \<le> r' \<and> r' \<le> 90)" "r' \<le> 1114111" using assms(1) by (auto simp: r'_def RuneError_def)
  have "192 + r' div 64 < 256" if "r' < 2048" using that by simp
  moreover have "224 + r' div 4096 < 256" if "r' < 65536" using that by simp
  moreover have "240 + r' div 262144 < 256" using r' by simp
  moreover have "128 + x mod 64 < 256" for x :: nat by simp
  ultimately show ?thesis
    using assms(2) r'(1) unfolding encode_rune_def r'_def [symmetric] Let_def
    by (auto split: if_splits)
qed

lemma ToLower_no_upper: "c \<in> set (ToLower s) \<Longrightarrow> \<not> (65 \<le> code c \<and> code c \<le> 90)"
proof (cases "is_ascii s")
  case True
  assume "c \<in> set (ToLower s)"
  with True obtain d where "c = lower_ascii d" by (auto simp: ToLower_ascii)
  then show ?thesis by (auto simp: lower_ascii_def)
next
  case False
  assume "c \<in> set (ToLower s)"
  with False obtain r where "c \<in> set (encode_rune (unicode_lower r))" by (auto simp: ToLower_def)
  with encode_rune_no_upper unicode_lower_no_upper show ?thesis by blast
qed

lemma hex_value_Some_char: "hex_value c = Some n \<Longrightarrow> \<not> (65 \<le> code c \<and> code c \<le> 90) \<Longrightarrow> hex_char c"
  by (auto simp: hex_value_def hex_char_def split: if_splits)

lemma hex_decode_lower_chars:
  "hex_decode s = Some bs \<Longrightarrow> \<forall>c \<in> set s. \<not> (65 \<le> code c \<and> code c \<le> 90) \<Longrightarrow> \<forall>c \<in> set s. hex_char c"
  by (induction s arbitrary: bs rule: hex_decode.induct)
     (auto split: option.splits dest: hex_value_Some_char)

section \<open>Evaluation on ASCII strings\<close>

text \<open>The rules with which a concrete string is evaluated by the simplifier.\<close>

named_theorems go_eval \<open>evaluation of the string functions on ASCII literals\<close>

lemma trim_left_space_ascii: "is_ascii s \<Longrightarrow> trim_left_space s = dropWhile (\<lambda>c. IsSpace (code c)) s"
  by (induction s) (auto simp: trim_left_space.simps decode_rune_ascii)

lemma trim_right_space_ascii: "is_ascii s \<Longrightarrow> trim_right_space s = rev (dropWhile (\<lambda>c. IsSpace (code c)) (rev s))"
proof (induction s rule: rev_induct)
  case (snoc c s)
  then show ?case by (auto simp: trim_right_space.simps [of "s @ [c]"] decode_last_rune_def)
qed (simp add: trim_right_space.simps)

lemma is_ascii_dropWhile: "is_ascii s \<Longrightarrow> is_ascii (dropWhile P s)"
  by (auto simp: is_ascii_def list_all_iff dest: set_dropWhileD)

lemma TrimSpace_ascii [go_eval]:
  "is_ascii s \<Longrightarrow> TrimSpace s = rev (dropWhile (\<lambda>c. IsSpace (code c)) (rev (dropWhile (\<lambda>c. IsSpace (code c)) s)))"
  by (simp add: TrimSpace_def trim_left_space_ascii trim_right_space_ascii is_ascii_dropWhile)

lemma lower_ascii_eval [go_eval]:
  "lower_ascii c = (if 65 \<le> code c \<and> code c \<le> 90 then chr (code c + 32) else c)"
  by (simp add: lower_ascii_def)

declare ToLower_ascii [go_eval] is_ascii_def [go_eval] IsSpace_def [go_eval] char_of_def [go_eval]
  bit_Suc_0_iff [go_eval] hex_value_def [go_eval] RuneCount_ascii [go_eval] HasPrefix_def [go_eval]

lemma Fields_ascii [go_eval]: "is_ascii s \<Longrightarrow> Fields s = fields_chunks [] (map (\<lambda>c. (code c, [c])) s)"
  by (simp add: Fields_def rune_chunks_ascii)

end
