(* ===== verification/Roster.thy ===== *)
theory Roster
  imports Go_Strings "HOL-Library.Product_Lexorder"
begin

text \<open>
  The group-chat roster, \<open>internal/roster/roster.go\<close> and \<open>store.go\<close>: the members, the ban
  list and their persistence to \<open>state.json\<close>.

  A method that holds the roster's mutex is one function from the state to the new state
  and the results. The store is the file behind the roster: its parsed contents, and the
  error the next read or write meets, if any (an oracle for the file system). The JSON
  document is modelled by its fields: the member's hash is not among them
  (\<open>json:"-"\<close>), it is the key of the \<open>users\<close> object.
\<close>

section \<open>State\<close>

record User =
  Hash :: string
  Nickname :: string
  JoinedAt :: time
  LastAnnounceAt :: time
  LastMessageAt :: time
  LastCommandAt :: time
  Paused :: bool
  TextOnly :: bool
  Role :: string

record State =
  Users :: "(string, User) gomap"
  Banlist_doc :: "string list"

record Store =
  disk :: "State option"
  read_err :: "string option"
  write_err :: "string option"

record Roster =
  users :: "(string, User) gomap"
  banlist :: "string list"
  store :: "Store option"

datatype roster_error =
    BadHashLen nat
  | StoreError string
  | NotInRoster
  | InvalidRole string
  | EmptyIdentifier
  | Ambiguous string "string list"
  | NoMatch string

definition LastSeen :: "User \<Rightarrow> time" where
  "LastSeen u =
     (let l0 = JoinedAt u;
          l1 = (if LastMessageAt u > l0 then LastMessageAt u else l0);
          l2 = (if LastAnnounceAt u > l1 then LastAnnounceAt u else l1)
      in if LastCommandAt u > l2 then LastCommandAt u else l2)"

definition LastSpoke :: "User \<Rightarrow> time" where
  "LastSpoke u = (let l0 = JoinedAt u in if LastMessageAt u > l0 then LastMessageAt u else l0)"

definition new_user :: "string \<Rightarrow> time \<Rightarrow> User" where
  "new_user h now = \<lparr>Hash = h, Nickname = [], JoinedAt = now, LastAnnounceAt = 0,
     LastMessageAt = 0, LastCommandAt = 0, Paused = False, TextOnly = False, Role = []\<rparr>"

section \<open>Persistence\<close>

definition json_user :: "User \<Rightarrow> User" where
  "json_user u = u\<lparr>Hash := [], Nickname := json_str (Nickname u), Role := json_str (Role u)\<rparr>"

definition Load :: "Store \<Rightarrow> string + State" where
  "Load s = (case read_err s of
       Some e \<Rightarrow> Inl e
     | None \<Rightarrow> (case disk s of
           None \<Rightarrow> Inr \<lparr>Users = [], Banlist_doc = []\<rparr>
         | Some st \<Rightarrow> Inr st))"

definition Save :: "Store \<Rightarrow> State \<Rightarrow> Store \<times> string option" where
  "Save s st = (case write_err s of
       Some e \<Rightarrow> (s, Some e)
     | None \<Rightarrow> (s\<lparr>disk := Some st\<rparr>, None))"

definition snapshot :: "Roster \<Rightarrow> State" where
  "snapshot r = \<lparr>Users = map (\<lambda>(h, u). (json_str h, json_user u)) (users r),
     Banlist_doc = map json_str (sort (banlist r))\<rparr>"

definition persistLocked :: "Roster \<Rightarrow> Roster \<times> roster_error option" where
  "persistLocked r = (case store r of
       None \<Rightarrow> (r, None)
     | Some s \<Rightarrow> (let (s', e) = Save s (snapshot r)
                  in (r\<lparr>store := Some s'\<rparr>, map_option StoreError e)))"

fun load_bans :: "string list \<Rightarrow> string list \<Rightarrow> string list" where
  "load_bans bl [] = bl"
| "load_bans bl (h # hs) = load_bans (List.insert (ToLower h) bl) hs"

definition New :: "Store option \<Rightarrow> string + Roster" where
  "New st = (case st of
       None \<Rightarrow> Inr \<lparr>users = [], banlist = [], store = None\<rparr>
     | Some s \<Rightarrow> (case Load s of
           Inl e \<Rightarrow> Inl e
         | Inr d \<Rightarrow> Inr \<lparr>users = map (\<lambda>(h, u). (h, u\<lparr>Hash := h\<rparr>)) (Users d),
                        banlist = load_bans [] (Banlist_doc d), store = Some s\<rparr>))"

section \<open>Operations\<close>

definition normalizeHash :: "bytes \<Rightarrow> roster_error + string" where
  "normalizeHash hb = (if length hb \<noteq> 16 then Inl (BadHashLen (length hb)) else Inr (hex_encode hb))"

definition AddOrUpdate :: "Roster \<Rightarrow> bytes \<Rightarrow> time \<Rightarrow> Roster \<times> bool \<times> roster_error option" where
  "AddOrUpdate r hb now = (case normalizeHash hb of
       Inl e \<Rightarrow> (r, False, Some e)
     | Inr h \<Rightarrow>
         (let u = (case map_of (users r) h of None \<Rightarrow> new_user h now | Some u \<Rightarrow> u);
              (r', e) = persistLocked (r\<lparr>users := AList.update h (u\<lparr>LastMessageAt := now\<rparr>) (users r)\<rparr>)
          in (r', map_of (users r) h = None, e)))"

definition Touch :: "Roster \<Rightarrow> bytes \<Rightarrow> time \<Rightarrow> Roster \<times> bool \<times> roster_error option" where
  "Touch r hb now = (case normalizeHash hb of
       Inl e \<Rightarrow> (r, False, Some e)
     | Inr h \<Rightarrow> (case map_of (users r) h of
           None \<Rightarrow> (r, False, None)
         | Some u \<Rightarrow>
             (let (r', e) = persistLocked (r\<lparr>users := AList.update h (u\<lparr>LastCommandAt := now\<rparr>) (users r)\<rparr>)
              in (r', True, e))))"

definition MarkMessage :: "Roster \<Rightarrow> bytes \<Rightarrow> time \<Rightarrow> Roster \<times> bool \<times> roster_error option" where
  "MarkMessage r hb now = (case normalizeHash hb of
       Inl e \<Rightarrow> (r, False, Some e)
     | Inr h \<Rightarrow> (case map_of (users r) h of
           None \<Rightarrow> (r, False, None)
         | Some u \<Rightarrow>
             (let (r', e) = persistLocked (r\<lparr>users := AList.update h (u\<lparr>LastMessageAt := now\<rparr>) (users r)\<rparr>)
              in (r', True, e))))"

definition UpdateLastAnnounce :: "Roster \<Rightarrow> bytes \<Rightarrow> time \<Rightarrow> Roster \<times> roster_error option" where
  "UpdateLastAnnounce r hb at = (case normalizeHash hb of
       Inl e \<Rightarrow> (r, Some e)
     | Inr h \<Rightarrow> (case map_of (users r) h of
           None \<Rightarrow> (r, None)
         | Some u \<Rightarrow>
             if \<not> at > LastAnnounceAt u then (r, None)
             else persistLocked (r\<lparr>users := AList.update h (u\<lparr>LastAnnounceAt := at\<rparr>) (users r)\<rparr>)))"

definition prune_hit :: "time \<Rightarrow> duration \<Rightarrow> duration \<Rightarrow> User \<Rightarrow> bool" where
  "prune_hit now idleCutoff silentCutoff u =
     (let idle = LastSeen u < now - idleCutoff;
          silent = silentCutoff > 0 \<and> LastSpoke u < now - silentCutoff
      in idle \<or> silent)"

definition Prune :: "Roster \<Rightarrow> time \<Rightarrow> duration \<Rightarrow> duration \<Rightarrow> Roster \<times> string list \<times> roster_error option" where
  "Prune r now idleCutoff silentCutoff =
     (let hit = (\<lambda>(h, u). prune_hit now idleCutoff silentCutoff u);
          pruned = map fst (filter hit (users r))
      in if pruned = [] then (r, [], None)
         else (let (r', e) = persistLocked (r\<lparr>users := filter (\<lambda>p. \<not> hit p) (users r)\<rparr>)
               in (r', pruned, e)))"

definition Remove :: "Roster \<Rightarrow> string \<Rightarrow> Roster \<times> bool \<times> roster_error option" where
  "Remove r hashHex =
     (let h = ToLower hashHex in
      if map_of (users r) h = None then (r, False, None)
      else (let (r', e) = persistLocked (r\<lparr>users := AList.delete h (users r)\<rparr>) in (r', True, e)))"

definition Has :: "Roster \<Rightarrow> bytes \<Rightarrow> bool" where
  "Has r hb = (case normalizeHash hb of Inl _ \<Rightarrow> False | Inr h \<Rightarrow> map_of (users r) h \<noteq> None)"

definition Get :: "Roster \<Rightarrow> string \<Rightarrow> User option" where
  "Get r hashHex = map_of (users r) (ToLower hashHex)"

definition SetPaused :: "Roster \<Rightarrow> string \<Rightarrow> bool \<Rightarrow> Roster \<times> roster_error option" where
  "SetPaused r hashHex p = (case map_of (users r) (ToLower hashHex) of
       None \<Rightarrow> (r, Some NotInRoster)
     | Some u \<Rightarrow> persistLocked (r\<lparr>users := AList.update (ToLower hashHex) (u\<lparr>Paused := p\<rparr>) (users r)\<rparr>))"

definition IsPaused :: "Roster \<Rightarrow> string \<Rightarrow> bool" where
  "IsPaused r hashHex = (case map_of (users r) (ToLower hashHex) of None \<Rightarrow> False | Some u \<Rightarrow> Paused u)"

definition SetTextOnly :: "Roster \<Rightarrow> string \<Rightarrow> bool \<Rightarrow> Roster \<times> roster_error option" where
  "SetTextOnly r hashHex t = (case map_of (users r) (ToLower hashHex) of
       None \<Rightarrow> (r, Some NotInRoster)
     | Some u \<Rightarrow> persistLocked (r\<lparr>users := AList.update (ToLower hashHex) (u\<lparr>TextOnly := t\<rparr>) (users r)\<rparr>))"

definition SetRole :: "Roster \<Rightarrow> string \<Rightarrow> string \<Rightarrow> Roster \<times> roster_error option" where
  "SetRole r hashHex role =
     (if role \<noteq> [] \<and> role \<noteq> ''mod'' \<and> role \<noteq> ''admin'' then (r, Some (InvalidRole role))
      else case map_of (users r) (ToLower hashHex) of
        None \<Rightarrow> (r, Some NotInRoster)
      | Some u \<Rightarrow> persistLocked (r\<lparr>users := AList.update (ToLower hashHex) (u\<lparr>Role := role\<rparr>) (users r)\<rparr>))"

definition IsTextOnly :: "Roster \<Rightarrow> string \<Rightarrow> bool" where
  "IsTextOnly r hashHex = (case map_of (users r) (ToLower hashHex) of None \<Rightarrow> False | Some u \<Rightarrow> TextOnly u)"

definition ActiveHashes :: "Roster \<Rightarrow> string list" where
  "ActiveHashes r = map fst (filter (\<lambda>(h, u). \<not> Paused u) (users r))"

definition SetNickname :: "Roster \<Rightarrow> string \<Rightarrow> string \<Rightarrow> Roster \<times> roster_error option" where
  "SetNickname r hashHex nick = (case map_of (users r) (ToLower hashHex) of
       None \<Rightarrow> (r, Some NotInRoster)
     | Some u \<Rightarrow> persistLocked (r\<lparr>users := AList.update (ToLower hashHex) (u\<lparr>Nickname := nick\<rparr>) (users r)\<rparr>))"

definition list_less :: "User \<Rightarrow> User \<Rightarrow> bool" where
  "list_less a b =
     (let ni = ToLower (Nickname a); nj = ToLower (Nickname b) in
      if ni = [] \<and> nj \<noteq> [] then False
      else if ni \<noteq> [] \<and> nj = [] then True
      else if ni \<noteq> nj then ni < nj
      else Hash a < Hash b)"

definition List_users :: "Roster \<Rightarrow> User list" where
  "List_users r = sort_slice list_less (map snd (users r))"

definition Hashes :: "Roster \<Rightarrow> string list" where
  "Hashes r = map fst (users r)"

definition Len :: "Roster \<Rightarrow> nat" where
  "Len r = length (users r)"

definition isHexPrefix :: "string \<Rightarrow> bool" where
  "isHexPrefix s = list_all (\<lambda>r. 48 \<le> r \<and> r \<le> 57 \<or> 97 \<le> r \<and> r \<le> 102) (runes s)"

definition match_label :: "User \<Rightarrow> string" where
  "match_label u = (if Nickname u = [] then take 8 (Hash u)
                    else Nickname u @ '' ('' @ take 8 (Hash u) @ '')'')"

definition ambiguousErr :: "string \<Rightarrow> User list \<Rightarrow> roster_error" where
  "ambiguousErr q matches = Ambiguous q (sort (map match_label matches))"

definition Resolve :: "Roster \<Rightarrow> string \<Rightarrow> roster_error + User" where
  "Resolve r query =
     (let q = ToLower (TrimSpace query) in
      if q = [] then Inl EmptyIdentifier
      else
       (let byNick = filter (\<lambda>u. ToLower (Nickname u) = q) (map snd (users r)) in
        if length byNick = 1 then Inr (byNick ! 0)
        else if length byNick > 1 then Inl (ambiguousErr q byNick)
        else if isHexPrefix q \<and> length q \<ge> 4 then
          (let byHash = filter (\<lambda>u. HasPrefix (Hash u) q) (map snd (users r)) in
           if length byHash = 1 then Inr (byHash ! 0)
           else if length byHash > 1 then Inl (ambiguousErr q byHash)
           else Inl (NoMatch query))
        else Inl (NoMatch query)))"

definition Ban :: "Roster \<Rightarrow> string \<Rightarrow> Roster \<times> roster_error option" where
  "Ban r hashHex =
     (let h = ToLower hashHex in
      persistLocked (r\<lparr>banlist := List.insert h (banlist r), users := AList.delete h (users r)\<rparr>))"

definition Unban :: "Roster \<Rightarrow> string \<Rightarrow> Roster \<times> bool \<times> roster_error option" where
  "Unban r hashHex =
     (let h = ToLower hashHex in
      if h \<notin> set (banlist r) then (r, False, None)
      else (let (r', e) = persistLocked (r\<lparr>banlist := removeAll h (banlist r)\<rparr>) in (r', True, e)))"

definition IsBanned :: "Roster \<Rightarrow> bytes \<Rightarrow> bool" where
  "IsBanned r hb = (case normalizeHash hb of Inl _ \<Rightarrow> False | Inr h \<Rightarrow> h \<in> set (banlist r))"

definition Banlist :: "Roster \<Rightarrow> string list" where
  "Banlist r = sort (banlist r)"

section \<open>The invariant\<close>

text \<open>Every key is the member's hash, 32 lower-case hexadecimal digits; so is every banned
  hash. On such hashes the slice \<open>h[:8]\<close> of the source never goes out of range.\<close>

definition valid_hash :: "string \<Rightarrow> bool" where
  "valid_hash h \<longleftrightarrow> length h = 32 \<and> (\<forall>c \<in> set h. hex_char c)"

definition roster_inv :: "Roster \<Rightarrow> bool" where
  "roster_inv r \<longleftrightarrow> gm_ok (users r) \<and> (\<forall>(h, u) \<in> set (users r). Hash u = h \<and> valid_hash h)
     \<and> distinct (banlist r) \<and> (\<forall>h \<in> set (banlist r). valid_hash h)"

definition no_banned_member :: "Roster \<Rightarrow> bool" where
  "no_banned_member r \<longleftrightarrow> (\<forall>h \<in> set (banlist r). map_of (users r) h = None)"

text \<open>The file holds the state in memory.\<close>

definition synced :: "Roster \<Rightarrow> bool" where
  "synced r \<longleftrightarrow> (case store r of None \<Rightarrow> True | Some s \<Rightarrow> disk s = Some (snapshot r))"

lemma valid_hash_lower: "valid_hash h \<Longrightarrow> ToLower h = h"
  by (auto simp: valid_hash_def intro: ToLower_hex)

lemma valid_hash_encode: "length hb = 16 \<Longrightarrow> valid_hash (hex_encode hb)"
  by (auto simp: valid_hash_def dest: hex_encode_chars)

lemma normalizeHash_Inr [simp]: "normalizeHash hb = Inr h \<longleftrightarrow> length hb = 16 \<and> h = hex_encode hb"
  by (auto simp: normalizeHash_def)

lemma normalizeHash_16: "length hb = 16 \<Longrightarrow> normalizeHash hb = Inr (hex_encode hb)"
  by simp

lemma persist_users [simp]: "users (fst (persistLocked r)) = users r"
  by (auto simp: persistLocked_def Save_def split: option.splits)

lemma persist_banlist [simp]: "banlist (fst (persistLocked r)) = banlist r"
  by (auto simp: persistLocked_def Save_def split: option.splits)

lemma snapshot_store [simp]: "snapshot (r\<lparr>store := x\<rparr>) = snapshot r"
  by (simp add: snapshot_def)

lemma persist_synced: "snd (persistLocked r) = None \<Longrightarrow> synced (fst (persistLocked r))"
  by (auto simp: persistLocked_def Save_def synced_def split: option.splits)

lemma roster_inv_persist [simp]: "roster_inv (fst (persistLocked r)) = roster_inv r"
  by (simp add: roster_inv_def)

lemma no_banned_member_persist [simp]: "no_banned_member (fst (persistLocked r)) = no_banned_member r"
  by (simp add: no_banned_member_def)

lemma roster_inv_lookup: "roster_inv r \<Longrightarrow> map_of (users r) h = Some u \<Longrightarrow> Hash u = h \<and> valid_hash h"
  by (auto simp: roster_inv_def dest: map_of_SomeD)

lemma set_update_subset: "set (AList.update k v m) \<subseteq> insert (k, v) (set m)"
  by (induction m) auto

lemma roster_inv_update:
  "roster_inv r \<Longrightarrow> valid_hash h \<Longrightarrow> Hash u = h \<Longrightarrow> roster_inv (r\<lparr>users := AList.update h u (users r)\<rparr>)"
  using set_update_subset [of h u "users r"] by (fastforce simp: roster_inv_def)

lemma roster_inv_modify:
  "roster_inv r \<Longrightarrow> map_of (users r) h = Some u \<Longrightarrow> Hash u' = Hash u
     \<Longrightarrow> roster_inv (r\<lparr>users := AList.update h u' (users r)\<rparr>)"
  by (metis roster_inv_lookup roster_inv_update)

lemma roster_inv_filter: "roster_inv r \<Longrightarrow> roster_inv (r\<lparr>users := filter P (users r)\<rparr>)"
  by (auto simp: roster_inv_def)

lemma roster_inv_delete: "roster_inv r \<Longrightarrow> roster_inv (r\<lparr>users := AList.delete h (users r)\<rparr>)"
  by (auto simp: roster_inv_def AList.delete_eq)

section \<open>Setters: one contract\<close>

text \<open>\<open>SetPaused\<close>, \<open>SetTextOnly\<close>, \<open>SetNickname\<close> and \<open>SetRole\<close> share a contract: a value may be
  refused, an absent member is an error, and a present member gets one field changed.\<close>

locale member_setter =
  fixes setter :: "Roster \<Rightarrow> string \<Rightarrow> 'v \<Rightarrow> Roster \<times> roster_error option"
    and field_upd :: "'v \<Rightarrow> User \<Rightarrow> User"
    and accepts :: "'v \<Rightarrow> bool"
  assumes refuses: "\<not> accepts v \<Longrightarrow> fst (setter r h v) = r \<and> snd (setter r h v) \<noteq> None"
    and absent: "accepts v \<Longrightarrow> map_of (users r) (ToLower h) = None \<Longrightarrow> setter r h v = (r, Some NotInRoster)"
    and present: "accepts v \<Longrightarrow> map_of (users r) (ToLower h) = Some u \<Longrightarrow>
      setter r h v = persistLocked (r\<lparr>users := AList.update (ToLower h) (field_upd v u) (users r)\<rparr>)"
    and hash_kept: "Hash (field_upd v u) = Hash u"
begin

lemma effect:
  "map_of (users (fst (setter r h v))) k =
     (if accepts v \<and> k = ToLower h then map_option (field_upd v) (map_of (users r) k)
      else map_of (users r) k)"
  by (cases "accepts v"; cases "map_of (users r) (ToLower h)") (auto simp: refuses absent present)

lemma bans_kept: "banlist (fst (setter r h v)) = banlist r"
  by (cases "accepts v"; cases "map_of (users r) (ToLower h)") (auto simp: refuses absent present)

lemma inv_kept: "roster_inv r \<Longrightarrow> roster_inv (fst (setter r h v))"
  by (cases "accepts v"; cases "map_of (users r) (ToLower h)")
     (auto simp: refuses absent present hash_kept intro: roster_inv_modify)

lemma unbanned_kept: "no_banned_member r \<Longrightarrow> no_banned_member (fst (setter r h v))"
  by (auto simp: no_banned_member_def bans_kept effect)

lemma saved: "snd (setter r h v) = None \<Longrightarrow> synced (fst (setter r h v))"
  by (cases "accepts v"; cases "map_of (users r) (ToLower h)")
     (use refuses in \<open>auto simp: absent present intro: persist_synced\<close>)

lemma len_kept: "length (users (fst (setter r h v))) = length (users r)"
proof (cases "accepts v")
  case True
  show ?thesis
  proof (cases "map_of (users r) (ToLower h)")
    case (Some u)
    then have "ToLower h \<in> fst ` set (users r)" by (force dest: map_of_SomeD)
    with True Some show ?thesis by (simp add: present length_update_old)
  qed (use True in \<open>simp add: absent\<close>)
qed (simp add: refuses)

end

interpretation pause: member_setter SetPaused "\<lambda>v u. u\<lparr>Paused := v\<rparr>" "\<lambda>_. True"
  by unfold_locales (simp_all add: SetPaused_def)

interpretation textonly: member_setter SetTextOnly "\<lambda>v u. u\<lparr>TextOnly := v\<rparr>" "\<lambda>_. True"
  by unfold_locales (simp_all add: SetTextOnly_def)

interpretation nick: member_setter SetNickname "\<lambda>v u. u\<lparr>Nickname := v\<rparr>" "\<lambda>_. True"
  by unfold_locales (simp_all add: SetNickname_def)

interpretation role: member_setter SetRole "\<lambda>v u. u\<lparr>Role := v\<rparr>"
    "\<lambda>v. v = [] \<or> v = ''mod'' \<or> v = ''admin''"
  by unfold_locales (auto simp: SetRole_def)

lemmas setter_effects [roster_simps] = pause.effect textonly.effect nick.effect role.effect
lemmas setter_bans [roster_simps] = pause.bans_kept textonly.bans_kept nick.bans_kept role.bans_kept
lemmas setter_inv [inv_intros] = pause.inv_kept textonly.inv_kept nick.inv_kept role.inv_kept
lemmas setter_unbanned [inv_intros] =
  pause.unbanned_kept textonly.unbanned_kept nick.unbanned_kept role.unbanned_kept
lemmas setter_len [roster_simps] = pause.len_kept textonly.len_kept nick.len_kept role.len_kept

section \<open>The other operations\<close>

lemma AddOrUpdate_users [roster_simps]:
  "users (fst (AddOrUpdate r hb now)) =
     (if length hb = 16 then
        AList.update (hex_encode hb)
          ((case map_of (users r) (hex_encode hb) of None \<Rightarrow> new_user (hex_encode hb) now | Some u \<Rightarrow> u)
             \<lparr>LastMessageAt := now\<rparr>) (users r)
      else users r)"
  by (simp add: AddOrUpdate_def Let_def normalizeHash_def case_prod_unfold)

lemma AddOrUpdate_banlist [roster_simps]: "banlist (fst (AddOrUpdate r hb now)) = banlist r"
  by (simp add: AddOrUpdate_def Let_def normalizeHash_def case_prod_unfold)

lemma AddOrUpdate_new: "fst (snd (AddOrUpdate r hb now)) \<longleftrightarrow> length hb = 16 \<and> map_of (users r) (hex_encode hb) = None"
  by (simp add: AddOrUpdate_def Let_def normalizeHash_def case_prod_unfold)

lemma AddOrUpdate_inv [inv_intros]: "roster_inv r \<Longrightarrow> roster_inv (fst (AddOrUpdate r hb now))"
  by (auto simp: AddOrUpdate_def Let_def normalizeHash_def case_prod_unfold new_user_def valid_hash_encode
           split: option.splits intro!: roster_inv_update dest: roster_inv_lookup)

lemma Touch_users [roster_simps]:
  "users (fst (Touch r hb now)) =
     (if length hb = 16 then
        (case map_of (users r) (hex_encode hb) of None \<Rightarrow> users r
         | Some u \<Rightarrow> AList.update (hex_encode hb) (u\<lparr>LastCommandAt := now\<rparr>) (users r))
      else users r)"
  by (simp add: Touch_def Let_def normalizeHash_def case_prod_unfold split: option.splits)

lemma Touch_banlist [roster_simps]: "banlist (fst (Touch r hb now)) = banlist r"
  by (simp add: Touch_def Let_def normalizeHash_def case_prod_unfold split: option.splits)

lemma Touch_inv [inv_intros]: "roster_inv r \<Longrightarrow> roster_inv (fst (Touch r hb now))"
  by (auto simp: Touch_def Let_def normalizeHash_def case_prod_unfold
           split: option.splits intro!: roster_inv_modify)

lemma MarkMessage_users [roster_simps]:
  "users (fst (MarkMessage r hb now)) =
     (if length hb = 16 then
        (case map_of (users r) (hex_encode hb) of None \<Rightarrow> users r
         | Some u \<Rightarrow> AList.update (hex_encode hb) (u\<lparr>LastMessageAt := now\<rparr>) (users r))
      else users r)"
  by (simp add: MarkMessage_def Let_def normalizeHash_def case_prod_unfold split: option.splits)

lemma MarkMessage_banlist [roster_simps]: "banlist (fst (MarkMessage r hb now)) = banlist r"
  by (simp add: MarkMessage_def Let_def normalizeHash_def case_prod_unfold split: option.splits)

lemma MarkMessage_inv [inv_intros]: "roster_inv r \<Longrightarrow> roster_inv (fst (MarkMessage r hb now))"
  by (auto simp: MarkMessage_def Let_def normalizeHash_def case_prod_unfold
           split: option.splits intro!: roster_inv_modify)

lemma UpdateLastAnnounce_users [roster_simps]:
  "users (fst (UpdateLastAnnounce r hb at)) =
     (if length hb = 16 then
        (case map_of (users r) (hex_encode hb) of None \<Rightarrow> users r
         | Some u \<Rightarrow> if at > LastAnnounceAt u
                     then AList.update (hex_encode hb) (u\<lparr>LastAnnounceAt := at\<rparr>) (users r) else users r)
      else users r)"
  by (simp add: UpdateLastAnnounce_def normalizeHash_def split: option.splits)

lemma UpdateLastAnnounce_banlist [roster_simps]: "banlist (fst (UpdateLastAnnounce r hb at)) = banlist r"
  by (simp add: UpdateLastAnnounce_def normalizeHash_def split: option.splits)

lemma UpdateLastAnnounce_inv [inv_intros]: "roster_inv r \<Longrightarrow> roster_inv (fst (UpdateLastAnnounce r hb at))"
  by (auto simp: UpdateLastAnnounce_def normalizeHash_def split: option.splits intro!: roster_inv_modify)

lemma Prune_users [roster_simps]:
  "users (fst (Prune r now i s)) = filter (\<lambda>(h, u). \<not> prune_hit now i s u) (users r)"
proof (cases "filter (\<lambda>(h, u). prune_hit now i s u) (users r) = []")
  case True
  then have "filter (\<lambda>(h, u). \<not> prune_hit now i s u) (users r) = users r"
    by (auto simp: filter_empty_conv intro: filter_True)
  with True show ?thesis by (simp add: Prune_def Let_def)
next
  case False
  then show ?thesis by (simp add: Prune_def Let_def case_prod_unfold)
qed

lemma Prune_pruned: "fst (snd (Prune r now i s)) = map fst (filter (\<lambda>(h, u). prune_hit now i s u) (users r))"
  by (simp add: Prune_def Let_def case_prod_unfold)

lemma Prune_banlist [roster_simps]: "banlist (fst (Prune r now i s)) = banlist r"
  by (simp add: Prune_def Let_def case_prod_unfold)

lemma Prune_inv [inv_intros]: "roster_inv r \<Longrightarrow> roster_inv (fst (Prune r now i s))"
  by (auto simp: Prune_def Let_def case_prod_unfold intro: roster_inv_filter)

lemma Remove_users [roster_simps]: "users (fst (Remove r h)) = AList.delete (ToLower h) (users r)"
  by (auto simp: Remove_def Let_def case_prod_unfold map_of_eq_None_iff intro: AList.delete_id [symmetric])

lemma Remove_banlist [roster_simps]: "banlist (fst (Remove r h)) = banlist r"
  by (simp add: Remove_def Let_def case_prod_unfold)

lemma Remove_inv [inv_intros]: "roster_inv r \<Longrightarrow> roster_inv (fst (Remove r h))"
  by (simp add: Remove_def Let_def case_prod_unfold roster_inv_delete)

lemma Ban_users [roster_simps]: "users (fst (Ban r h)) = AList.delete (ToLower h) (users r)"
  by (simp add: Ban_def Let_def)

lemma Ban_banlist [roster_simps]: "banlist (fst (Ban r h)) = List.insert (ToLower h) (banlist r)"
  by (simp add: Ban_def Let_def)

lemma Ban_inv [inv_intros]: "roster_inv r \<Longrightarrow> valid_hash h \<Longrightarrow> roster_inv (fst (Ban r h))"
  using roster_inv_delete [of r h] by (auto simp: Ban_def Let_def roster_inv_def valid_hash_lower)

lemma Unban_users [roster_simps]: "users (fst (Unban r h)) = users r"
  by (simp add: Unban_def Let_def case_prod_unfold)

lemma Unban_banlist [roster_simps]: "banlist (fst (Unban r h)) = removeAll (ToLower h) (banlist r)"
  by (simp add: Unban_def Let_def case_prod_unfold)

lemma Unban_inv [inv_intros]: "roster_inv r \<Longrightarrow> roster_inv (fst (Unban r h))"
  by (auto simp: Unban_def Let_def case_prod_unfold roster_inv_def distinct_removeAll)

text \<open>No operation but \<open>Ban\<close> and \<open>AddOrUpdate\<close> could make a banned hash a member: \<open>Ban\<close> drops the
  member, and \<open>AddOrUpdate\<close> is the caller's responsibility.\<close>

lemma no_banned_AddOrUpdate [inv_intros]:
  "no_banned_member r \<Longrightarrow> \<not> IsBanned r hb \<Longrightarrow> no_banned_member (fst (AddOrUpdate r hb now))"
  by (auto simp: no_banned_member_def AddOrUpdate_users AddOrUpdate_banlist IsBanned_def normalizeHash_def)

lemma no_banned_Touch [inv_intros]: "no_banned_member r \<Longrightarrow> no_banned_member (fst (Touch r hb now))"
  by (auto simp: no_banned_member_def Touch_users Touch_banlist split: option.splits)

lemma no_banned_MarkMessage [inv_intros]: "no_banned_member r \<Longrightarrow> no_banned_member (fst (MarkMessage r hb now))"
  by (auto simp: no_banned_member_def MarkMessage_users MarkMessage_banlist split: option.splits)

lemma no_banned_UpdateLastAnnounce [inv_intros]:
  "no_banned_member r \<Longrightarrow> no_banned_member (fst (UpdateLastAnnounce r hb at))"
  by (auto simp: no_banned_member_def UpdateLastAnnounce_users UpdateLastAnnounce_banlist split: option.splits)

lemma no_banned_Prune [inv_intros]:
  "roster_inv r \<Longrightarrow> no_banned_member r \<Longrightarrow> no_banned_member (fst (Prune r now i s))"
  by (auto simp: no_banned_member_def Prune_users Prune_banlist roster_inv_def map_of_filter_ok split: option.splits)

lemma no_banned_Remove [inv_intros]: "no_banned_member r \<Longrightarrow> no_banned_member (fst (Remove r h))"
  by (auto simp: no_banned_member_def Remove_users Remove_banlist)

lemma no_banned_Ban [inv_intros]: "no_banned_member r \<Longrightarrow> no_banned_member (fst (Ban r h))"
  by (auto simp: no_banned_member_def Ban_users Ban_banlist)

lemma no_banned_Unban [inv_intros]: "no_banned_member r \<Longrightarrow> no_banned_member (fst (Unban r h))"
  by (auto simp: no_banned_member_def Unban_users Unban_banlist)

section \<open>Runs of operations\<close>

text \<open>One step is one call of a method that may change the roster. \<open>join\<close> is the only call of
  \<open>AddOrUpdate\<close> in the program and is made after \<open>IsBanned\<close>; \<open>Ban\<close> is called with the hash of a
  resolved member.\<close>

inductive roster_step :: "Roster \<Rightarrow> Roster \<Rightarrow> bool" where
  join: "\<not> IsBanned r hb \<Longrightarrow> roster_step r (fst (AddOrUpdate r hb now))"
| touch: "roster_step r (fst (Touch r hb now))"
| mark: "roster_step r (fst (MarkMessage r hb now))"
| announce: "roster_step r (fst (UpdateLastAnnounce r hb now))"
| prune: "roster_step r (fst (Prune r now i s))"
| remove: "roster_step r (fst (Remove r h))"
| set_paused: "roster_step r (fst (SetPaused r h b))"
| set_textonly: "roster_step r (fst (SetTextOnly r h b))"
| set_role: "roster_step r (fst (SetRole r h v))"
| set_nick: "roster_step r (fst (SetNickname r h v))"
| ban: "Resolve r q = Inr u \<Longrightarrow> roster_step r (fst (Ban r (Hash u)))"
| unban: "roster_step r (fst (Unban r h))"

inductive roster_reach :: "Roster \<Rightarrow> Roster \<Rightarrow> bool" for r0 where
  here: "roster_reach r0 r0"
| step: "roster_reach r0 r \<Longrightarrow> roster_step r r' \<Longrightarrow> roster_reach r0 r'"

lemma Resolve_in: "Resolve r q = Inr u \<Longrightarrow> u \<in> set (map snd (users r))"
proof -
  assume a: "Resolve r q = Inr u"
  then obtain P where "length (filter P (map snd (users r))) = 1" "u = filter P (map snd (users r)) ! 0"
    by (auto simp: Resolve_def Let_def split: if_splits)
  then have "u \<in> set (filter P (map snd (users r)))" by (metis nth_mem less_numeral_extra(1))
  then show ?thesis by simp
qed

lemma roster_member_lookup:
  assumes "roster_inv r" and "u \<in> set (map snd (users r))"
  shows "map_of (users r) (Hash u) = Some u"
proof -
  from assms(2) obtain h where h: "(h, u) \<in> set (users r)" by auto
  with assms(1) have "Hash u = h" and "gm_ok (users r)" by (auto simp: roster_inv_def)
  with h show ?thesis by (simp add: in_set_map_of)
qed

lemma Resolve_member: "roster_inv r \<Longrightarrow> Resolve r q = Inr u \<Longrightarrow> map_of (users r) (Hash u) = Some u \<and> valid_hash (Hash u)"
  by (metis Resolve_in roster_inv_lookup roster_member_lookup)

lemma roster_step_inv: "roster_step r r' \<Longrightarrow> roster_inv r \<Longrightarrow> roster_inv r'"
  by (induction rule: roster_step.induct) (auto intro: inv_intros dest: Resolve_member)

lemma roster_step_unbanned:
  "roster_step r r' \<Longrightarrow> roster_inv r \<Longrightarrow> no_banned_member r \<Longrightarrow> no_banned_member r'"
  by (induction rule: roster_step.induct) (auto intro: inv_intros)

lemma roster_reach_both:
  "roster_reach r r' \<Longrightarrow> roster_inv r \<Longrightarrow> no_banned_member r \<Longrightarrow> roster_inv r' \<and> no_banned_member r'"
  by (induction rule: roster_reach.induct) (auto intro: roster_step_inv roster_step_unbanned)

section \<open>Sorting, resolving and reloading: helper facts\<close>

definition list_key :: "User \<Rightarrow> bool \<times> string \<times> string" where
  "list_key u = (ToLower (Nickname u) = [], ToLower (Nickname u), Hash u)"

lemma list_less_key: "list_less a b \<longleftrightarrow> list_key a < list_key b"
  by (auto simp: list_less_def list_key_def Let_def less_prod_def')

lemma inj_list_key: "roster_inv r \<Longrightarrow> inj_on list_key (set (map snd (users r)))"
proof (rule inj_onI)
  fix a b
  assume inv: "roster_inv r" and ab: "a \<in> set (map snd (users r))" "b \<in> set (map snd (users r))"
    and k: "list_key a = list_key b"
  note la = roster_member_lookup [OF inv ab(1)] and lb = roster_member_lookup [OF inv ab(2)]
  from k have "Hash a = Hash b" by (simp add: list_key_def)
  with la lb show "a = b" by (metis option.inject)
qed

lemma sort_mset_cong: "mset xs = mset ys \<Longrightarrow> sort xs = sort (ys :: 'a :: linorder list)"
  by (rule sorted_sort_unique) simp_all

lemma singleton_mset_cong: "mset xs = mset ys \<Longrightarrow> length xs = 1 \<Longrightarrow> xs ! 0 = ys ! 0"
  by (cases xs; cases ys) auto

lemma load_bans_set: "set (load_bans bl hs) = set bl \<union> ToLower ` set hs"
  by (induction bl hs rule: load_bans.induct) auto

lemma load_bans_distinct: "distinct bl \<Longrightarrow> distinct (load_bans bl hs)"
  by (induction bl hs rule: load_bans.induct) auto

lemma valid_hash_ascii: "valid_hash h \<Longrightarrow> is_ascii h"
  by (auto simp: valid_hash_def is_ascii_def hex_char_ascii)

text \<open>Nicknames and roles are ASCII: \<open>nickRE\<close> and \<open>SetRole\<close> see to it.\<close>

definition names_ascii :: "Roster \<Rightarrow> bool" where
  "names_ascii r \<longleftrightarrow> (\<forall>(h, u) \<in> set (users r). is_ascii (Nickname u) \<and> is_ascii (Role u))"

lemma users_json_roundtrip: "roster_inv r \<Longrightarrow> names_ascii r \<Longrightarrow>
    map (\<lambda>(h, u). (h, u\<lparr>Hash := h\<rparr>)) (map (\<lambda>(h, u). (json_str h, json_user u)) (users r)) = users r"
proof -
  assume inv: "roster_inv r" "names_ascii r"
  have "json_str h = h \<and> (json_user u)\<lparr>Hash := h\<rparr> = u" if "(h, u) \<in> set (users r)" for h u
  proof -
    from that inv have "Hash u = h" "is_ascii h" "is_ascii (Nickname u)" "is_ascii (Role u)"
      by (auto simp: roster_inv_def names_ascii_def valid_hash_ascii)
    then show ?thesis by (cases u) (simp add: json_user_def)
  qed
  then show ?thesis by (auto intro!: map_idI)
qed

lemma LastSeen_max: "LastSeen u = max (JoinedAt u) (max (LastMessageAt u) (max (LastAnnounceAt u) (LastCommandAt u)))"
  by (auto simp: LastSeen_def Let_def)

lemma LastSpoke_max: "LastSpoke u = max (JoinedAt u) (LastMessageAt u)"
  by (auto simp: LastSpoke_def Let_def)

section \<open>Properties\<close>

text \<open>Every sequence of roster calls the program makes keeps the roster well-formed (keys are the
  members' 32-digit lower-case hashes, no duplicates, valid ban list) and keeps banned hashes out of
  the membership.\<close>

theorem roster_reach_safe:
  assumes "roster_reach r r'" and "roster_inv r" and "no_banned_member r"
  shows "roster_inv r' \<and> no_banned_member r'"
  using assms by (rule roster_reach_both)

definition user_a :: "string" where
  "user_a = replicate 32 (CHR ''a'')"

definition user_b :: "string" where
  "user_b = replicate 32 (CHR ''b'')"

definition demo_roster :: Roster where
  "demo_roster = \<lparr>users = [(user_a, (new_user user_a 100)\<lparr>Nickname := ''Ann''\<rparr>)],
     banlist = [user_b], store = Some \<lparr>disk = None, read_err = None, write_err = None\<rparr>\<rparr>"

lemma demo_hashes: "valid_hash user_a" "valid_hash user_b" "user_a \<noteq> user_b"
  by (simp_all add: valid_hash_def user_a_def user_b_def hex_char_def)

lemma demo_roster_inv: "roster_inv demo_roster" "no_banned_member demo_roster"
  using demo_hashes by (simp_all add: roster_inv_def no_banned_member_def demo_roster_def gm_ok_def new_user_def)

theorem roster_reach_safe_witness:
  "roster_inv (fst (Ban demo_roster user_a)) \<and> no_banned_member (fst (Ban demo_roster user_a))"
proof -
  have "TrimSpace ''Ann'' = ''Ann''"
    by (rule TrimSpace_none) (auto simp: IsSpace_def)
  then have "Resolve demo_roster ''Ann'' = Inr ((new_user user_a 100)\<lparr>Nickname := ''Ann''\<rparr>)"
    by (simp add: Resolve_def demo_roster_def ToLower_def Let_def)
  from roster_step.ban [OF this] have "roster_step demo_roster (fst (Ban demo_roster user_a))"
    by (simp add: new_user_def)
  from roster_reach_safe [OF roster_reach.step [OF roster_reach.here this] demo_roster_inv]
  show ?thesis .
qed

text \<open>C8. A restart loses nothing: once a write to the store has succeeded, loading that store gives
  back the same members, field by field, and the same ban list.\<close>

theorem restart_roundtrip:
  assumes "roster_inv r" and "names_ascii r"
    and "store r = Some s" and "write_err s = None" and "read_err s = None"
  shows "\<exists>r'. New (store (fst (persistLocked r))) = Inr r' \<and> users r' = users r
           \<and> set (banlist r') = set (banlist r) \<and> roster_inv r'"
proof -
  let ?bl = "map json_str (sort (banlist r))"
  let ?r' = "\<lparr>users = users r, banlist = load_bans [] ?bl, store = Some (s\<lparr>disk := Some (snapshot r)\<rparr>)\<rparr>"
  have "ToLower (json_str h) = h" if "h \<in> set (banlist r)" for h
    using that assms(1) by (simp add: roster_inv_def valid_hash_lower valid_hash_ascii)
  then have bans: "set (load_bans [] ?bl) = set (banlist r)"
    by (force simp: load_bans_set image_iff)
  have "New (store (fst (persistLocked r))) = Inr ?r'"
    using assms users_json_roundtrip [OF assms(1,2)]
    by (simp add: persistLocked_def Save_def New_def Load_def snapshot_def)
  moreover have "roster_inv ?r'"
    using assms(1) bans load_bans_distinct [of "[]" ?bl] by (simp add: roster_inv_def)
  ultimately show ?thesis using bans by auto
qed

theorem restart_roundtrip_witness:
  "\<exists>r'. New (store (fst (persistLocked demo_roster))) = Inr r' \<and> users r' = users demo_roster
      \<and> set (banlist r') = set (banlist demo_roster) \<and> roster_inv r'"
  by (rule restart_roundtrip [OF demo_roster_inv(1), where s = "\<lparr>disk = None, read_err = None, write_err = None\<rparr>"])
     (simp_all add: demo_roster_def names_ascii_def new_user_def)

text \<open>C27. \<open>Prune\<close> removes exactly the members who are idle (nothing heard since the idle cut-off) or,
  when the silent sweep is enabled, silent (joined or last spoke before the silent cut-off), and
  reports exactly the hashes it removed.\<close>

theorem Prune_exact:
  assumes "roster_inv r"
  shows "(map_of (users (fst (Prune r now idle silent))) h = Some u \<longleftrightarrow>
           map_of (users r) h = Some u
           \<and> now - idle \<le> max (JoinedAt u) (max (LastMessageAt u) (max (LastAnnounceAt u) (LastCommandAt u)))
           \<and> (silent \<le> 0 \<or> now - silent \<le> max (JoinedAt u) (LastMessageAt u)))
       \<and> set (fst (snd (Prune r now idle silent))) =
           fst ` set (users r) - fst ` set (users (fst (Prune r now idle silent)))"
proof (rule conjI)
  from assms have ok: "gm_ok (users r)" by (simp add: roster_inv_def)
  show "map_of (users (fst (Prune r now idle silent))) h = Some u \<longleftrightarrow>
           map_of (users r) h = Some u
           \<and> now - idle \<le> max (JoinedAt u) (max (LastMessageAt u) (max (LastAnnounceAt u) (LastCommandAt u)))
           \<and> (silent \<le> 0 \<or> now - silent \<le> max (JoinedAt u) (LastMessageAt u))"
    by (auto simp: Prune_users map_of_filter_ok [OF ok] prune_hit_def Let_def LastSeen_max LastSpoke_max
             split: option.splits if_splits)
  show "set (fst (snd (Prune r now idle silent))) =
           fst ` set (users r) - fst ` set (users (fst (Prune r now idle silent)))"
    using ok by (auto simp: Prune_pruned Prune_users gm_ok_def) (metis eq_key_imp_eq_value)
qed

theorem Prune_exact_witness:
  "map_of (users (fst (Prune demo_roster 1000 500 0))) user_a = None
     \<and> map_of (users (fst (Prune demo_roster 1000 950 0))) user_a \<noteq> None"
proof -
  let ?u = "(new_user user_a 100)\<lparr>Nickname := ''Ann''\<rparr>"
  have m: "map_of (users demo_roster) user_a = Some ?u" by (simp add: demo_roster_def)
  have "map_of (users (fst (Prune demo_roster 1000 500 0))) user_a \<noteq> Some u" for u
    using Prune_exact [OF demo_roster_inv(1), of 1000 500 0 user_a u] m by (auto simp: new_user_def)
  moreover have "map_of (users (fst (Prune demo_roster 1000 950 0))) user_a = Some ?u"
    using Prune_exact [OF demo_roster_inv(1), of 1000 950 0 user_a ?u] m by (simp add: new_user_def)
  ultimately show ?thesis by (metis option.exhaust option.distinct(1))
qed

definition announces :: "Roster \<Rightarrow> bytes \<Rightarrow> time list \<Rightarrow> Roster" where
  "announces r hb ts = fold (\<lambda>t r. fst (UpdateLastAnnounce r hb t)) ts r"

lemma announces_stamp:
  "length hb = 16 \<Longrightarrow> map_of (users r) (hex_encode hb) = Some u \<Longrightarrow>
     map_of (users (announces r hb ts)) (hex_encode hb) =
       Some (u\<lparr>LastAnnounceAt := fold max ts (LastAnnounceAt u)\<rparr>)"
proof (induction ts arbitrary: r u)
  case Nil
  then show ?case by (simp add: announces_def)
next
  case (Cons t ts)
  let ?r = "fst (UpdateLastAnnounce r hb t)"
  have "map_of (users ?r) (hex_encode hb) = Some (u\<lparr>LastAnnounceAt := max t (LastAnnounceAt u)\<rparr>)"
    using Cons.prems by (auto simp: UpdateLastAnnounce_users max_def)
  from Cons.IH [OF Cons.prems(1) this] show ?case by (simp add: announces_def)
qed

text \<open>The announce stamp of a member is monotone: whatever announces arrive, replayed or out of
  order, the recorded time is the latest of them all and never moves back.\<close>

theorem announces_monotone:
  assumes "length hb = 16" and "map_of (users r) (hex_encode hb) = Some u"
  shows "map_of (users (announces r hb ts)) (hex_encode hb)
           = Some (u\<lparr>LastAnnounceAt := Max (set (LastAnnounceAt u # ts))\<rparr>)"
proof -
  have "fold max ts (LastAnnounceAt u) = Max (set (LastAnnounceAt u # ts))"
    by (rule Max.set_eq_fold [symmetric])
  with announces_stamp [OF assms] show ?thesis by simp
qed

theorem announces_monotone_witness:
  "map (\<lambda>p. LastAnnounceAt (snd p)) (users (announces demo_roster (replicate 16 170) [50, 900, 20])) = [900]"
proof -
  let ?u = "(new_user user_a 100)\<lparr>Nickname := ''Ann''\<rparr>"
  have h: "hex_encode (replicate 16 170) = user_a" by code_simp
  have "map_of (users demo_roster) (hex_encode (replicate 16 170)) = Some ?u" by (simp add: h demo_roster_def)
  from announces_monotone [OF _ this, of "[50, 900, 20]"] h
  have "map_of (users (announces demo_roster (replicate 16 170) [50, 900, 20])) user_a
          = Some (?u\<lparr>LastAnnounceAt := 900\<rparr>)" by (simp add: new_user_def)
  moreover have "map fst (users (announces demo_roster (replicate 16 170) [50, 900, 20])) = [user_a]"
    by (simp add: announces_def UpdateLastAnnounce_users h demo_roster_def new_user_def)
  ultimately show ?thesis
    by (cases "users (announces demo_roster (replicate 16 170) [50, 900, 20])") (auto split: if_splits)
qed

datatype presence = Command bytes time | AnnounceHeard bytes time

fun presence_step :: "presence \<Rightarrow> Roster \<Rightarrow> Roster" where
  "presence_step (Command hb t) r = fst (Touch r hb t)"
| "presence_step (AnnounceHeard hb t) r = fst (UpdateLastAnnounce r hb t)"

lemma presence_step_spoke:
  "map_option LastSpoke (map_of (users (presence_step e r)) h) = map_option LastSpoke (map_of (users r) h)"
  by (cases e) (auto simp: Touch_users UpdateLastAnnounce_users LastSpoke_max split: option.splits)

lemma presence_spoke:
  "map_option LastSpoke (map_of (users (fold presence_step es r)) h) = map_option LastSpoke (map_of (users r) h)"
  by (induction es arbitrary: r) (auto simp: presence_step_spoke)

lemma presence_inv: "roster_inv r \<Longrightarrow> roster_inv (fold presence_step es r)"
proof (induction es arbitrary: r)
  case (Cons e es)
  have "roster_inv (presence_step e r)" using Cons.prems by (cases e) (auto intro: inv_intros)
  with Cons.IH show ?case by simp
qed simp

text \<open>Commands and announces never count as speaking: after any number of \<open>Touch\<close> and
  \<open>UpdateLastAnnounce\<close> calls by anyone, a member whose last message lies before the silent cut-off
  is removed by the silent sweep.\<close>

theorem lurker_pruned:
  assumes "roster_inv r" and "map_of (users r) h = Some u"
    and "silent > 0" and "LastSpoke u < now - silent"
  shows "map_of (users (fst (Prune (fold presence_step es r) now idle silent))) h = None"
proof -
  let ?r = "fold presence_step es r"
  have "map_option LastSpoke (map_of (users ?r) h) = Some (LastSpoke u)"
    using presence_spoke [of es r h] assms(2) by simp
  then obtain u' where u': "map_of (users ?r) h = Some u'" "LastSpoke u' = LastSpoke u" by auto
  have "gm_ok (users ?r)" using presence_inv [OF assms(1), of es] by (simp add: roster_inv_def)
  with u' assms(3,4) show ?thesis
    by (simp add: Prune_users map_of_filter_ok prune_hit_def Let_def)
qed

theorem lurker_pruned_witness:
  "map_of (users (fst (Prune (fold presence_step [Command (replicate 16 170) 990, AnnounceHeard (replicate 16 170) 995]
       demo_roster) 1000 500 600))) user_a = None"
  by (rule lurker_pruned [OF demo_roster_inv(1), where u = "(new_user user_a 100)\<lparr>Nickname := ''Ann''\<rparr>"])
     (simp_all add: demo_roster_def new_user_def LastSpoke_def)

lemma filter_length_one:
  assumes "length (filter P xs) = 1" and "x = filter P xs ! 0"
  shows "x \<in> set xs \<and> P x \<and> (\<forall>y \<in> set xs. P y \<longrightarrow> y = x)"
proof -
  from assms have "filter P xs = [x]" by (cases "filter P xs") auto
  then have "set (filter P xs) = {x}" by simp
  then show ?thesis by auto
qed

lemma Resolve_Inr_cases:
  fixes r query
  defines "q \<equiv> ToLower (TrimSpace query)"
  defines "N \<equiv> filter (\<lambda>v. ToLower (Nickname v) = q) (map snd (users r))"
  defines "H \<equiv> filter (\<lambda>v. HasPrefix (Hash v) q) (map snd (users r))"
  assumes "Resolve r query = Inr u"
  shows "length N = 1 \<and> u = N ! 0 \<or> N = [] \<and> 4 \<le> length q \<and> length H = 1 \<and> u = H ! 0"
proof -
  have "(if q = [] then Inl EmptyIdentifier
      else if length N = 1 then Inr (N ! 0)
        else if length N > 1 then Inl (ambiguousErr q N)
        else if isHexPrefix q \<and> length q \<ge> 4 then
           (if length H = 1 then Inr (H ! 0)
           else if length H > 1 then Inl (ambiguousErr q H)
           else Inl (NoMatch query))
        else Inl (NoMatch query)) = Inr u"
    using assms(4) unfolding Resolve_def Let_def q_def N_def H_def .
  moreover have "N = []" if "length N \<noteq> 1" "\<not> length N > 1" using that by (cases N) auto
  ultimately show ?thesis by (auto split: if_splits)
qed

text \<open>\<open>Resolve\<close> returns a member of the roster, and only one that is identified uniquely: the only
  member with that nickname up to case or, when no nickname matches, the only one whose hash starts
  with the at least four hexadecimal digits of the query.\<close>

theorem Resolve_unique:
  assumes "roster_inv r" and "Resolve r query = Inr u"
  shows "map_of (users r) (Hash u) = Some u \<and>
    (let q = ToLower (TrimSpace query); ms = snd ` set (users r) in
       {v \<in> ms. ToLower (Nickname v) = q} = {u} \<or>
       {v \<in> ms. ToLower (Nickname v) = q} = {} \<and> 4 \<le> length q \<and> {v \<in> ms. HasPrefix (Hash v) q} = {u})"
proof -
  let ?q = "ToLower (TrimSpace query)" and ?us = "map snd (users r)"
  let ?N = "\<lambda>v. ToLower (Nickname v) = ?q" and ?H = "\<lambda>v. HasPrefix (Hash v) ?q"
  consider (nick) "length (filter ?N ?us) = 1" "u = filter ?N ?us ! 0"
    | (hash) "filter ?N ?us = []" "4 \<le> length ?q" "length (filter ?H ?us) = 1" "u = filter ?H ?us ! 0"
    using Resolve_Inr_cases [OF assms(2)] by blast
  then have "{v \<in> snd ` set (users r). ?N v} = {u} \<or>
       {v \<in> snd ` set (users r). ?N v} = {} \<and> 4 \<le> length ?q \<and> {v \<in> snd ` set (users r). ?H v} = {u}"
  proof cases
    case nick
    from filter_length_one [OF nick] show ?thesis by auto
  next
    case hash
    from filter_length_one [OF hash(3,4)] hash(1,2) show ?thesis by (auto simp: filter_empty_conv)
  qed
  then show ?thesis using Resolve_member [OF assms] by (simp add: Let_def)
qed

theorem Resolve_unique_witness:
  "Resolve demo_roster ''Ann'' = Inr ((new_user user_a 100)\<lparr>Nickname := ''Ann''\<rparr>)
     \<and> map_of (users demo_roster) user_a = Some ((new_user user_a 100)\<lparr>Nickname := ''Ann''\<rparr>)"
proof -
  have "TrimSpace ''Ann'' = ''Ann''" by (rule TrimSpace_none) (auto simp: IsSpace_def)
  then have r: "Resolve demo_roster ''Ann'' = Inr ((new_user user_a 100)\<lparr>Nickname := ''Ann''\<rparr>)"
    by (simp add: Resolve_def demo_roster_def ToLower_def Let_def)
  from Resolve_unique [OF demo_roster_inv(1) r] r show ?thesis by (simp add: new_user_def)
qed

text \<open>The answers that iterate over the member map do not depend on Go's iteration order: two
  rosters whose maps hold the same entries give the same \<open>Resolve\<close> result (the ambiguity message
  included) and the same \<open>List\<close>, which is sorted by lower-cased nickname with the unnamed members
  last, by hash.\<close>

theorem iteration_order_irrelevant:
  assumes "roster_inv r" and "mset (users r) = mset (users r')"
  shows "Resolve r q = Resolve r' q \<and> List_users r = List_users r'
     \<and> sorted (map list_key (List_users r)) \<and> mset (List_users r) = mset (map snd (users r))"
proof (intro conjI)
  have us: "mset (map snd (users r)) = mset (map snd (users r'))" using assms(2) by simp
  then have fs: "mset (filter P (map snd (users r))) = mset (filter P (map snd (users r')))" for P
    by (simp only: mset_filter)
  have len: "length (filter P (map snd (users r))) = length (filter P (map snd (users r')))" for P
    by (rule mset_eq_length [OF fs])
  have one: "filter P (map snd (users r)) ! 0 = filter P (map snd (users r')) ! 0"
    if "length (filter P (map snd (users r'))) = 1" for P
    using singleton_mset_cong [OF fs] that len by metis
  have amb: "ambiguousErr x (filter P (map snd (users r))) = ambiguousErr x (filter P (map snd (users r')))" for x P
    unfolding ambiguousErr_def by (intro arg_cong2 [of _ _ _ _ Ambiguous] refl sort_mset_cong) (simp only: mset_map fs)
  show "Resolve r q = Resolve r' q"
    unfolding Resolve_def Let_def by (simp only: len one amb cong: if_cong)
  show "List_users r = List_users r'"
    unfolding List_users_def
    by (rule sort_slice_unique [where k = list_key, OF list_less_key inj_list_key [OF assms(1)] us])
  show "sorted (map list_key (List_users r))"
    unfolding List_users_def by (rule sorted_sort_slice_key [where k = list_key, OF list_less_key])
  show "mset (List_users r) = mset (map snd (users r))" by (simp add: List_users_def)
qed

theorem iteration_order_irrelevant_witness:
  "Resolve demo_roster ''x'' = Resolve demo_roster ''x'' \<and> length (List_users demo_roster) = 1"
  using iteration_order_irrelevant [OF demo_roster_inv(1) refl, of "''x''"]
  by (auto simp: demo_roster_def dest: mset_eq_length)

end
