(* ===== verification/History.thy ===== *)
theory History
  imports Go_Strings
begin

text \<open>
  The replay buffer, \<open>internal/history/log.go\<close>: a log of the forwarded messages, bounded by a
  capacity and written to \<open>history.json\<close> after every append. The file is modelled by its parsed
  entries; the error fields say what the next read or write meets.
\<close>

section \<open>State and operations\<close>

record Entry =
  At :: time
  SenderHash :: string
  SenderNick :: string
  Content :: string

record Log =
  capacity :: int
  entries :: "Entry list"
  log_file :: "Entry list option"
  log_read_err :: "string option"
  log_write_err :: "string option"

definition json_entry :: "Entry \<Rightarrow> Entry" where
  "json_entry e = e\<lparr>SenderHash := json_str (SenderHash e), SenderNick := json_str (SenderNick e),
     Content := json_str (Content e)\<rparr>"

text \<open>\<open>xs[len(xs)-c:]\<close> when the slice is longer than the capacity.\<close>

definition keep_last :: "int \<Rightarrow> 'a list \<Rightarrow> 'a list" where
  "keep_last c xs = (if int (length xs) > c then drop (nat (int (length xs) - c)) xs else xs)"

definition load :: "Log \<Rightarrow> string + Log" where
  "load l = (case log_read_err l of
       Some e \<Rightarrow> Inl e
     | None \<Rightarrow> (case log_file l of
           None \<Rightarrow> Inr l
         | Some ms \<Rightarrow> Inr (l\<lparr>entries := keep_last (capacity l) ms\<rparr>)))"

definition New_log :: "int \<Rightarrow> Entry list option \<Rightarrow> string option \<Rightarrow> string option \<Rightarrow> string + Log" where
  "New_log cap file rerr werr =
     (let c = (if cap < 1 then 1 else cap)
      in load \<lparr>capacity = c, entries = [], log_file = file, log_read_err = rerr, log_write_err = werr\<rparr>)"

definition persist_log :: "Log \<Rightarrow> Log \<times> string option" where
  "persist_log l = (case log_write_err l of
       Some e \<Rightarrow> (l, Some e)
     | None \<Rightarrow> (l\<lparr>log_file := Some (map json_entry (entries l))\<rparr>, None))"

definition Append :: "Log \<Rightarrow> Entry \<Rightarrow> Log \<times> string option" where
  "Append l e = persist_log (l\<lparr>entries := keep_last (capacity l) (entries l @ [e])\<rparr>)"

definition SinceOldest :: "Log \<Rightarrow> time \<Rightarrow> Entry list" where
  "SinceOldest l cutoff =
     (if cutoff = 0 then entries l else filter (\<lambda>e. \<not> At e < cutoff) (entries l))"

definition Len_log :: "Log \<Rightarrow> nat" where
  "Len_log l = length (entries l)"

section \<open>Lemmas\<close>

definition log_inv :: "Log \<Rightarrow> bool" where
  "log_inv l \<longleftrightarrow> 1 \<le> capacity l \<and> int (length (entries l)) \<le> capacity l"

lemma keep_last_drop: "0 \<le> c \<Longrightarrow> keep_last c xs = drop (length xs - nat c) xs"
  by (auto simp: keep_last_def nat_diff_distrib)

lemma length_keep_last: "0 \<le> c \<Longrightarrow> int (length (keep_last c xs)) = min c (int (length xs))"
  by (auto simp: keep_last_def)

lemma keep_last_append: "0 \<le> c \<Longrightarrow> keep_last c (keep_last c xs @ ys) = keep_last c (xs @ ys)"
  by (cases "length xs \<le> nat c") (auto simp: keep_last_drop add.commute)

lemma Append_entries [simp]: "entries (fst (Append l e)) = keep_last (capacity l) (entries l @ [e])"
  by (auto simp: Append_def persist_log_def split: option.splits)

lemma Append_capacity [simp]: "capacity (fst (Append l e)) = capacity l"
  by (auto simp: Append_def persist_log_def split: option.splits)

lemma Append_write_err [simp]: "log_write_err (fst (Append l e)) = log_write_err l"
  by (auto simp: Append_def persist_log_def split: option.splits)

lemma Append_read_err [simp]: "log_read_err (fst (Append l e)) = log_read_err l"
  by (auto simp: Append_def persist_log_def split: option.splits)

lemma Append_inv [inv_intros]: "log_inv l \<Longrightarrow> log_inv (fst (Append l e))"
  by (simp add: log_inv_def length_keep_last)

lemma New_log_inv: "New_log cap file re we = Inr l \<Longrightarrow> log_inv l"
  by (auto simp: New_log_def load_def log_inv_def length_keep_last split: option.splits if_splits)

definition append_all :: "Log \<Rightarrow> Entry list \<Rightarrow> Log" where
  "append_all l es = fold (\<lambda>e l. fst (Append l e)) es l"

lemma append_all_capacity [simp]: "capacity (append_all l es) = capacity l"
  by (induction es arbitrary: l) (auto simp: append_all_def)

section \<open>Properties\<close>

text \<open>The log refines an unbounded list of messages: after any sequence of appends it holds
  exactly the most recent \<open>capacity\<close> entries of everything it ever held, in order, and never more
  than its capacity, whether or not the writes to disk succeed.\<close>

theorem append_all_suffix:
  assumes "log_inv l"
  shows "entries (append_all l es) = drop (length (entries l @ es) - nat (capacity l)) (entries l @ es)
         \<and> log_inv (append_all l es)"
proof -
  have c: "0 \<le> capacity l" using assms by (simp add: log_inv_def)
  have e: "entries (append_all l es) = keep_last (capacity l) (entries l @ es)"
    using assms
  proof (induction es arbitrary: l)
    case Nil
    then show ?case by (simp add: append_all_def keep_last_def log_inv_def)
  next
    case (Cons x es)
    then have "entries (append_all (fst (Append l x)) es)
        = keep_last (capacity l) (keep_last (capacity l) (entries l @ [x]) @ es)"
      by (simp add: Append_inv)
    moreover have "0 \<le> capacity l" using Cons.prems by (simp add: log_inv_def)
    ultimately show ?case by (simp add: append_all_def keep_last_append)
  qed
  moreover from e c length_keep_last [OF c, of "entries l @ es"] have "log_inv (append_all l es)"
    using assms by (simp add: log_inv_def)
  ultimately show ?thesis using c by (simp only: keep_last_drop)
qed

definition demo_entry :: "time \<Rightarrow> Entry" where
  "demo_entry t = \<lparr>At = t, SenderHash = ''aa'', SenderNick = ''Ann'', Content = ''hi''\<rparr>"

definition demo_log :: Log where
  "demo_log = \<lparr>capacity = 2, entries = [demo_entry 1], log_file = None, log_read_err = None, log_write_err = None\<rparr>"

theorem append_all_suffix_witness:
  "entries (append_all demo_log [demo_entry 2, demo_entry 3]) = [demo_entry 2, demo_entry 3]"
  using append_all_suffix [of demo_log "[demo_entry 2, demo_entry 3]"] by (simp add: demo_log_def log_inv_def)

text \<open>A reload after an append whose write succeeded restores the buffer, with every string as JSON
  keeps it; for ASCII messages it is the buffer itself, so replay after a restart sees the same
  history.\<close>

theorem history_reload:
  assumes "log_inv l" and "log_write_err l = None" and "log_read_err l = None"
  shows "\<exists>l'. New_log (capacity l) (log_file (fst (Append l e))) None None = Inr l'
           \<and> entries l' = map json_entry (entries (fst (Append l e)))
           \<and> SinceOldest l' t = map json_entry (SinceOldest (fst (Append l e)) t)"
proof -
  let ?es = "keep_last (capacity l) (entries l @ [e])"
  have c: "1 \<le> capacity l" using assms by (simp add: log_inv_def)
  have f: "log_file (fst (Append l e)) = Some (map json_entry ?es)"
    using assms by (simp add: Append_def persist_log_def)
  have k: "keep_last (capacity l) (map json_entry ?es) = map json_entry ?es"
    using c length_keep_last [of "capacity l" "entries l @ [e]"] by (simp add: keep_last_def [of _ "map _ _"])
  have at: "At (json_entry x) = At x" for x by (simp add: json_entry_def)
  show ?thesis
    using c by (simp add: f New_log_def load_def k SinceOldest_def filter_map o_def at Let_def)
qed

theorem history_reload_witness:
  "\<exists>l'. New_log 2 (log_file (fst (Append demo_log (demo_entry 5)))) None None = Inr l'
      \<and> entries l' = [demo_entry 1, demo_entry 5]"
proof -
  have j: "json_entry (demo_entry t) = demo_entry t" for t by (simp add: json_entry_def demo_entry_def)
  have e: "entries (fst (Append demo_log (demo_entry 5))) = [demo_entry 1, demo_entry 5]"
    by (simp add: demo_log_def keep_last_def)
  have "capacity demo_log = 2" "log_inv demo_log" "log_write_err demo_log = None" "log_read_err demo_log = None"
    by (simp_all add: demo_log_def log_inv_def)
  with history_reload [of demo_log "demo_entry 5" 3] show ?thesis by (auto simp: e j simp del: Append_entries)
qed

end
