(* ===== verification/Packet.thy ===== *)
theory Packet
  imports Prelude
begin

text \<open>
  The Reticulum packet header, \<open>internal/rns/packet.go\<close>: packing, parsing, the hashable part that
  proofs are computed over, and the 40-bit big-endian timestamps of announces. Slices are byte
  lists; a nil slice is the empty list.
\<close>

section \<open>Definitions\<close>

abbreviation (input) HeaderType1 :: byte where "HeaderType1 \<equiv> 0"
abbreviation (input) HeaderType2 :: byte where "HeaderType2 \<equiv> 1"
abbreviation (input) BroadcastTransport :: byte where "BroadcastTransport \<equiv> 0"
abbreviation (input) NetworkTransport :: byte where "NetworkTransport \<equiv> 1"
abbreviation (input) DestinationSingle :: byte where "DestinationSingle \<equiv> 0"
abbreviation (input) DestinationPlain :: byte where "DestinationPlain \<equiv> 2"
abbreviation (input) DestinationLink :: byte where "DestinationLink \<equiv> 3"
abbreviation (input) PacketData :: byte where "PacketData \<equiv> 0"
abbreviation (input) PacketAnnounce :: byte where "PacketAnnounce \<equiv> 1"
abbreviation (input) PacketLinkRequest :: byte where "PacketLinkRequest \<equiv> 2"
abbreviation (input) PacketProof :: byte where "PacketProof \<equiv> 3"
abbreviation (input) ContextNone :: byte where "ContextNone \<equiv> 0"
abbreviation (input) ContextPathResponse :: byte where "ContextPathResponse \<equiv> 11"
abbreviation (input) ContextLinkIdentify :: byte where "ContextLinkIdentify \<equiv> 251"
abbreviation (input) ContextLRProof :: byte where "ContextLRProof \<equiv> 255"

record Packet =
  HeaderType :: byte
  ContextFlag :: bool
  TransportType :: byte
  DestinationType :: byte
  PacketType :: byte
  Hops :: byte
  TransportID :: bytes
  DestHash :: bytes
  Context :: byte
  Data :: bytes

datatype packet_error =
    DestHashLen nat
  | TransportIDLen nat
  | UnknownHeaderType byte
  | TooShort nat
  | IFACUnsupported
  | Header2Truncated

definition addressHashLen :: nat where "addressHashLen = 16"
definition header1MinLen :: nat where "header1MinLen = 1 + 1 + addressHashLen + 1"
definition header2MinLen :: nat where "header2MinLen = 1 + 1 + addressHashLen * 2 + 1"

definition packFlags :: "byte \<Rightarrow> bool \<Rightarrow> byte \<Rightarrow> byte \<Rightarrow> byte \<Rightarrow> byte" where
  "packFlags headerType contextFlag transportType destType packetType =
     push_bit 6 (headerType AND 1) OR (if contextFlag then push_bit 5 1 else 0)
       OR push_bit 4 (transportType AND 1) OR push_bit 2 (destType AND 3) OR (packetType AND 3)"

definition unpackFlags :: "byte \<Rightarrow> bool \<times> byte \<times> bool \<times> byte \<times> byte \<times> byte" where
  "unpackFlags f =
     (drop_bit 7 f AND 1 = 1, drop_bit 6 f AND 1, drop_bit 5 f AND 1 = 1, drop_bit 4 f AND 1,
      drop_bit 2 f AND 3, f AND 3)"

definition Pack :: "Packet \<Rightarrow> packet_error + bytes" where
  "Pack p =
     (if length (DestHash p) \<noteq> addressHashLen then Inl (DestHashLen (length (DestHash p)))
      else
        (let flags = packFlags (HeaderType p) (ContextFlag p) (TransportType p) (DestinationType p) (PacketType p)
         in if HeaderType p = 0 then Inr ([flags, Hops p] @ DestHash p @ [Context p] @ Data p)
            else if HeaderType p = 1 then
              (if length (TransportID p) \<noteq> addressHashLen then Inl (TransportIDLen (length (TransportID p)))
               else Inr ([flags, Hops p] @ TransportID p @ DestHash p @ [Context p] @ Data p))
            else Inl (UnknownHeaderType (HeaderType p))))"

definition ParsePacket :: "bytes \<Rightarrow> packet_error + Packet" where
  "ParsePacket raw =
     (if length raw < header1MinLen then Inl (TooShort (length raw))
      else
        (let (ifacFlag, headerType, contextFlag, transportType, destType, packetType) = unpackFlags (raw ! 0)
         in if ifacFlag then Inl IFACUnsupported
            else
              (let p = \<lparr>HeaderType = headerType, ContextFlag = contextFlag, TransportType = transportType,
                        DestinationType = destType, PacketType = packetType, Hops = raw ! 1,
                        TransportID = [], DestHash = [], Context = 0, Data = []\<rparr>
               in if headerType = 0 then
                    Inr (p\<lparr>DestHash := take addressHashLen (drop 2 raw),
                           Context := raw ! (2 + addressHashLen), Data := drop header1MinLen raw\<rparr>)
                  else if headerType = 1 then
                    (if length raw < header2MinLen then Inl Header2Truncated
                     else Inr (p\<lparr>TransportID := take addressHashLen (drop 2 raw),
                                 DestHash := take addressHashLen (drop (2 + addressHashLen) raw),
                                 Context := raw ! (2 + addressHashLen * 2), Data := drop header2MinLen raw\<rparr>))
                  else Inl (UnknownHeaderType headerType))))"

definition HashablePart :: "Packet \<Rightarrow> packet_error + bytes" where
  "HashablePart p = (case Pack p of
       Inl e \<Rightarrow> Inl e
     | Inr raw \<Rightarrow>
         (let low = raw ! 0 AND 15
          in if HeaderType p = 0 then Inr (low # drop 2 raw)
             else if HeaderType p = 1 then Inr (low # drop 18 raw)
             else Inl (UnknownHeaderType (HeaderType p))))"

definition PrependDestinationHash :: "bytes \<Rightarrow> bytes \<Rightarrow> bytes" where
  "PrependDestinationHash destHash payload = destHash @ payload"

definition BigEndianUint40 :: "64 word \<Rightarrow> bytes" where
  "BigEndianUint40 v =
     [ucast (drop_bit 32 v), ucast (drop_bit 24 v), ucast (drop_bit 16 v), ucast (drop_bit 8 v), ucast v]"

definition DecodeBigEndianUint40 :: "bytes \<Rightarrow> nat + 64 word" where
  "DecodeBigEndianUint40 b =
     (if length b \<noteq> 5 then Inl (length b)
      else Inr (push_bit 32 (ucast (b ! 0)) OR push_bit 24 (ucast (b ! 1)) OR push_bit 16 (ucast (b ! 2))
                  OR push_bit 8 (ucast (b ! 3)) OR ucast (b ! 4)))"

section \<open>Flags\<close>

lemmas len_defs [wire_simps] = addressHashLen_def header1MinLen_def header2MinLen_def

text \<open>The values the header's bit fields can carry.\<close>

definition flags_ok :: "byte \<Rightarrow> byte \<Rightarrow> byte \<Rightarrow> byte \<Rightarrow> bool" where
  "flags_ok ht tt dt pt \<longleftrightarrow> ht < 2 \<and> tt < 2 \<and> dt < 4 \<and> pt < 4"

lemma small_byte: "(x :: byte) < 2 \<longleftrightarrow> x = 0 \<or> x = 1" "(x :: byte) < 4 \<longleftrightarrow> x = 0 \<or> x = 1 \<or> x = 2 \<or> x = 3"
  by (rule byte_forall [where b = x]; code_simp)+

lemma unpack_pack: "flags_ok ht tt dt pt \<Longrightarrow>
    unpackFlags (packFlags ht cf tt dt pt) = (False, ht, cf, tt, dt, pt)"
  by (cases cf) (auto simp: flags_ok_def small_byte packFlags_def unpackFlags_def)

lemma pack_unpack:
  "unpackFlags f = (False, ht, cf, tt, dt, pt) \<Longrightarrow> packFlags ht cf tt dt pt = f \<and> flags_ok ht tt dt pt"
proof -
  have "case unpackFlags f of (i, ht, cf, tt, dt, pt) \<Rightarrow>
      i \<or> packFlags ht cf tt dt pt = f \<and> flags_ok ht tt dt pt"
    by (rule byte_forall [where b = f]) code_simp
  then show "unpackFlags f = (False, ht, cf, tt, dt, pt) \<Longrightarrow> packFlags ht cf tt dt pt = f \<and> flags_ok ht tt dt pt"
    by simp
qed

lemma packFlags_low: "packFlags ht cf tt dt pt AND 15 = push_bit 2 (dt AND 3) OR (pt AND 3)"
  by (rule bit_word_eqI) (auto simp: packFlags_def bit_simps numeral_eq_Suc less_Suc_eq)

section \<open>The packet codec\<close>

definition packet_ok :: "Packet \<Rightarrow> bool" where
  "packet_ok p \<longleftrightarrow> flags_ok (HeaderType p) (TransportType p) (DestinationType p) (PacketType p)
     \<and> length (DestHash p) = 16
     \<and> (if HeaderType p = 0 then TransportID p = [] else length (TransportID p) = 16)"

lemma header_ok_cases: "flags_ok ht tt dt pt \<Longrightarrow> ht \<noteq> 0 \<Longrightarrow> ht = 1"
  by (auto simp: flags_ok_def small_byte)

lemma nth_after: "length xs = n \<Longrightarrow> (xs @ y # ys) ! n = y"
  by (metis nth_append_length)

lemma ParsePacket_Pack:
  assumes "packet_ok p"
  shows "\<exists>raw. Pack p = Inr raw \<and> ParsePacket raw = Inr p"
proof -
  let ?f = "packFlags (HeaderType p) (ContextFlag p) (TransportType p) (DestinationType p) (PacketType p)"
  have fl: "unpackFlags ?f = (False, HeaderType p, ContextFlag p, TransportType p, DestinationType p, PacketType p)"
    using assms by (intro unpack_pack) (simp add: packet_ok_def)
  have d: "length (DestHash p) = 16" using assms by (simp add: packet_ok_def)
  show ?thesis
  proof (cases "HeaderType p = 0")
    case True
    with assms have "TransportID p = []" by (simp add: packet_ok_def)
    with True fl d show ?thesis
      by (cases p) (simp add: Pack_def ParsePacket_def len_defs nth_append numeral_eq_Suc)
  next
    case False
    with assms have h: "HeaderType p = 1" and t: "length (TransportID p) = 16"
      by (auto simp: packet_ok_def dest: header_ok_cases)
    from h t fl d show ?thesis
      by (cases p) (simp add: Pack_def ParsePacket_def len_defs nth_append numeral_eq_Suc)
  qed
qed

lemma split_at: "n < length xs \<Longrightarrow> xs = take n xs @ xs ! n # drop (Suc n) xs"
  by (rule id_take_nth_drop)

lemma Pack_ParsePacket:
  assumes "ParsePacket raw = Inr p"
  shows "packet_ok p \<and> Pack p = Inr raw"
proof -
  obtain i ht cf tt dt pt where u: "unpackFlags (raw ! 0) = (i, ht, cf, tt, dt, pt)"
    by (cases "unpackFlags (raw ! 0)")
  have len: "19 \<le> length raw" and i: "\<not> i"
    using assms u by (auto simp: ParsePacket_def len_defs split: if_splits)
  from u i have pf: "packFlags ht cf tt dt pt = raw ! 0" and ok: "flags_ok ht tt dt pt"
    using pack_unpack [of "raw ! 0" ht cf tt dt pt] by auto
  have r0: "raw = raw ! 0 # raw ! 1 # drop 2 raw"
    using len by (metis (no_types, lifting) Cons_nth_drop_Suc drop0 One_nat_def Suc_1 less_le_trans
        numeral_less_iff zero_less_numeral semiring_norm(77) one_less_numeral_iff semiring_norm(76))
  show ?thesis
  proof (cases "ht = 0")
    case True
    have "drop 2 raw = take 16 (drop 2 raw) @ raw ! 18 # drop 19 raw"
      using len split_at [of 16 "drop 2 raw"] by simp
    with r0 have r: "raw ! 0 # raw ! 1 # take 16 (drop 2 raw) @ raw ! 18 # drop 19 raw = raw" by simp
    from True u i len assms have "p = \<lparr>HeaderType = 0, ContextFlag = cf, TransportType = tt,
        DestinationType = dt, PacketType = pt, Hops = raw ! 1, TransportID = [],
        DestHash = take 16 (drop 2 raw), Context = raw ! 18, Data = drop 19 raw\<rparr>"
      by (simp add: ParsePacket_def len_defs)
    with r pf ok True len show ?thesis by (simp add: Pack_def packet_ok_def len_defs)
  next
    case False
    with ok have h: "ht = 1" by (rule header_ok_cases)
    with u i assms have len2: "35 \<le> length raw"
      by (auto simp: ParsePacket_def len_defs split: if_splits)
    have "drop 18 raw = take 16 (drop 18 raw) @ raw ! 34 # drop 35 raw"
      using len2 split_at [of 16 "drop 18 raw"] by simp
    moreover have "drop 2 raw = take 16 (drop 2 raw) @ drop 18 raw"
      using append_take_drop_id [of 16 "drop 2 raw"] by simp
    ultimately have r: "raw ! 0 # raw ! 1 # take 16 (drop 2 raw) @ take 16 (drop 18 raw) @ raw ! 34 # drop 35 raw = raw"
      using r0 by simp
    from h u i len len2 assms have "p = \<lparr>HeaderType = 1, ContextFlag = cf, TransportType = tt,
        DestinationType = dt, PacketType = pt, Hops = raw ! 1, TransportID = take 16 (drop 2 raw),
        DestHash = take 16 (drop 18 raw), Context = raw ! 34, Data = drop 35 raw\<rparr>"
      by (simp add: ParsePacket_def len_defs)
    with r pf ok h len2 show ?thesis by (simp add: Pack_def packet_ok_def len_defs)
  qed
qed

interpretation packet: wire_codec Pack ParsePacket packet_ok
  by unfold_locales (rule ParsePacket_Pack, assumption, rule Pack_ParsePacket)

section \<open>Properties\<close>

text \<open>C10. The packet header codec is a bijection between the well-formed packets and the byte strings
  the parser accepts: parsing what was packed gives the packet back, packing what was parsed gives
  the bytes back, and no two byte strings parse to the same packet.\<close>

theorem packet_codec_bijective:
  "(packet_ok p \<longrightarrow> (\<exists>raw. Pack p = Inr raw \<and> ParsePacket raw = Inr p))
   \<and> (ParsePacket raw = Inr p \<longrightarrow> packet_ok p \<and> Pack p = Inr raw)
   \<and> (ParsePacket raw = Inr p \<and> ParsePacket raw' = Inr p \<longrightarrow> raw = raw')"
  using packet.parse_pack packet.pack_parse packet.parse_inj by blast

definition demo_packet :: Packet where
  "demo_packet = \<lparr>HeaderType = 1, ContextFlag = True, TransportType = 1, DestinationType = 2, PacketType = 3,
     Hops = 7, TransportID = replicate 16 1, DestHash = replicate 16 2, Context = 5, Data = [9, 8]\<rparr>"

theorem packet_codec_bijective_witness:
  "\<exists>raw. Pack demo_packet = Inr raw \<and> ParsePacket raw = Inr demo_packet"
proof -
  have "packet_ok demo_packet" by (simp add: packet_ok_def demo_packet_def flags_ok_def)
  with packet_codec_bijective [of demo_packet] show ?thesis by blast
qed

lemma ifac_bit: "fst (unpackFlags f) \<longleftrightarrow> bit f 7" and header_bit: "fst (snd (unpackFlags f)) = (if bit f 6 then 1 else 0)"
  by (rule byte_forall [where b = f], code_simp)+

text \<open>C39. The parser accepts a byte string exactly when it holds a whole header and is not sealed with
  an interface access code (bit 7 of the flags): 19 bytes, or 35 when bit 6 announces a transport
  header.\<close>

theorem ParsePacket_accepts_iff:
  "(\<exists>p. ParsePacket raw = Inr p) \<longleftrightarrow>
     19 \<le> length raw \<and> \<not> bit (raw ! 0) 7 \<and> (bit (raw ! 0) 6 \<longrightarrow> 35 \<le> length raw)"
  using ifac_bit [of "raw ! 0"] header_bit [of "raw ! 0"]
  by (auto simp: ParsePacket_def len_defs split: prod.splits if_splits)

theorem ParsePacket_accepts_iff_witness: "\<exists>p. ParsePacket (replicate 19 0) = Inr p"
  using ParsePacket_accepts_iff [of "replicate 19 0"] by simp

lemma HashablePart_eq [wire_simps]:
  assumes "packet_ok x"
  shows "HashablePart x = Inr ((push_bit 2 (DestinationType x AND 3) OR (PacketType x AND 3)) # DestHash x @ Context x # Data x)"
proof (cases "HeaderType x = 0")
  case True
  with assms show ?thesis
    by (simp add: HashablePart_def Pack_def packet_ok_def len_defs packFlags_low)
next
  case False
  with assms have "HeaderType x = 1" "length (TransportID x) = 16" "length (DestHash x) = 16"
    by (auto simp: packet_ok_def dest: header_ok_cases)
  then show ?thesis
    by (simp add: HashablePart_def Pack_def len_defs packFlags_low numeral_eq_Suc)
qed

text \<open>The hashable part, and with it every packet hash and proof, does not change when a relay
  rewrites the header on the way: it is the same for packets that differ in header type, transport
  id, transport type, context flag and hop count.\<close>

theorem HashablePart_relay_invariant:
  assumes "packet_ok p" and "packet_ok q"
    and "DestinationType p = DestinationType q" and "PacketType p = PacketType q"
    and "DestHash p = DestHash q" and "Context p = Context q" and "Data p = Data q"
  shows "HashablePart p = HashablePart q \<and> (\<exists>b. HashablePart p = Inr b)"
  using HashablePart_eq [OF assms(1)] HashablePart_eq [OF assms(2)] assms(3-) by simp

theorem HashablePart_relay_invariant_witness:
  "HashablePart demo_packet = HashablePart (demo_packet\<lparr>HeaderType := 0, TransportID := [], Hops := 0\<rparr>)"
proof -
  have "packet_ok demo_packet" "packet_ok (demo_packet\<lparr>HeaderType := 0, TransportID := [], Hops := 0\<rparr>)"
    by (simp_all add: packet_ok_def demo_packet_def flags_ok_def)
  from HashablePart_relay_invariant [OF this] show ?thesis by simp
qed

text \<open>The 40-bit timestamps of announces: decoding the five big-endian bytes of a value gives its low 40 bits.\<close>

lemma Decode_BigEndianUint40 [wire_simps]: "DecodeBigEndianUint40 (BigEndianUint40 v) = Inr (v AND mask 40)"
proof -
  have "push_bit 32 (ucast (ucast (drop_bit 32 v) :: byte)) OR push_bit 24 (ucast (ucast (drop_bit 24 v) :: byte))
      OR push_bit 16 (ucast (ucast (drop_bit 16 v) :: byte)) OR push_bit 8 (ucast (ucast (drop_bit 8 v) :: byte))
      OR ucast (ucast v :: byte) = v AND mask 40" (is "?l = ?r")
  proof (rule bit_word_eqI)
    fix n :: nat
    assume "n < LENGTH(64)"
    consider "n < 8" | "8 \<le> n" "n < 16" | "16 \<le> n" "n < 24" | "24 \<le> n" "n < 32" | "32 \<le> n" "n < 40" | "40 \<le> n"
      by linarith
    then show "bit ?l n = bit ?r n" using \<open>n < LENGTH(64)\<close> by cases (auto simp: bit_simps)
  qed
  then show ?thesis by (simp add: DecodeBigEndianUint40_def BigEndianUint40_def)
qed

lemma length_BigEndianUint40 [simp]: "length (BigEndianUint40 v) = 5"
  by (simp add: BigEndianUint40_def)

end
