(* ===== verification/Hdlc.thy ===== *)
theory Hdlc
  imports Packet
begin

text \<open>
  HDLC framing, \<open>internal/rns/hdlc.go\<close>, and the reader of the TCP interface built on it,
  \<open>readLoop\<close> of \<open>internal/rns/tcp.go\<close>. A byte stream is the list of the bytes still to come
  together with the error its reader reports after the last of them.
\<close>

section \<open>Encoder and decoder\<close>

definition hdlcFlag :: byte where "hdlcFlag = 126"
definition hdlcEsc :: byte where "hdlcEsc = 125"
definition hdlcEscMask :: byte where "hdlcEscMask = 32"

datatype io_error = EOF | IOError string

datatype hdlc_error = ReadError io_error | ErrTruncatedEscape

fun escape :: "bytes \<Rightarrow> bytes" where
  "escape [] = []"
| "escape (b # p) =
     (if b = hdlcFlag \<or> b = hdlcEsc then hdlcEsc # (b XOR hdlcEscMask) # escape p
      else b # escape p)"

definition EncodeHDLC :: "bytes \<Rightarrow> bytes" where
  "EncodeHDLC p = hdlcFlag # escape p @ [hdlcFlag]"

text \<open>The error of a read in the middle of a frame.\<close>

definition mid_frame_error :: "io_error \<Rightarrow> hdlc_error" where
  "mid_frame_error e = (case e of EOF \<Rightarrow> ErrTruncatedEscape | IOError s \<Rightarrow> ReadError (IOError s))"

text \<open>The inner loop of \<open>NextFrame\<close>: \<open>b\<close> is the byte just read, \<open>out\<close> the payload so far.\<close>

fun frame_loop :: "io_error \<Rightarrow> bytes \<Rightarrow> byte \<Rightarrow> bytes \<Rightarrow> hdlc_error + bytes \<times> bytes" where
  "frame_loop e out b [] =
     (if b = hdlcFlag then Inr (out, []) else Inl (mid_frame_error e))"
| "frame_loop e out b [n] =
     (if b = hdlcFlag then Inr (out, [n])
      else if b = hdlcEsc then Inl (mid_frame_error e)
      else frame_loop e (out @ [b]) n [])"
| "frame_loop e out b (n # m # r) =
     (if b = hdlcFlag then Inr (out, n # m # r)
      else if b = hdlcEsc then frame_loop e (out @ [n XOR hdlcEscMask]) m r
      else frame_loop e (out @ [b]) n (m # r))"

fun NextFrame :: "io_error \<Rightarrow> bytes \<Rightarrow> hdlc_error + bytes \<times> bytes" where
  "NextFrame e [] = Inl (ReadError e)"
| "NextFrame e (b # s) = (if b = hdlcFlag then NextFrame e s else frame_loop e [] b s)"

section \<open>The TCP reader\<close>

lemma frame_loop_shorter: "frame_loop e out b s = Inr (p, s') \<Longrightarrow> length s' \<le> length s"
  by (induction e out b s arbitrary: p s' rule: frame_loop.induct) (fastforce split: if_splits)+

lemma NextFrame_shorter: "NextFrame e s = Inr (p, s') \<Longrightarrow> length s' < length s"
  by (induction e s rule: NextFrame.induct) (fastforce dest: frame_loop_shorter split: if_splits)+

text \<open>\<open>readLoop\<close>: the frames it puts on the inbox channel and the error it stores. \<open>closed\<close> is
  the client's \<open>closed\<close> flag at the time of the error.\<close>

function readLoop :: "bool \<Rightarrow> io_error \<Rightarrow> bytes \<Rightarrow> bytes list \<times> hdlc_error option" where
  "readLoop closed e s =
     (case NextFrame e s of
        Inl err \<Rightarrow> ([], if err \<noteq> ReadError EOF \<and> \<not> closed then Some err else None)
      | Inr (frame, s') \<Rightarrow>
          (let (fs, r) = readLoop closed e s'
           in (if length frame < header1MinLen then fs else frame # fs, r)))"
  by pat_completeness auto
termination
  by (relation "measure (\<lambda>(c, e, s). length s)") (auto dest: NextFrame_shorter)

declare readLoop.simps [simp del]

section \<open>Framing as an interface\<close>

text \<open>What the reader relies on: a decoder that takes the next frame off a stream, and an encoder
  whose output it takes off whole, for the payloads the encoder is meant for.\<close>

locale framing =
  fixes enc :: "'p \<Rightarrow> 'b list"
    and dec :: "'b list \<Rightarrow> 'e + 'p \<times> 'b list"
    and payload :: "'p \<Rightarrow> bool"
  assumes dec_enc: "payload p \<Longrightarrow> dec (enc p @ rest) = Inr (p, rest)"
begin

lemma enc_prefix_free: "payload p \<Longrightarrow> payload q \<Longrightarrow> enc p @ s = enc q @ t \<Longrightarrow> p = q \<and> s = t"
  by (metis dec_enc prod.inject sum.inject(2))

lemma enc_inj: "payload p \<Longrightarrow> payload q \<Longrightarrow> enc p = enc q \<Longrightarrow> p = q"
  using enc_prefix_free [of p q "[]" "[]"] by simp

lemma stream_inj: "\<forall>p \<in> set ps. payload p \<Longrightarrow> \<forall>q \<in> set qs. payload q \<Longrightarrow> length ps = length qs
    \<Longrightarrow> concat (map enc ps) = concat (map enc qs) \<Longrightarrow> ps = qs"
proof (induction ps arbitrary: qs)
  case (Cons p ps)
  then obtain q qs' where qs: "qs = q # qs'" by (cases qs) auto
  have eq: "p = q \<and> concat (map enc ps) = concat (map enc qs')"
    using Cons.prems qs by (intro enc_prefix_free) auto
  have "ps = qs'" by (rule Cons.IH) (use Cons.prems qs eq in auto)
  with eq qs show ?case by simp
qed simp

end

lemma frame_loop_escape:
  "p \<noteq> [] \<Longrightarrow> escape p @ hdlcFlag # rest = b # s \<Longrightarrow> frame_loop e out b s = Inr (out @ p, rest)"
proof (induction p arbitrary: out b s)
  case (Cons x p)
  have mask: "(y XOR hdlcEscMask) XOR hdlcEscMask = y" for y
    by (simp add: xor.assoc)
  have xor_ne: "hdlcFlag XOR hdlcEscMask \<noteq> hdlcFlag" "hdlcEsc \<noteq> hdlcFlag"
    by (simp_all add: hdlcFlag_def hdlcEsc_def hdlcEscMask_def)
  obtain b' s' where tail: "escape p @ hdlcFlag # rest = b' # s'"
    by (cases "escape p") auto
  have IH: "frame_loop e out' b' s' = Inr (out' @ p, rest)" for out'
  proof (cases "p = []")
    case True
    with tail show ?thesis by (cases s' rule: remdups_adj.cases) auto
  next
    case False
    from Cons.IH [OF this tail] show ?thesis .
  qed
  show ?case
  proof (cases "x = hdlcFlag \<or> x = hdlcEsc")
    case True
    then have "b = hdlcEsc" "s = (x XOR hdlcEscMask) # b' # s'" using Cons.prems(2) tail by auto
    then show ?thesis using IH xor_ne mask by simp
  next
    case False
    then have "b = x" "s = b' # s'" using Cons.prems(2) tail by auto
    then show ?thesis using IH False by (cases s') auto
  qed
qed simp

lemma escape_no_flag: "hdlcFlag \<notin> set (escape p)"
  by (induction p) (auto simp: hdlcFlag_def hdlcEsc_def hdlcEscMask_def)

lemma escape_eq_Nil [simp]: "escape p = [] \<longleftrightarrow> p = []"
  by (cases p) auto

lemma NextFrame_encode: "p \<noteq> [] \<Longrightarrow> NextFrame e (EncodeHDLC p @ rest) = Inr (p, rest)"
proof -
  assume p: "p \<noteq> []"
  then obtain b s where bs: "escape p @ hdlcFlag # rest = b # s" by (cases "escape p") auto
  moreover have "b \<noteq> hdlcFlag"
    using bs p escape_no_flag [of p] by (cases "escape p") auto
  ultimately show ?thesis
    using frame_loop_escape [OF p bs] by (simp add: EncodeHDLC_def)
qed

interpretation hdlc: framing EncodeHDLC "NextFrame e" "\<lambda>p. p \<noteq> []" for e
  by unfold_locales (rule NextFrame_encode)

lemma NextFrame_empty: "NextFrame e (EncodeHDLC [] @ rest) = NextFrame e rest"
  by (simp add: EncodeHDLC_def)

lemma readLoop_empty: "readLoop c e (EncodeHDLC [] @ rest) = readLoop c e rest"
  by (subst (1 2) readLoop.simps) (simp add: NextFrame_empty)

section \<open>Properties\<close>

text \<open>C9. Whatever packets a peer frames and sends back to back, the reader of the TCP interface
  delivers exactly those of at least header size, byte for byte and in order, and ends without an
  error on a clean close; empty and short frames are dropped.\<close>

theorem readLoop_delivers:
  "readLoop closed EOF (concat (map EncodeHDLC ps)) = (filter (\<lambda>p. header1MinLen \<le> length p) ps, None)"
proof (induction ps)
  case Nil
  show ?case by (simp add: readLoop.simps)
next
  case (Cons p ps)
  show ?case
  proof (cases "p = []")
    case True
    with Cons show ?thesis by (simp add: readLoop_empty header1MinLen_def)
  next
    case False
    have "NextFrame EOF (EncodeHDLC p @ concat (map EncodeHDLC ps)) = Inr (p, concat (map EncodeHDLC ps))"
      by (rule hdlc.dec_enc [OF False])
    with Cons show ?thesis by (simp add: readLoop.simps [of _ _ "EncodeHDLC p @ _"])
  qed
qed

end
