(* ===== verification/Runs.thy ===== *)
theory Runs
  imports Main
begin

text \<open>
  State machines: a component whose operations are the steps of a relation promises an invariant by showing that each step keeps it.
  A run is a finite sequence of steps.
\<close>

locale invariant_system =
  fixes step :: "'s \<Rightarrow> 's \<Rightarrow> bool"
    and inv :: "'s \<Rightarrow> bool"
  assumes kept: "step s s' \<Longrightarrow> inv s \<Longrightarrow> inv s'"
begin

lemma along_run: "rtranclp step s s' \<Longrightarrow> inv s \<Longrightarrow> inv s'"
  by (induction rule: rtranclp_induct) (auto intro: kept)

text \<open>A property of states that no step out of a good state destroys holds forever once it holds.\<close>

lemma stable_along_run:
  assumes "\<And>s s'. step s s' \<Longrightarrow> inv s \<Longrightarrow> P s \<Longrightarrow> P s'"
  shows "rtranclp step s s' \<Longrightarrow> inv s \<Longrightarrow> P s \<Longrightarrow> P s'"
  by (induction rule: rtranclp_induct) (auto intro: assms along_run)

end

end
