(* ===== verification/Reconnect.thy ===== *)
theory Reconnect
  imports Hdlc Runs
begin

text \<open>
  The TCP interface, \<open>internal/rns/tcp.go\<close> and \<open>tcp_reconnect.go\<close>: a client of one connection with its reader, and the wrapper that
  redials after every drop. A connection is the bytes its peer sends, an argument of the dial; the supervisor goroutine, \<open>Send\<close> and
  \<open>Close\<close> interleave in a step relation.
\<close>

section \<open>One connection\<close>

text \<open>\<open>frames\<close> is all that the reader puts on the channel \<open>inbox\<close>, \<open>taken\<close> how many of them have been received from it; \<open>wire\<close> is what
  has been written.\<close>

record TCPClient =
  frames :: "bytes list"
  taken :: nat
  failure :: "hdlc_error option"
  wire :: bytes
  tc_closed :: bool

definition NewTCPClient :: "io_error \<Rightarrow> bytes \<Rightarrow> TCPClient" where
  "NewTCPClient e s = \<lparr>frames = fst (readLoop False e s), taken = 0, failure = snd (readLoop False e s), wire = [], tc_closed = False\<rparr>"

definition DialTCP :: "string + io_error \<times> bytes \<Rightarrow> string + TCPClient" where
  "DialTCP conn = (case conn of Inl e \<Rightarrow> Inl e | Inr (e, s) \<Rightarrow> Inr (NewTCPClient e s))"

datatype tcp_error = TcpClosed | WriteFailed string | Reconnecting

text \<open>\<open>werr\<close> is the error the connection would give to the write.\<close>

definition Send_c :: "string option \<Rightarrow> bytes \<Rightarrow> TCPClient \<Rightarrow> TCPClient \<times> tcp_error option" where
  "Send_c werr packet c =
     (if tc_closed c then (c, Some TcpClosed)
      else case werr of Some e \<Rightarrow> (c, Some (WriteFailed e)) | None \<Rightarrow> (c\<lparr>wire := wire c @ EncodeHDLC packet\<rparr>, None))"

definition Close_c :: "TCPClient \<Rightarrow> TCPClient" where
  "Close_c c = c\<lparr>tc_closed := True\<rparr>"

section \<open>The supervisor\<close>

text \<open>What the supervisor is doing: pumping a connection, waiting for the given time, dialing after such a wait, or gone.\<close>

datatype phase = Pumping nat | Waiting duration | Dialing duration | Stopped

text \<open>The connections ever made, in order; \<open>cur\<close> points to one of them. \<open>delivered\<close> is what the outer channel has been given.\<close>

record ReconnectingTCPClient =
  initialBackoff :: duration
  maxBackoff :: duration
  conns :: "TCPClient list"
  cur :: "nat option"
  delivered :: "bytes list"
  r_closed :: bool
  phase :: phase

definition defaultReconnectInitialBackoff :: duration where "defaultReconnectInitialBackoff = 1 * second"
definition defaultReconnectMaxBackoff :: duration where "defaultReconnectMaxBackoff = 60 * second"

definition dialReconnectingTCP :: "string + io_error \<times> bytes \<Rightarrow> duration \<Rightarrow> duration \<Rightarrow> string + ReconnectingTCPClient" where
  "dialReconnectingTCP conn initial mx =
     (case DialTCP conn of Inl e \<Rightarrow> Inl e
      | Inr c \<Rightarrow> Inr \<lparr>initialBackoff = initial, maxBackoff = mx, conns = [c], cur = Some 0, delivered = [], r_closed = False, phase = Pumping 0\<rparr>)"

definition DialReconnectingTCP :: "string + io_error \<times> bytes \<Rightarrow> string + ReconnectingTCPClient" where
  "DialReconnectingTCP conn = dialReconnectingTCP conn defaultReconnectInitialBackoff defaultReconnectMaxBackoff"

text \<open>\<open>pump\<close> hands one frame on.\<close>

definition pump_frame :: "ReconnectingTCPClient \<Rightarrow> ReconnectingTCPClient option" where
  "pump_frame r =
     (case phase r of
        Pumping i \<Rightarrow>
          (let c = conns r ! i
           in if taken c < length (frames c)
              then Some (r\<lparr>conns := (conns r)[i := c\<lparr>taken := Suc (taken c)\<rparr>], delivered := delivered r @ [frames c ! taken c]\<rparr>)
              else None)
      | _ \<Rightarrow> None)"

text \<open>\<open>pump\<close> returns when the reader is done, even if up to 64 frames are still in the channel, when the connection was closed, or
  when the wrapper was closed; then the supervisor gives up the connection or stops.\<close>

definition inbox_size :: nat where "inbox_size = 64"

definition pump_may_end :: "ReconnectingTCPClient \<Rightarrow> TCPClient \<Rightarrow> bool" where
  "pump_may_end r c \<longleftrightarrow> r_closed r \<or> tc_closed c \<or> length (frames c) \<le> taken c + inbox_size"

definition pump_end :: "ReconnectingTCPClient \<Rightarrow> ReconnectingTCPClient option" where
  "pump_end r =
     (case phase r of
        Pumping i \<Rightarrow>
          if \<not> pump_may_end r (conns r ! i) then None
          else if r_closed r then Some (r\<lparr>phase := Stopped\<rparr>)
          else Some (r\<lparr>cur := None, conns := (conns r)[i := Close_c (conns r ! i)], phase := Waiting (initialBackoff r)\<rparr>)
      | _ \<Rightarrow> None)"

text \<open>The wait is over: the closed flag was read before it, and the \<open>done\<close> channel ends it.\<close>

definition wait_end :: "ReconnectingTCPClient \<Rightarrow> ReconnectingTCPClient option" where
  "wait_end r = (case phase r of Waiting b \<Rightarrow> Some (r\<lparr>phase := if r_closed r then Stopped else Dialing b\<rparr>) | _ \<Rightarrow> None)"

definition dial_end :: "string + io_error \<times> bytes \<Rightarrow> ReconnectingTCPClient \<Rightarrow> ReconnectingTCPClient option" where
  "dial_end conn r =
     (case phase r of
        Dialing b \<Rightarrow>
          (case DialTCP conn of
             Inl e \<Rightarrow> Some (r\<lparr>phase := Waiting (if b * 2 > maxBackoff r then maxBackoff r else b * 2)\<rparr>)
           | Inr c \<Rightarrow> Some (r\<lparr>conns := conns r @ [c], cur := Some (length (conns r)), phase := Pumping (length (conns r))\<rparr>))
      | _ \<Rightarrow> None)"

definition Send_r :: "string option \<Rightarrow> bytes \<Rightarrow> ReconnectingTCPClient \<Rightarrow> ReconnectingTCPClient \<times> tcp_error option" where
  "Send_r werr packet r =
     (if r_closed r then (r, Some TcpClosed)
      else case cur r of None \<Rightarrow> (r, Some Reconnecting) | Some i \<Rightarrow>
        (case Send_c werr packet (conns r ! i) of
           (c, Some e) \<Rightarrow> (r\<lparr>conns := (conns r)[i := Close_c c]\<rparr>, Some e)
         | (c, None) \<Rightarrow> (r\<lparr>conns := (conns r)[i := c]\<rparr>, None)))"

definition Close_r :: "ReconnectingTCPClient \<Rightarrow> ReconnectingTCPClient" where
  "Close_r r =
     (if r_closed r then r
      else r\<lparr>r_closed := True, cur := None,
             conns := (case cur r of None \<Rightarrow> conns r | Some i \<Rightarrow> (conns r)[i := Close_c (conns r ! i)])\<rparr>)"

inductive reconnect_step :: "ReconnectingTCPClient \<Rightarrow> ReconnectingTCPClient \<Rightarrow> bool" where
  frame: "pump_frame r = Some r' \<Longrightarrow> reconnect_step r r'"
| drop: "pump_end r = Some r' \<Longrightarrow> reconnect_step r r'"
| wake: "wait_end r = Some r' \<Longrightarrow> reconnect_step r r'"
| dialed: "dial_end conn r = Some r' \<Longrightarrow> reconnect_step r r'"
| send: "Send_r werr packet r = (r', e) \<Longrightarrow> reconnect_step r r'"
| close: "reconnect_step r (Close_r r)"

section \<open>Invariant\<close>

definition wait_ok :: "ReconnectingTCPClient \<Rightarrow> duration \<Rightarrow> bool" where
  "wait_ok r b \<longleftrightarrow> initialBackoff r \<le> b \<and> b \<le> maxBackoff r"

text \<open>The outer stream is what was taken of each connection, in the order of the connections; only the newest is pumped and, until the
  wrapper is closed, only the current one is open.\<close>

definition reconnect_inv :: "ReconnectingTCPClient \<Rightarrow> bool" where
  "reconnect_inv r \<longleftrightarrow> delivered r = concat (map (\<lambda>c. take (taken c) (frames c)) (conns r))
     \<and> 0 < initialBackoff r \<and> initialBackoff r \<le> maxBackoff r
     \<and> (case phase r of Pumping i \<Rightarrow> Suc i = length (conns r) | Waiting b \<Rightarrow> wait_ok r b | Dialing b \<Rightarrow> wait_ok r b | Stopped \<Rightarrow> True)
     \<and> (\<forall>i. cur r = Some i \<longrightarrow> i < length (conns r))
     \<and> (\<not> r_closed r \<longrightarrow> (\<forall>i < length (conns r). cur r \<noteq> Some i \<longrightarrow> tc_closed (conns r ! i)) 
          \<and> (case phase r of Pumping i \<Rightarrow> cur r = Some i | Stopped \<Rightarrow> False | _ \<Rightarrow> cur r = None))"

lemma Send_c_frames: "Send_c w p c = (c', e) \<Longrightarrow> frames c' = frames c \<and> taken c' = taken c \<and> (tc_closed c' = tc_closed c)"
  by (auto simp: Send_c_def split: if_splits option.splits)

lemma Close_c_simps [simp]: "frames (Close_c c) = frames c" "taken (Close_c c) = taken c" "tc_closed (Close_c c)" "wire (Close_c c) = wire c"
  by (simp_all add: Close_c_def)

lemma taken_update:
  fixes c :: TCPClient
  shows "frames c = frames (cs ! i) \<Longrightarrow> taken c = taken (cs ! i) \<Longrightarrow>
     concat (map (\<lambda>c. take (taken c) (frames c)) (cs[i := c])) = concat (map (\<lambda>c. take (taken c) (frames c)) cs)"
proof -
  define f where "f = (\<lambda>c :: TCPClient. take (taken c) (frames c))"
  assume "frames c = frames (cs ! i)" "taken c = taken (cs ! i)"
  then have "f c = f (cs ! i)" by (simp add: f_def)
  then have "map f (cs[i := c]) = map f cs"
    by (cases "i < length cs") (simp_all add: map_update list_update_same_conv list_update_beyond)
  then show "concat (map (\<lambda>c. take (taken c) (frames c)) (cs[i := c])) = concat (map (\<lambda>c. take (taken c) (frames c)) cs)"
    by (simp add: f_def)
qed

lemma reconnect_kept:
  assumes "reconnect_step r r'" and inv: "reconnect_inv r"
  shows "reconnect_inv r'"
  using assms
proof (induction rule: reconnect_step.induct)
  case (frame r r')
  then obtain i where i: "phase r = Pumping i" "taken (conns r ! i) < length (frames (conns r ! i))"
    "r' = r\<lparr>conns := (conns r)[i := (conns r ! i)\<lparr>taken := Suc (taken (conns r ! i))\<rparr>],
            delivered := delivered r @ [frames (conns r ! i) ! taken (conns r ! i)]\<rparr>"
    by (auto simp: pump_frame_def Let_def split: phase.splits if_splits)
  from frame.prems i(1) obtain cs c where cs: "conns r = cs @ [c]" "i = length cs"
    by (cases "conns r" rule: rev_cases) (auto simp: reconnect_inv_def)
  with frame.prems i show ?case
    by (auto simp: reconnect_inv_def take_Suc_conv_app_nth nth_append less_Suc_eq split: if_splits)
next
  case (drop r r')
  then show ?case
    by (auto simp: pump_end_def reconnect_inv_def wait_ok_def taken_update nth_list_update split: phase.splits if_splits)
next
  case (wake r r')
  then show ?case by (auto simp: wait_end_def reconnect_inv_def wait_ok_def split: phase.splits if_splits)
next
  case (dialed conn r r')
  then show ?case
    by (auto simp: dial_end_def DialTCP_def NewTCPClient_def reconnect_inv_def wait_ok_def nth_append less_Suc_eq split: phase.splits if_splits sum.splits)
next
  case (send werr packet r r' e)
  then show ?case
    by (auto simp: Send_r_def reconnect_inv_def wait_ok_def taken_update nth_list_update dest!: Send_c_frames
        split: phase.splits if_splits option.splits prod.splits)
next
  case (close r)
  then show ?case
    by (auto simp: Close_r_def reconnect_inv_def wait_ok_def taken_update nth_list_update split: phase.splits if_splits option.splits)
qed

interpretation reconnect: invariant_system reconnect_step reconnect_inv
  by unfold_locales (rule reconnect_kept)

section \<open>The interface over its life\<close>

definition reconnect_run :: "ReconnectingTCPClient \<Rightarrow> ReconnectingTCPClient \<Rightarrow> bool" where
  "reconnect_run = rtranclp reconnect_step"

lemma dialed_inv: "dialReconnectingTCP conn b mx = Inr r \<Longrightarrow> 0 < b \<Longrightarrow> b \<le> mx \<Longrightarrow> reconnect_inv r \<and> initialBackoff r = b \<and> maxBackoff r = mx"
  by (auto simp: dialReconnectingTCP_def DialTCP_def NewTCPClient_def reconnect_inv_def split: sum.splits prod.splits)

lemma step_backoffs: "reconnect_step r r' \<Longrightarrow> initialBackoff r' = initialBackoff r \<and> maxBackoff r' = maxBackoff r"
  by (induction rule: reconnect_step.induct)
    (auto simp: pump_frame_def pump_end_def wait_end_def dial_end_def Send_r_def Close_r_def Let_def
      split: phase.splits if_splits sum.splits option.splits prod.splits)

lemma step_closed: "reconnect_step r r' \<Longrightarrow> r_closed r \<Longrightarrow> r_closed r'"
  by (induction rule: reconnect_step.induct)
    (auto simp: pump_frame_def pump_end_def wait_end_def dial_end_def Send_r_def Close_r_def Let_def
      split: phase.splits if_splits sum.splits option.splits prod.splits)

text \<open>C32. However often the connection drops, the transport sees one stream: what it is given is, connection by connection and in the order
  they were made, a prefix of the frames that the peer sent over it, none twice and none made up. Between two dials the wait stays
  between the first backoff and the cap, every connection but the current one is closed, and once the interface is closed it stays
  closed and refuses every packet.\<close>

theorem reconnect_stream:
  assumes "dialReconnectingTCP conn b mx = Inr r0" and "0 < b" and "b \<le> mx" and "reconnect_run r0 r"
  shows "delivered r = concat (map (\<lambda>c. take (taken c) (frames c)) (conns r))
    \<and> (\<forall>w. phase r = Waiting w \<or> phase r = Dialing w \<longrightarrow> b \<le> w \<and> w \<le> mx)
    \<and> (if r_closed r then (\<forall>r'. reconnect_step r r' \<longrightarrow> r_closed r') \<and> (\<forall>e p. Send_r e p r = (r, Some TcpClosed))
       else \<forall>i < length (conns r). cur r \<noteq> Some i \<longrightarrow> tc_closed (conns r ! i))"
proof -
  have "reconnect_inv r \<and> initialBackoff r = b \<and> maxBackoff r = mx"
    using assms(4) unfolding reconnect_run_def
    by (induction rule: rtranclp_induct) (use dialed_inv [OF assms(1-3)] reconnect_kept step_backoffs in auto)
  then show ?thesis
    using step_closed [of r] by (auto simp: reconnect_inv_def wait_ok_def Send_r_def)
qed

fun redials :: "string \<Rightarrow> nat \<Rightarrow> ReconnectingTCPClient \<Rightarrow> ReconnectingTCPClient option" where
  "redials e 0 r = Some r"
| "redials e (Suc k) r = Option.bind (redials e k r) (\<lambda>r. Option.bind (wait_end r) (dial_end (Inl e)))"

text \<open>The k-th failed dial in a row doubles the wait up to the cap.\<close>

lemma backoff_doubles:
  assumes "phase r = Waiting w" and "\<not> r_closed r" and "0 \<le> w" and "w \<le> maxBackoff r"
  shows "redials e k r = Some (r\<lparr>phase := Waiting (min (w * 2 ^ k) (maxBackoff r))\<rparr>)"
proof (induction k)
  case 0
  with assms show ?case by simp
next
  case (Suc k)
  have "min (w * 2 ^ Suc k) (maxBackoff r) = (if min (w * 2 ^ k) (maxBackoff r) * 2 > maxBackoff r then maxBackoff r else min (w * 2 ^ k) (maxBackoff r) * 2)"
    using assms(3,4) by (auto simp: min_def)
  with Suc assms show ?case by (simp add: wait_end_def dial_end_def DialTCP_def)
qed

text \<open>Frames that were read can be lost: \<open>readLoop\<close> closes \<open>done\<close> while its channel still holds them.\<close>

definition demo_conn :: "string + io_error \<times> bytes" where
  "demo_conn = Inr (EOF, EncodeHDLC (replicate 19 1))"

lemma dropped_frame:
  assumes "DialReconnectingTCP demo_conn = Inr r"
  shows "frames (conns r ! 0) = [replicate 19 1]" "\<exists>r'. reconnect_step r r' \<and> phase r' = Waiting second \<and> delivered r' = []"
proof -
  have "readLoop False EOF (EncodeHDLC (replicate 19 1)) = ([replicate 19 1], None)"
    using NextFrame_encode [of "replicate 19 1" EOF "[]"] by (simp add: readLoop.simps header1MinLen_def addressHashLen_def)
  with assms show "frames (conns r ! 0) = [replicate 19 1]"
    by (auto simp: DialReconnectingTCP_def dialReconnectingTCP_def DialTCP_def NewTCPClient_def demo_conn_def)
  then have "pump_end r = Some (r\<lparr>cur := None, conns := (conns r)[0 := Close_c (conns r ! 0)], phase := Waiting second\<rparr>)" "delivered r = []"
    using assms by (auto simp: DialReconnectingTCP_def dialReconnectingTCP_def DialTCP_def NewTCPClient_def demo_conn_def pump_end_def pump_may_end_def
        inbox_size_def defaultReconnectInitialBackoff_def)
  with reconnect_step.drop show "\<exists>r'. reconnect_step r r' \<and> phase r' = Waiting second \<and> delivered r' = []" by fastforce
qed

text \<open>A connection can be leaked: closing the interface while a dial is under way leaves the new connection open for good.\<close>

lemma leaked_connection:
  assumes "phase r = Dialing w" and "cur r = None" and "\<not> r_closed r"
  shows "\<exists>r' i. reconnect_run r r' \<and> r_closed r' \<and> phase r' = Stopped \<and> cur r' = Some i \<and> \<not> tc_closed (conns r' ! i)"
proof -
  let ?c = "NewTCPClient EOF []"
  let ?r1 = "r\<lparr>r_closed := True, conns := conns r @ [?c], cur := Some (length (conns r)), phase := Pumping (length (conns r))\<rparr>"
  have "reconnect_step r (Close_r r)" by (rule reconnect_step.close)
  moreover have "dial_end (Inr (EOF, [])) (Close_r r) = Some ?r1"
    using assms by (simp add: Close_r_def dial_end_def DialTCP_def)
  then have "reconnect_step (Close_r r) ?r1" by (rule reconnect_step.dialed)
  moreover have "reconnect_step ?r1 (?r1\<lparr>phase := Stopped\<rparr>)" by (rule reconnect_step.drop) (simp add: pump_end_def pump_may_end_def)
  ultimately have "reconnect_run r (?r1\<lparr>phase := Stopped\<rparr>)"
    unfolding reconnect_run_def by (meson rtranclp.rtrancl_into_rtrancl rtranclp.rtrancl_refl)
  then show ?thesis by (intro exI [of _ "?r1\<lparr>phase := Stopped\<rparr>"] exI [of _ "length (conns r)"]) (simp add: NewTCPClient_def)
qed

theorem reconnect_stream_witness:
  "\<exists>r0 r. DialReconnectingTCP demo_conn = Inr r0 \<and> reconnect_run r0 r \<and> phase r = Waiting second
     \<and> (\<forall>w. phase r = Waiting w \<longrightarrow> w \<le> 60 * second)"
proof -
  obtain r0 where r0: "DialReconnectingTCP demo_conn = Inr r0"
    by (simp add: DialReconnectingTCP_def dialReconnectingTCP_def DialTCP_def demo_conn_def)
  obtain r where r: "reconnect_step r0 r" "phase r = Waiting second" using dropped_frame(2) [OF r0] by blast
  then have run: "reconnect_run r0 r" unfolding reconnect_run_def by blast
  from reconnect_stream [OF r0 [unfolded DialReconnectingTCP_def] _ _ run] r(2) r0 run show ?thesis
    by (auto simp: defaultReconnectInitialBackoff_def defaultReconnectMaxBackoff_def)
qed

end
