(* ===== verification/Config.thy ===== *)
theory Config
  imports Go_Strings
begin

text \<open>
  The configuration, \<open>internal/config/config.go\<close>: its data, defaults, validation and the role
  lists. The TOML reader, \<open>os.UserHomeDir\<close>, the base64 decoder and \<open>time.ParseDuration\<close> are
  arguments.
\<close>

section \<open>Data\<close>

record ServiceConfig =
  DisplayName :: string
  IdentityPath :: string
  IdentityB64 :: string
  StatePath :: string
  HistoryPath :: string
  LogPath :: string
  PruneAfter :: duration
  PruneSilentAfter :: duration
  PruneInterval :: duration
  AnnounceInterval :: duration
  MaxInboundChars :: int
  MaxMembers :: int
  ForwardAttachments :: bool
  MaxAttachmentBytes :: int
  IDCacheTTL :: duration
  IDCacheMax :: int
  ForwardedFields :: "int list"

record InterfaceConfig =
  IfType :: string
  IfAddr :: string
  IfTimeout :: duration

record ReplayConfig =
  ReplayCount :: int
  ReplayMaxAge :: duration

record Config =
  Service :: ServiceConfig
  Interfaces :: "InterfaceConfig list"
  Replay :: ReplayConfig
  Admins :: "string list"
  Mods :: "string list"

datatype config_error =
    PathError string
  | EmptyDisplayName
  | NotPositive string
  | Negative string
  | NegativeFieldKey nat
  | BadBase64
  | IdentityLen nat
  | UnsupportedInterface nat string
  | MissingAddr nat
  | BadHex string string
  | HashLen string string nat

section \<open>Durations\<close>

definition is_digit :: "char \<Rightarrow> bool" where
  "is_digit c \<longleftrightarrow> 48 \<le> code c \<and> code c \<le> 57"

fun digits_value :: "nat \<Rightarrow> string \<Rightarrow> nat" where
  "digits_value n [] = n"
| "digits_value n (c # cs) = digits_value (10 * n + (code c - 48)) cs"

text \<open>\<open>n, _ := strconv.Atoi(ds)\<close> on a string of digits: saturates, the range error is ignored.\<close>

definition Atoi_sat :: "string \<Rightarrow> int" where
  "Atoi_sat ds = min (int (digits_value 0 ds)) (2 ^ 63 - 1)"

text \<open>\<open>extDurRE\<close> is \<open>^(\d+)([dw])$\<close>. The products are 64-bit.\<close>

definition ParseDuration :: "(string \<Rightarrow> 'e + duration) \<Rightarrow> string \<Rightarrow> 'e + duration" where
  "ParseDuration std s =
     (if 2 \<le> length s \<and> list_all is_digit (butlast s) \<and> last s \<in> {CHR ''d'', CHR ''w''} then
        (let n = Atoi_sat (butlast s)
         in if last s = CHR ''d'' then Inr (wrap64 (wrap64 (n * 24) * hour))
            else Inr (wrap64 (wrap64 (wrap64 (n * 7) * 24) * hour)))
      else std s)"

section \<open>Defaults\<close>

definition defaults :: Config where
  "defaults = \<lparr>
     Service = \<lparr>DisplayName = ''Group Chat - send /join'', IdentityPath = ''~/.fwdsvc/identity'', IdentityB64 = [],
       StatePath = ''~/.fwdsvc/state.json'', HistoryPath = ''~/.fwdsvc/history.json'', LogPath = [],
       PruneAfter = 4 * 7 * 24 * hour, PruneSilentAfter = 6 * 7 * 24 * hour, PruneInterval = 1 * hour,
       AnnounceInterval = 10 * minute, MaxInboundChars = 500, MaxMembers = 0, ForwardAttachments = True,
       MaxAttachmentBytes = 1000 * 1024, IDCacheTTL = 24 * hour, IDCacheMax = 10000,
       ForwardedFields = [6, 48, 49, 64, 65, 66]\<rparr>,
     Interfaces = [], Replay = \<lparr>ReplayCount = 100, ReplayMaxAge = 7 * 24 * hour\<rparr>, Admins = [], Mods = []\<rparr>"

section \<open>Paths\<close>

fun split_slash :: "string \<Rightarrow> string \<Rightarrow> string list" where
  "split_slash cur [] = [cur]"
| "split_slash cur (c # cs) = (if c = CHR ''/'' then cur # split_slash [] cs else split_slash (cur @ [c]) cs)"

text \<open>\<open>filepath.Clean\<close> on Unix, element by element; the stack is kept in reverse.\<close>

fun clean_elems :: "bool \<Rightarrow> string list \<Rightarrow> string list \<Rightarrow> string list" where
  "clean_elems rooted st [] = rev st"
| "clean_elems rooted st (e # es) =
     (if e = [] \<or> e = ''.'' then clean_elems rooted st es
      else if e = ''..'' then
        (case st of
           [] \<Rightarrow> clean_elems rooted (if rooted then [] else [e]) es
         | t # ts \<Rightarrow> if t = ''..'' then clean_elems rooted (e # st) es else clean_elems rooted ts es)
      else clean_elems rooted (e # st) es)"

definition Clean :: "string \<Rightarrow> string" where
  "Clean p =
     (let rooted = HasPrefix p ''/'';
          out = (if rooted then ''/'' else []) @ Join (clean_elems rooted [] (split_slash [] p)) ''/''
      in if out = [] then ''.'' else out)"

text \<open>\<open>home\<close> is the result of \<open>os.UserHomeDir\<close>, a non-empty path. \<open>filepath.Join\<close> skips empty
  elements.\<close>

definition ExpandPath :: "string + string \<Rightarrow> string \<Rightarrow> string + string" where
  "ExpandPath home p =
     (if p = [] then Inr p
      else if HasPrefix p ''~'' then
        (case home of
           Inl e \<Rightarrow> Inl e
         | Inr h \<Rightarrow> Inr (Clean (Clean (if tl p = [] then h else h @ ''/'' @ tl p))))
      else Inr (Clean p))"

section \<open>Validation\<close>

fun normalizeHashList_loop :: "string list \<Rightarrow> string list \<Rightarrow> string list" where
  "normalizeHashList_loop out [] = out"
| "normalizeHashList_loop out (h # hs) =
     (let h' = ToLower (TrimSpace h) in
      if h' = [] then normalizeHashList_loop out hs
      else if h' \<in> set out then normalizeHashList_loop out hs
      else normalizeHashList_loop (out @ [h']) hs)"

definition normalizeHashList :: "string list \<Rightarrow> string list" where
  "normalizeHashList hs = normalizeHashList_loop [] hs"

fun validateHashes :: "string \<Rightarrow> string list \<Rightarrow> config_error option" where
  "validateHashes field [] = None"
| "validateHashes field (h # hs) =
     (case hex_decode h of
        None \<Rightarrow> Some (BadHex field h)
      | Some raw \<Rightarrow> if length raw \<noteq> 16 then Some (HashLen field h (length raw)) else validateHashes field hs)"

fun check_fields :: "nat \<Rightarrow> int list \<Rightarrow> config_error option" where
  "check_fields i [] = None"
| "check_fields i (k # ks) = (if k < 0 then Some (NegativeFieldKey i) else check_fields (Suc i) ks)"

fun check_interfaces :: "nat \<Rightarrow> InterfaceConfig list \<Rightarrow> config_error option" where
  "check_interfaces i [] = None"
| "check_interfaces i (f # fs) =
     (if IfType f \<noteq> ''tcp_client'' then Some (UnsupportedInterface i (IfType f))
      else if TrimSpace (IfAddr f) = [] then Some (MissingAddr i)
      else check_interfaces (Suc i) fs)"

text \<open>The first of a list of conditions that holds decides the error.\<close>

fun first_error :: "(bool \<times> 'e) list \<Rightarrow> 'e option" where
  "first_error [] = None"
| "first_error ((b, e) # cs) = (if b then Some e else first_error cs)"

definition check_identity :: "(string \<Rightarrow> bytes option) \<Rightarrow> ServiceConfig \<Rightarrow> config_error + ServiceConfig" where
  "check_identity b64 s =
     (let t = TrimSpace (IdentityB64 s) in
      if t = [] then Inr s
      else case b64 t of
        None \<Rightarrow> Inl BadBase64
      | Some raw \<Rightarrow> if length raw \<noteq> 64 then Inl (IdentityLen (length raw)) else Inr (s\<lparr>IdentityB64 := t\<rparr>))"

definition expand_paths :: "string + string \<Rightarrow> ServiceConfig \<Rightarrow> config_error + ServiceConfig" where
  "expand_paths home s =
     (case ExpandPath home (IdentityPath s) of Inl e \<Rightarrow> Inl (PathError e) | Inr ip \<Rightarrow>
      case ExpandPath home (StatePath s) of Inl e \<Rightarrow> Inl (PathError e) | Inr sp \<Rightarrow>
      case ExpandPath home (HistoryPath s) of Inl e \<Rightarrow> Inl (PathError e) | Inr hp \<Rightarrow>
      case ExpandPath home (LogPath s) of Inl e \<Rightarrow> Inl (PathError e) | Inr lp \<Rightarrow>
        Inr (s\<lparr>IdentityPath := ip, StatePath := sp, HistoryPath := hp, LogPath := lp\<rparr>))"

definition service_checks :: "ServiceConfig \<Rightarrow> (bool \<times> config_error) list" where
  "service_checks s =
     [(TrimSpace (DisplayName s) = [], EmptyDisplayName),
      (PruneInterval s \<le> 0, NotPositive ''service.prune_interval''),
      (PruneAfter s \<le> 0, NotPositive ''service.prune_after''),
      (PruneSilentAfter s < 0, Negative ''service.prune_silent_after''),
      (AnnounceInterval s \<le> 0, NotPositive ''service.announce_interval''),
      (MaxInboundChars s < 0, Negative ''service.max_inbound_chars''),
      (MaxMembers s < 0, Negative ''service.max_members''),
      (MaxAttachmentBytes s < 0, Negative ''service.max_attachment_bytes''),
      (IDCacheTTL s < 0, Negative ''service.id_cache_ttl''),
      (IDCacheMax s < 0, Negative ''service.id_cache_max'')]"

definition normalize :: "string + string \<Rightarrow> (string \<Rightarrow> bytes option) \<Rightarrow> Config \<Rightarrow> config_error + Config" where
  "normalize home b64 c =
     (case expand_paths home (Service c) of Inl e \<Rightarrow> Inl e | Inr s \<Rightarrow>
      case first_error (service_checks s) of Some e \<Rightarrow> Inl e | None \<Rightarrow>
      case check_fields 0 (ForwardedFields s) of Some e \<Rightarrow> Inl e | None \<Rightarrow>
      case check_identity b64 s of Inl e \<Rightarrow> Inl e | Inr s' \<Rightarrow>
      case check_interfaces 0 (Interfaces c) of Some e \<Rightarrow> Inl e | None \<Rightarrow>
      if ReplayCount (Replay c) < 0 then Inl (Negative ''replay.count'')
      else if ReplayMaxAge (Replay c) < 0 then Inl (Negative ''replay.max_age'')
      else
        (let admins = normalizeHashList (Admins c); mods = normalizeHashList (Mods c) in
         case validateHashes ''admins'' admins of Some e \<Rightarrow> Inl e | None \<Rightarrow>
         case validateHashes ''mods'' mods of Some e \<Rightarrow> Inl e | None \<Rightarrow>
           Inr (c\<lparr>Service := s', Admins := admins, Mods := mods\<rparr>)))"

text \<open>\<open>Load\<close>: \<open>decode\<close> is \<open>toml.DecodeFile\<close> over the defaults.\<close>

definition Load_config ::
    "(string \<Rightarrow> Config \<Rightarrow> string + Config) \<Rightarrow> string + string \<Rightarrow> (string \<Rightarrow> bytes option) \<Rightarrow> string \<Rightarrow> (string + config_error) + Config" where
  "Load_config decode home b64 path =
     (case ExpandPath home path of Inl e \<Rightarrow> Inl (Inl e) | Inr p \<Rightarrow>
      case decode p defaults of Inl e \<Rightarrow> Inl (Inl e) | Inr c \<Rightarrow>
      case normalize home b64 c of Inl e \<Rightarrow> Inl (Inr e) | Inr c' \<Rightarrow> Inr c')"

section \<open>Roles\<close>

fun contains :: "string list \<Rightarrow> string \<Rightarrow> bool" where
  "contains [] needle = False"
| "contains (h # hs) needle = (if h = needle then True else contains hs needle)"

definition IsAdmin :: "Config \<Rightarrow> string \<Rightarrow> bool" where
  "IsAdmin c hashHex = contains (Admins c) (ToLower hashHex)"

definition IsMod :: "Config \<Rightarrow> string \<Rightarrow> bool" where
  "IsMod c hashHex = contains (Mods c) (ToLower hashHex)"

section \<open>What validation guarantees\<close>

lemma contains_iff [simp]: "contains xs x \<longleftrightarrow> x \<in> set xs"
  by (induction xs) auto

lemma normalizeHashList_loop_set:
  "set (normalizeHashList_loop out hs) = set out \<union> ((\<lambda>h. ToLower (TrimSpace h)) ` set hs - {[]})"
  by (induction hs arbitrary: out) (auto simp: Let_def)

lemma normalizeHashList_loop_distinct: "distinct out \<Longrightarrow> distinct (normalizeHashList_loop out hs)"
  by (induction hs arbitrary: out) (auto simp: Let_def)

lemma normalizeHashList_set: "set (normalizeHashList hs) = (\<lambda>h. ToLower (TrimSpace h)) ` set hs - {[]}"
  by (simp add: normalizeHashList_def normalizeHashList_loop_set)

lemma normalizeHashList_distinct: "distinct (normalizeHashList hs)"
  by (simp add: normalizeHashList_def normalizeHashList_loop_distinct)

lemma validateHashes_None:
  "validateHashes f hs = None \<longleftrightarrow> (\<forall>h \<in> set hs. \<exists>raw. hex_decode h = Some raw \<and> length raw = 16)"
  by (induction hs) (auto split: option.splits)

lemma validateHashes_normalized:
  assumes "validateHashes f (normalizeHashList hs) = None" and "h \<in> set (normalizeHashList hs)"
  shows "length h = 32 \<and> (\<forall>x \<in> set h. hex_char x)"
proof -
  from assms obtain raw where raw: "hex_decode h = Some raw" "length raw = 16"
    by (auto simp: validateHashes_None)
  from assms(2) obtain g where "h = ToLower (TrimSpace g)" by (auto simp: normalizeHashList_set)
  then have "\<forall>x \<in> set h. \<not> (65 \<le> code x \<and> code x \<le> 90)" using ToLower_no_upper by blast
  then show ?thesis using hex_decode_lower_chars [OF raw(1)] length_hex_decode [OF raw(1)] raw(2) by simp
qed

lemma check_fields_None: "check_fields i ks = None \<longleftrightarrow> (\<forall>k \<in> set ks. 0 \<le> k)"
  by (induction ks arbitrary: i) auto

lemma check_interfaces_None:
  "check_interfaces i fs = None \<longleftrightarrow> (\<forall>f \<in> set fs. IfType f = ''tcp_client'' \<and> TrimSpace (IfAddr f) \<noteq> [])"
  by (induction fs arbitrary: i) auto

lemma first_error_None: "first_error cs = None \<longleftrightarrow> (\<forall>(b, e) \<in> set cs. \<not> b)"
  by (induction cs rule: first_error.induct) auto

text \<open>The bounds the rest of the service relies on.\<close>

definition service_ok :: "ServiceConfig \<Rightarrow> bool" where
  "service_ok s \<longleftrightarrow> TrimSpace (DisplayName s) \<noteq> [] \<and> 0 < PruneInterval s \<and> 0 < PruneAfter s \<and> 0 \<le> PruneSilentAfter s
     \<and> 0 < AnnounceInterval s \<and> 0 \<le> MaxInboundChars s \<and> 0 \<le> MaxMembers s \<and> 0 \<le> MaxAttachmentBytes s
     \<and> 0 \<le> IDCacheTTL s \<and> 0 \<le> IDCacheMax s \<and> (\<forall>k \<in> set (ForwardedFields s). 0 \<le> k)"

lemma service_ok_checks:
  "service_ok s \<longleftrightarrow> first_error (service_checks s) = None \<and> check_fields 0 (ForwardedFields s) = None"
  by (simp add: service_ok_def service_checks_def check_fields_None not_le not_less)

lemma check_identity_ok: "check_identity b64 s = Inr s' \<Longrightarrow> service_ok s' = service_ok s"
  by (auto simp: check_identity_def service_ok_def Let_def split: if_splits option.splits)

lemma normalize_Inr:
  assumes "normalize home b64 c = Inr c'"
  obtains s' where "service_ok s'" and "check_interfaces 0 (Interfaces c) = None"
    and "0 \<le> ReplayCount (Replay c)" and "0 \<le> ReplayMaxAge (Replay c)"
    and "validateHashes ''admins'' (normalizeHashList (Admins c)) = None"
    and "validateHashes ''mods'' (normalizeHashList (Mods c)) = None"
    and "c' = c\<lparr>Service := s', Admins := normalizeHashList (Admins c), Mods := normalizeHashList (Mods c)\<rparr>"
  using assms check_identity_ok
  by (fastforce simp: normalize_def Let_def service_ok_checks split: sum.splits option.splits if_splits)

text \<open>C40. A configuration that passes validation: the role lists hold distinct 32-digit lower-case hex
  hashes, every limit and period is in range, every interface is a TCP client with an address.\<close>

theorem normalize_sound:
  assumes "normalize home b64 c = Inr c'"
  shows "(\<forall>h \<in> set (Admins c') \<union> set (Mods c'). length h = 32 \<and> (\<forall>x \<in> set h. hex_char x))
    \<and> distinct (Admins c') \<and> distinct (Mods c') \<and> service_ok (Service c')
    \<and> 0 \<le> ReplayCount (Replay c') \<and> 0 \<le> ReplayMaxAge (Replay c')
    \<and> (\<forall>f \<in> set (Interfaces c'). IfType f = ''tcp_client'' \<and> TrimSpace (IfAddr f) \<noteq> [])
    \<and> (\<forall>h. IsAdmin c' h \<longleftrightarrow> ToLower h \<noteq> [] \<and> (\<exists>a \<in> set (Admins c). ToLower (TrimSpace a) = ToLower h))"
proof -
  from assms obtain s' where n: "service_ok s'" "check_interfaces 0 (Interfaces c) = None"
    "0 \<le> ReplayCount (Replay c)" "0 \<le> ReplayMaxAge (Replay c)"
    and v: "validateHashes ''admins'' (normalizeHashList (Admins c)) = None"
    "validateHashes ''mods'' (normalizeHashList (Mods c)) = None"
    and c': "c' = c\<lparr>Service := s', Admins := normalizeHashList (Admins c), Mods := normalizeHashList (Mods c)\<rparr>"
    by (rule normalize_Inr)
  have "IsAdmin c' h \<longleftrightarrow> ToLower h \<noteq> [] \<and> (\<exists>a \<in> set (Admins c). ToLower (TrimSpace a) = ToLower h)" for h
    by (auto simp: c' IsAdmin_def normalizeHashList_set image_iff) metis
  with n validateHashes_normalized [OF v(1)] validateHashes_normalized [OF v(2)] show ?thesis
    by (simp add: c' normalizeHashList_distinct check_interfaces_None ball_Un)
qed

definition demo_config :: Config where
  "demo_config = defaults\<lparr>Admins := ['' 00112233445566778899AABBCCDDEEFF'']\<rparr>"

lemmas config_eval = normalize_def expand_paths_def ExpandPath_def Clean_def service_checks_def check_identity_def
  normalizeHashList_def defaults_def demo_config_def Let_def

theorem normalize_sound_witness:
  "\<exists>c'. normalize (Inr ''/root'') (\<lambda>_. None) demo_config = Inr c' \<and> distinct (Admins c') \<and> service_ok (Service c')
    \<and> IsAdmin c' ''00112233445566778899aabbccddeeff''"
proof -
  have "\<exists>c'. normalize (Inr ''/root'') (\<lambda>_. None) demo_config = Inr c'"
    by (simp add: config_eval go_eval)
  then obtain c' where c': "normalize (Inr ''/root'') (\<lambda>_. None) demo_config = Inr c'" by blast
  have "\<exists>a \<in> set (Admins demo_config). ToLower (TrimSpace a) = ToLower ''00112233445566778899aabbccddeeff''"
    and "ToLower ''00112233445566778899aabbccddeeff'' \<noteq> []" by (simp_all add: demo_config_def go_eval)
  with normalize_sound [OF c'] c' show ?thesis by blast
qed

text \<open>A \<open>d\<close> or \<open>w\<close> duration that fits into 63 bits is parsed to its exact number of nanoseconds.\<close>

theorem ParseDuration_exact:
  assumes "ds \<noteq> []" and "list_all is_digit ds" and "u = CHR ''d'' \<or> u = CHR ''w''"
    and "int (digits_value 0 ds) * (if u = CHR ''d'' then 24 * hour else 7 * 24 * hour) < 2 ^ 63"
  shows "ParseDuration std (ds @ [u]) = Inr (int (digits_value 0 ds) * (if u = CHR ''d'' then 24 * hour else 7 * 24 * hour))"
proof -
  define n where "n = int (digits_value 0 ds)"
  have "0 \<le> n" "n * 24 * hour < 2 ^ 63" "u = CHR ''w'' \<longrightarrow> n * 7 * 24 * hour < 2 ^ 63"
    using assms(3,4) by (auto simp: n_def split: if_splits)
  moreover from this have "Atoi_sat ds = n" by (auto simp: Atoi_sat_def n_def)
  moreover have "2 \<le> length (ds @ [u])" using assms(1) by (cases ds) auto
  ultimately show ?thesis
    using assms(2,3) unfolding n_def [symmetric]
    by (auto simp: ParseDuration_def wrap64_id)
qed

theorem ParseDuration_exact_witness:
  "ParseDuration (\<lambda>s. Inl s) ''4w'' = Inr (4 * (7 * 24 * hour))"
  using ParseDuration_exact [of "''4''" "CHR ''w''" "\<lambda>s. Inl s"] by (simp add: is_digit_def)

text \<open>The multiplication is not checked: 31000 weeks wrap to a small positive duration, which validation
  accepts.\<close>

lemma ParseDuration_overflow: "ParseDuration std ''31000w'' = Inr 302055926290448384"
  by (simp add: ParseDuration_def is_digit_def Atoi_sat_def wrap64_def)

end
