(* ===== verification/Commands.thy ===== *)
theory Commands
  imports Roster Config
begin

text \<open>
  The slash commands, \<open>internal/commands/parser.go\<close> and \<open>handlers.go\<close>: the parser and one function
  per handler. The dispatcher's hooks are fields; a handler returns the new roster, the reply and
  the hooks it called, in order. \<open>time.Now()\<close> is an argument. A dispatch runs against one roster
  state: calls of other goroutines between its roster calls are not modelled.
\<close>

section \<open>Parsing\<close>

definition IsCommand :: "string \<Rightarrow> bool" where
  "IsCommand content = HasPrefix (TrimLeft content [CHR '' '', CHR 0x09]) ''/''"

record Parsed =
  Name :: string
  Args :: "string list"
  Raw :: string

definition Parse :: "string \<Rightarrow> Parsed" where
  "Parse content =
     (let trimmed = TrimSpace content in
      if \<not> HasPrefix trimmed ''/'' then \<lparr>Name = [], Args = [], Raw = content\<rparr>
      else (case Fields (drop 1 trimmed) of
          [] \<Rightarrow> \<lparr>Name = [], Args = [], Raw = content\<rparr>
        | f # fs \<Rightarrow> \<lparr>Name = ToLower f, Args = fs, Raw = content\<rparr>))"

section \<open>Formatting\<close>

abbreviation nl :: string where "nl \<equiv> [CHR 0x0A]"
abbreviation emdash :: string where "emdash \<equiv> [CHR 0xE2, CHR 0x80, CHR 0x94]"

fun hex_pad :: "nat \<Rightarrow> nat \<Rightarrow> string" where
  "hex_pad 0 n = []"
| "hex_pad (Suc w) n = hex_pad w (n div 16) @ [hex_digit (n mod 16)]"

text \<open>\<open>strconv.Quote\<close>, the verb \<open>%q\<close>. The table behind \<open>unicode.IsPrint\<close> is the argument \<open>printable\<close>
  for runes beyond ASCII.\<close>

definition quote_rune :: "(nat \<Rightarrow> bool) \<Rightarrow> nat \<times> string \<Rightarrow> string" where
  "quote_rune printable p =
     (let (r, bs) = p; e = CHR 0x5C in
      if r = RuneError \<and> length bs = 1 then [e, CHR ''x''] @ hex_pad 2 (code (hd bs))
      else if r = 34 \<or> r = 92 then [e, chr r]
      else if 32 \<le> r \<and> r < 127 \<or> 128 \<le> r \<and> printable r then bs
      else if r = 7 then [e, CHR ''a''] else if r = 8 then [e, CHR ''b''] else if r = 12 then [e, CHR ''f'']
      else if r = 10 then [e, CHR ''n''] else if r = 13 then [e, CHR ''r''] else if r = 9 then [e, CHR ''t'']
      else if r = 11 then [e, CHR ''v'']
      else if r < 32 \<or> r = 127 then [e, CHR ''x''] @ hex_pad 2 r
      else if r < 65536 then [e, CHR ''u''] @ hex_pad 4 r
      else [e, CHR ''U''] @ hex_pad 8 r)"

definition Quote :: "(nat \<Rightarrow> bool) \<Rightarrow> string \<Rightarrow> string" where
  "Quote printable s = [CHR 0x22] @ concat (map (quote_rune printable) (rune_chunks s)) @ [CHR 0x22]"

text \<open>\<open>Duration.Round(time.Second)\<close> and \<open>Duration.String\<close>.\<close>

definition Round_second :: "duration \<Rightarrow> duration" where
  "Round_second d =
     (let a = \<bar>d\<bar>; r = a mod second in
      if 2 * r < second then (if d < 0 then d + r else d - r)
      else if d < 0 then (let d1 = wrap64 (d - second + r) in if d1 < d then d1 else - (2 ^ 63))
      else (let d1 = wrap64 (d + second - r) in if d1 > d then d1 else 2 ^ 63 - 1))"

fun frac_digits :: "nat \<Rightarrow> nat \<Rightarrow> string" where
  "frac_digits 0 n = []"
| "frac_digits (Suc w) n = frac_digits w (n div 10) @ [chr (48 + n mod 10)]"

definition fmtFrac :: "nat \<Rightarrow> nat \<Rightarrow> string" where
  "fmtFrac w n = (let ds = TrimRight (frac_digits w n) ''0'' in if ds = [] then [] else ''.'' @ ds)"

definition Duration_String :: "duration \<Rightarrow> string" where
  "Duration_String d =
     (let u = nat \<bar>d\<bar>;
          sub = (\<lambda>w unit. nat_str (u div 10 ^ w) @ fmtFrac w (u mod 10 ^ w) @ unit);
          s = u div 1000000000;
          secs = nat_str (s mod 60) @ fmtFrac 9 (u mod 1000000000) @ ''s'';
          body = (if u = 0 then ''0s''
                  else if u < 1000 then nat_str u @ ''ns''
                  else if u < 1000000 then sub 3 [CHR 0xC2, CHR 0xB5, CHR ''s'']
                  else if u < 1000000000 then sub 6 ''ms''
                  else if s < 60 then secs
                  else if s < 3600 then nat_str (s div 60) @ ''m'' @ secs
                  else nat_str (s div 3600) @ ''h'' @ nat_str (s div 60 mod 60) @ ''m'' @ secs)
      in (if d < 0 then ''-'' else []) @ body)"

section \<open>Callers and roles\<close>

datatype Role = RoleUser | RoleMod | RoleAdmin

fun role_rank :: "Role \<Rightarrow> nat" where
  "role_rank RoleUser = 0"
| "role_rank RoleMod = 1"
| "role_rank RoleAdmin = 2"

instantiation Role :: linorder
begin

definition less_eq_Role :: "Role \<Rightarrow> Role \<Rightarrow> bool" where
  "less_eq_Role a b \<longleftrightarrow> role_rank a \<le> role_rank b"

definition less_Role :: "Role \<Rightarrow> Role \<Rightarrow> bool" where
  "less_Role a b \<longleftrightarrow> role_rank a < role_rank b"

instance
proof
  fix a b c :: Role
  show "a \<le> b \<Longrightarrow> b \<le> a \<Longrightarrow> a = b" by (cases a; cases b) (simp_all add: less_eq_Role_def)
qed (auto simp: less_eq_Role_def less_Role_def)

end

definition atLeastMod :: "Role \<Rightarrow> bool" where
  "atLeastMod r \<longleftrightarrow> r = RoleMod \<or> r = RoleAdmin"

record Caller =
  c_hash :: string
  c_bytes :: "bytes option"
  c_role :: Role
  c_member :: bool
  c_paused :: bool
  c_textonly :: bool

record PathInfo =
  Known :: bool
  PathSeen :: time
  Hops :: int
  NextHopHex :: string
  LinkActive :: bool

text \<open>The dispatcher: a hook that is nil is \<open>None\<close> (or \<open>False\<close>). \<open>AnnounceHook\<close> holds the result of
  the call. \<open>printable\<close> is the table of \<open>%q\<close>.\<close>

record Dispatcher =
  Cfg :: Config
  AnnounceHook :: "string option option"
  PathLookup :: "(string \<Rightarrow> PathInfo) option"
  OnJoin :: bool
  LookupAnnouncedName :: "(bytes \<Rightarrow> string) option"
  MaxReplyContentBytes :: int
  printable :: "nat \<Rightarrow> bool"

datatype hook_call = AnnounceCall | OnJoinCall string

type_synonym result = "Roster \<times> string \<times> hook_call list"

definition parseRole :: "string \<Rightarrow> Role" where
  "parseRole s = (if s = ''admin'' then RoleAdmin else if s = ''mod'' then RoleMod else RoleUser)"

fun roleName :: "Role \<Rightarrow> string" where
  "roleName RoleAdmin = ''admin''"
| "roleName RoleMod = ''mod''"
| "roleName RoleUser = ''user''"

definition configRole :: "Config \<Rightarrow> string \<Rightarrow> Role" where
  "configRole c hashHex = (if IsAdmin c hashHex then RoleAdmin else if IsMod c hashHex then RoleMod else RoleUser)"

definition hexNibble :: "char \<Rightarrow> int" where
  "hexNibble c =
     (if 48 \<le> code c \<and> code c \<le> 57 then int (code c) - 48
      else if 97 \<le> code c \<and> code c \<le> 102 then int (code c) - 97 + 10
      else if 65 \<le> code c \<and> code c \<le> 70 then int (code c) - 65 + 10
      else - 1)"

fun mustHexBytes_loop :: "string \<Rightarrow> bytes option" where
  "mustHexBytes_loop (a # b # cs) =
     (let hi = hexNibble a; lo = hexNibble b in
      if hi < 0 \<or> lo < 0 then None
      else map_option (Cons (word_of_int (push_bit 4 hi OR lo))) (mustHexBytes_loop cs))"
| "mustHexBytes_loop _ = Some []"

definition mustHexBytes :: "string \<Rightarrow> bytes option" where
  "mustHexBytes h = (if length h \<noteq> 32 then None else mustHexBytes_loop h)"

definition deriveCaller :: "Dispatcher \<Rightarrow> Roster \<Rightarrow> string \<Rightarrow> Caller" where
  "deriveCaller d r senderHash =
     (let sh = ToLower senderHash;
          hb = mustHexBytes sh;
          role = configRole (Cfg d) sh;
          member = (case hb of None \<Rightarrow> False | Some b \<Rightarrow> Has r b);
          c = \<lparr>c_hash = sh, c_bytes = hb, c_role = role, c_member = member, c_paused = False, c_textonly = False\<rparr>
      in if \<not> member then c
         else (case Get r sh of
             None \<Rightarrow> c
           | Some u \<Rightarrow>
               (let rr = parseRole (Roster.Role u) in
                c\<lparr>c_paused := Paused u, c_textonly := TextOnly u, c_role := (if rr > role then rr else role)\<rparr>)))"

section \<open>Replies without effects\<close>

definition Version :: string where "Version = ''1.11.0''"
definition RepoURL :: string where "RepoURL = ''https://github.com/thatSFguy/reticulum-group-chat''"

definition aboutText :: string where
  "aboutText = ''fwdsvc v'' @ Version @ nl @ ''Source: '' @ RepoURL"

definition helpText :: "Caller \<Rightarrow> string" where
  "helpText c =
     ''Commands:'' @ nl @ ''/?, /help'' @ nl @ ''/about - version + repo'' @ nl @ ''/users /mods /admin - lists'' @ nl
     @ (if \<not> c_member c then ''/join - join the chat'' @ nl
        else ''/nick NAME - rename self'' @ nl @ ''/leave - leave the chat'' @ nl
             @ ''/pause /resume - mute/unmute'' @ nl @ ''/textonly /showall - skip media'' @ nl)
     @ (if atLeastMod (c_role c) then
          ''/nick USER NAME - mod'' @ nl @ ''/kick /ban /unban /path USER - mod'' @ nl @ ''/announce - mod'' @ nl
          @ (if c_role c = RoleAdmin then ''/usermode ROLE USER - admin'' @ nl else [])
          @ ''USER = nick or hex (>=4)''
        else if c_member c then ''USER = nick or hex (>=4)'' else [])"

definition more_footer :: "nat \<Rightarrow> string" where
  "more_footer n = nl @ ''  ...and '' @ nat_str n @ '' more (see operator log)''"

text \<open>The loop of \<open>fitList\<close>: \<open>b\<close> is the builder; the second result is whether every line was kept.\<close>

fun fit_loop :: "int \<Rightarrow> string \<Rightarrow> string list \<Rightarrow> string \<times> bool" where
  "fit_loop cap b [] = (b, True)"
| "fit_loop cap b (line # rest) =
     (let used = int (length b); need = 1 + int (length line); left = length rest in
      if used + need + int (length (more_footer left)) > cap \<and> left > 0
        then (b @ more_footer (left + 1), False)
      else if used + need > cap then (b @ more_footer (left + 1), False)
      else fit_loop cap (b @ nl @ line) rest)"

definition fitList :: "int \<Rightarrow> string \<Rightarrow> string list \<Rightarrow> string" where
  "fitList cap header ls =
     (let full = (if ls \<noteq> [] then header @ nl @ Join ls nl else header) in
      if cap \<le> 0 \<or> int (length full) \<le> cap then full
      else (let (b, all_kept) = fit_loop cap header ls in if all_kept then full else b))"

definition user_line :: "User \<Rightarrow> string" where
  "user_line u =
     (let nick = (if Nickname u = [] then ''(no nick)'' else Nickname u);
          mark = (if Paused u then '' [paused]'' else [])
      in ''  '' @ nick @ '' '' @ emdash @ '' '' @ take 8 (Hash u) @ mark)"

definition listUsers :: "Dispatcher \<Rightarrow> Roster \<Rightarrow> string" where
  "listUsers d r =
     (let us = List_users r in
      if us = [] then ''No users.''
      else fitList (MaxReplyContentBytes d) (''Users ('' @ nat_str (length us) @ ''):'') (map user_line us))"

definition titleCase :: "string \<Rightarrow> string" where
  "titleCase s = (case s of [] \<Rightarrow> [] | c # cs \<Rightarrow> (if 97 \<le> code c \<and> code c \<le> 122 then chr (code c - 32) else c) # cs)"

definition config_line :: "Roster \<Rightarrow> string \<Rightarrow> string" where
  "config_line r h =
     (let nick = (case Get r h of None \<Rightarrow> [] | Some u \<Rightarrow> Nickname u) in
      if nick \<noteq> [] then ''  '' @ nick @ '' '' @ emdash @ '' '' @ take 8 h else ''  '' @ take 8 h)"

definition listConfigList :: "Dispatcher \<Rightarrow> Roster \<Rightarrow> string \<Rightarrow> string list \<Rightarrow> string" where
  "listConfigList d r label hashes =
     (if hashes = [] then ''No '' @ label @ '' configured.''
      else (let srt = sort hashes in
            fitList (MaxReplyContentBytes d) (titleCase label @ '' ('' @ nat_str (length srt) @ ''):'')
              (map (config_line r) srt)))"

definition scrub_byte :: "char \<Rightarrow> bool" where
  "scrub_byte c \<longleftrightarrow> code c < 32 \<and> code c \<noteq> 9 \<and> code c \<noteq> 10 \<and> code c \<noteq> 13 \<or> code c = 127"

definition scrubControlBytes :: "string \<Rightarrow> string" where
  "scrubControlBytes s =
     (if list_all (\<lambda>c. \<not> scrub_byte c) s then s else map (\<lambda>c. if scrub_byte c then CHR ''?'' else c) s)"

definition shortHashes :: "string list \<Rightarrow> string list" where
  "shortHashes hs = map (\<lambda>h. if length h \<ge> 8 then take 8 h else h) hs"

text \<open>The texts of the roster's errors.\<close>

fun err_text :: "(nat \<Rightarrow> bool) \<Rightarrow> roster_error \<Rightarrow> string" where
  "err_text p (BadHashLen n) = ''identity hash must be 16 bytes (got '' @ nat_str n @ '')''"
| "err_text p (StoreError e) = e"
| "err_text p NotInRoster = ''user not in roster''"
| "err_text p (InvalidRole s) = ''invalid role '' @ Quote p s"
| "err_text p EmptyIdentifier = ''empty user identifier''"
| "err_text p (Ambiguous q ls) = Quote p q @ '' is ambiguous: '' @ Join ls '', ''"
| "err_text p (NoMatch q) = ''no user matches '' @ Quote p q"

section \<open>Nicknames\<close>

definition nick_char :: "char \<Rightarrow> bool" where
  "nick_char c \<longleftrightarrow> 65 \<le> code c \<and> code c \<le> 90 \<or> 97 \<le> code c \<and> code c \<le> 122
     \<or> 48 \<le> code c \<and> code c \<le> 57 \<or> code c = 95 \<or> code c = 45"

text \<open>\<open>nickRE\<close> is \<open>^[A-Za-z0-9_-]{1,24}$\<close>.\<close>

definition nickRE :: "string \<Rightarrow> bool" where
  "nickRE s \<longleftrightarrow> 1 \<le> length s \<and> length s \<le> 24 \<and> list_all nick_char s"

definition nick_rune :: "nat \<Rightarrow> bool" where
  "nick_rune r \<longleftrightarrow> 65 \<le> r \<and> r \<le> 90 \<or> 97 \<le> r \<and> r \<le> 122 \<or> 48 \<le> r \<and> r \<le> 57 \<or> r = 45"

fun sanitize_nick_loop :: "string \<Rightarrow> bool \<Rightarrow> nat list \<Rightarrow> string" where
  "sanitize_nick_loop b prevUnderscore [] = b"
| "sanitize_nick_loop b prevUnderscore (r # rs) =
     (let (b', p') = (if nick_rune r then (b @ [chr r], False)
                      else if \<not> prevUnderscore \<and> length b > 0 then (b @ ''_'', True)
                      else (b, prevUnderscore))
      in if length b' \<ge> 24 then b' else sanitize_nick_loop b' p' rs)"

definition SanitizeNickname :: "string \<Rightarrow> string" where
  "SanitizeNickname raw =
     (let out = Trim (sanitize_nick_loop [] False (runes raw)) ''_-''
      in if length out > 24 then take 24 out else out)"

section \<open>Handlers\<close>

definition say :: "Roster \<Rightarrow> string \<Rightarrow> result" where
  "say r m = (r, m, [])"

text \<open>The reply of a handler that ends with one roster write: the error text or the success text.\<close>

definition after_write :: "Dispatcher \<Rightarrow> Roster \<times> roster_error option \<Rightarrow> string \<Rightarrow> string \<Rightarrow> result" where
  "after_write d w failed done =
     (case w of (r, None) \<Rightarrow> say r done | (r, Some e) \<Rightarrow> say r (failed @ err_text (printable d) e))"

text \<open>The nickname a joiner gets from the announced name.\<close>

definition default_nick :: "Dispatcher \<Rightarrow> Roster \<Rightarrow> Caller \<Rightarrow> bytes \<Rightarrow> Roster" where
  "default_nick d r c hb =
     (case LookupAnnouncedName d of
        None \<Rightarrow> r
      | Some f \<Rightarrow>
          (case Get r (c_hash c) of
             None \<Rightarrow> r
           | Some existing \<Rightarrow>
               if Nickname existing = [] \<and> f hb \<noteq> [] \<and> SanitizeNickname (f hb) \<noteq> []
               then fst (SetNickname r (c_hash c) (SanitizeNickname (f hb))) else r))"

definition handleJoin :: "Dispatcher \<Rightarrow> Roster \<Rightarrow> time \<Rightarrow> Caller \<Rightarrow> result" where
  "handleJoin d r now c =
     (if c_member c then say r ''You're already in the chat. Send /pause to mute, /leave to exit.''
      else case c_bytes c of
        None \<Rightarrow> say r ''Couldn't join: malformed sender hash.''
      | Some hb \<Rightarrow>
          if IsBanned r hb then say r ''You're banned from this chat.''
          else if MaxMembers (Service (Cfg d)) > 0 \<and> int (Len r) \<ge> MaxMembers (Service (Cfg d)) then
            say r (''Sorry, the chat is full ('' @ nat_str (Len r) @ ''/'' @ int_str (MaxMembers (Service (Cfg d)))
              @ '' members). Please try again later.'')
          else (case AddOrUpdate r hb now of
              (r1, _, Some e) \<Rightarrow> say r1 (''Couldn't join: '' @ err_text (printable d) e)
            | (r1, _, None) \<Rightarrow>
                (default_nick d r1 c hb,
                 ''Joined. You'll receive forwarded messages from now on. /pause to mute, /leave to exit, /? for help.'',
                 if OnJoin d then [OnJoinCall (c_hash c)] else [])))"

definition handleLeave :: "Dispatcher \<Rightarrow> Roster \<Rightarrow> Caller \<Rightarrow> result" where
  "handleLeave d r c =
     (if \<not> c_member c then say r ''You're not in the chat.''
      else (case Remove r (c_hash c) of (r', _, e) \<Rightarrow>
        after_write d (r', e) ''Couldn't leave: '' ''Left the chat. Send /join any time to come back.''))"

definition handlePause :: "Dispatcher \<Rightarrow> Roster \<Rightarrow> Caller \<Rightarrow> result" where
  "handlePause d r c =
     (if \<not> c_member c then say r ''You're not in the chat. Send /join first.''
      else if c_paused c then say r ''You're already paused. Send /resume to come back.''
      else after_write d (SetPaused r (c_hash c) True) ''Couldn't pause: ''
        ''Paused. You won't receive forwarded messages until you /resume.'')"

definition handleResume :: "Dispatcher \<Rightarrow> Roster \<Rightarrow> Caller \<Rightarrow> result" where
  "handleResume d r c =
     (if \<not> c_member c then say r ''You're not in the chat. Send /join first.''
      else if \<not> c_paused c then say r ''You're not paused.''
      else after_write d (SetPaused r (c_hash c) False) ''Couldn't resume: ''
        ''Resumed. You'll receive forwarded messages again.'')"

definition handleTextOnly :: "Dispatcher \<Rightarrow> Roster \<Rightarrow> Caller \<Rightarrow> result" where
  "handleTextOnly d r c =
     (if \<not> c_member c then say r ''You're not in the chat. Send /join first.''
      else if c_textonly c then
        say r ''You're already on text-only. Send /showall to start receiving attachments again.''
      else after_write d (SetTextOnly r (c_hash c) True) ''Couldn't switch to text-only: ''
        ''Text-only mode on. You'll get the chat text but no image/file attachments. Send /showall to switch back.'')"

definition handleShowAll :: "Dispatcher \<Rightarrow> Roster \<Rightarrow> Caller \<Rightarrow> result" where
  "handleShowAll d r c =
     (if \<not> c_member c then say r ''You're not in the chat. Send /join first.''
      else if \<not> c_textonly c then say r ''You're already receiving everything.''
      else after_write d (SetTextOnly r (c_hash c) False) ''Couldn't switch back: ''
        ''Showing all. You'll receive image and other attachments again.'')"

abbreviation nick_rule :: string where
  "nick_rule \<equiv> ''Nickname must be 1-24 chars from [A-Za-z0-9_-] (no spaces).''"

abbreviation no_spaces :: string where
  "no_spaces \<equiv> ''Nicknames can't contain spaces. Use a single word from [A-Za-z0-9_-] (1-24 chars).''"

definition handleNick :: "Dispatcher \<Rightarrow> Roster \<Rightarrow> Caller \<Rightarrow> string list \<Rightarrow> result" where
  "handleNick d r c args =
     (case args of
        [] \<Rightarrow> say r ''Usage: /nick <newname>   (mod/admin: /nick <user> <newname>)''
      | [newNick] \<Rightarrow>
          if \<not> c_member c then say r ''Send /join first.''
          else if \<not> nickRE newNick then say r nick_rule
          else after_write d (SetNickname r (c_hash c) newNick) ''Couldn't change nickname: ''
            (''Nickname set to '' @ newNick @ ''.'')
      | [who, newNick] \<Rightarrow>
          if \<not> atLeastMod (c_role c) then say r no_spaces
          else (case Resolve r who of
              Inl e \<Rightarrow> say r (err_text (printable d) e)
            | Inr target \<Rightarrow>
                if \<not> nickRE newNick then say r nick_rule
                else after_write d (SetNickname r (Hash target) newNick) ''Couldn't change nickname: ''
                  (''Set '' @ take 8 (Hash target) @ [CHR 0x27] @ ''s nickname to '' @ newNick @ ''.''))
      | _ \<Rightarrow>
          if \<not> atLeastMod (c_role c) then say r no_spaces
          else say r ''Usage: /nick <newname>   or   /nick <user> <newname>   (no spaces in either argument)'')"

definition label_of :: "User \<Rightarrow> string" where
  "label_of u = (if Nickname u = [] then take 8 (Hash u) else Nickname u)"

definition handleUserMode :: "Dispatcher \<Rightarrow> Roster \<Rightarrow> Caller \<Rightarrow> string list \<Rightarrow> result" where
  "handleUserMode d r c args =
     (if c_role c \<noteq> RoleAdmin then say r ''Only admins can change roles.''
      else case args of
        [a0, a1] \<Rightarrow>
          (let requested = ToLower a0 in
           if requested \<noteq> ''admin'' \<and> requested \<noteq> ''mod'' \<and> requested \<noteq> ''user''
             then say r ''Role must be admin, mod, or user.''
           else case Resolve r a1 of
             Inl e \<Rightarrow> say r (err_text (printable d) e)
           | Inr target \<Rightarrow>
               (let reqRole = parseRole requested in
                if Hash target = c_hash c \<and> reqRole < RoleAdmin \<and> configRole (Cfg d) (c_hash c) < RoleAdmin
                  then say r ''You can't remove your own admin role. Ask another admin, or edit the config.''
                else
                 (let floor = configRole (Cfg d) (Hash target);
                      effective = (if floor > reqRole then floor else reqRole)
                  in after_write d (SetRole r (Hash target) (if requested = ''user'' then [] else requested))
                       ''Couldn't set role: ''
                       (if effective > reqRole then
                          label_of target @ '' is '' @ roleName floor @ '' via the config file, so their effective role stays ''
                            @ roleName effective @ ''. Edit the config to lower it.''
                        else ''Set '' @ label_of target @ [CHR 0x27] @ ''s role to '' @ roleName effective @ ''.''))))
      | _ \<Rightarrow> say r ''Usage: /usermode <admin|mod|user> <user>'')"

definition handleKick :: "Dispatcher \<Rightarrow> Roster \<Rightarrow> Role \<Rightarrow> string list \<Rightarrow> result" where
  "handleKick d r role args =
     (if \<not> atLeastMod role then say r ''Only mods or admins can kick.''
      else case args of
        [q] \<Rightarrow>
          (case Resolve r q of
             Inl e \<Rightarrow> say r (err_text (printable d) e)
           | Inr target \<Rightarrow>
               (case Remove r (Hash target) of
                  (r', _, Some e) \<Rightarrow> say r' (''Couldn't kick: '' @ err_text (printable d) e)
                | (r', removed, None) \<Rightarrow>
                    if \<not> removed then say r' (take 8 (Hash target) @ '' was not in the roster.'')
                    else say r' (''Kicked '' @ label_of target @ ''. They can rejoin with /join.'')))
      | _ \<Rightarrow> say r ''Usage: /kick <user>'')"

definition handleBan :: "Dispatcher \<Rightarrow> Roster \<Rightarrow> Role \<Rightarrow> string list \<Rightarrow> result" where
  "handleBan d r role args =
     (if \<not> atLeastMod role then say r ''Only mods or admins can ban.''
      else case args of
        [q] \<Rightarrow>
          (case Resolve r q of
             Inl e \<Rightarrow> say r (err_text (printable d) e)
           | Inr target \<Rightarrow>
               after_write d (Ban r (Hash target)) ''Couldn't ban: ''
                 (''Banned '' @ label_of target @ ''. Their messages will be dropped.''))
      | _ \<Rightarrow> say r ''Usage: /ban <user>'')"

text \<open>The first loop of \<open>handleUnban\<close>: an exact match. It returns the reply, or the roster with which the
  handler goes on.\<close>

fun unban_exact :: "Dispatcher \<Rightarrow> Roster \<Rightarrow> string \<Rightarrow> string list \<Rightarrow> result + Roster" where
  "unban_exact d r hash [] = Inr r"
| "unban_exact d r hash (h # hs) =
     (if h = hash then
        (case Unban r h of
           (r', _, Some e) \<Rightarrow> Inl (say r' (''Couldn't unban: '' @ err_text (printable d) e))
         | (r', ok, None) \<Rightarrow> if ok then Inl (say r' (''Unbanned '' @ take 8 h @ ''.'')) else unban_exact d r' hash hs)
      else unban_exact d r hash hs)"

definition unban_prefix :: "Dispatcher \<Rightarrow> Roster \<Rightarrow> string \<Rightarrow> result" where
  "unban_prefix d r hash =
     (case filter (\<lambda>h. HasPrefix h hash) (Banlist r) of
        [] \<Rightarrow> say r (hash @ '' is not banned.'')
      | [m] \<Rightarrow>
          (case Unban r m of
             (r', _, Some e) \<Rightarrow> say r' (''Couldn't unban: '' @ err_text (printable d) e)
           | (r', ok, None) \<Rightarrow> if ok then say r' (''Unbanned '' @ take 8 m @ ''.'') else say r' ''Unbanned.'')
      | ms \<Rightarrow> say r (Quote (printable d) hash @ '' matches multiple banned users: '' @ Join (shortHashes ms) '', ''))"

definition handleUnban :: "Dispatcher \<Rightarrow> Roster \<Rightarrow> Role \<Rightarrow> string list \<Rightarrow> result" where
  "handleUnban d r role args =
     (if \<not> atLeastMod role then say r ''Only mods or admins can unban.''
      else case args of
        [a] \<Rightarrow>
          (let hash = ToLower (TrimSpace a) in
           case unban_exact d r hash (Banlist r) of
             Inl res \<Rightarrow> res
           | Inr r' \<Rightarrow> unban_prefix d r' hash)
      | _ \<Rightarrow> say r ''Usage: /unban <user>'')"

definition handlePath :: "Dispatcher \<Rightarrow> Roster \<Rightarrow> time \<Rightarrow> Role \<Rightarrow> string list \<Rightarrow> result" where
  "handlePath d r now role args =
     (if \<not> atLeastMod role then say r ''Only mods or admins can /path.''
      else case args of
        [q] \<Rightarrow>
          (case PathLookup d of
             None \<Rightarrow> say r ''Path lookup not wired (server bug).''
           | Some lookup \<Rightarrow>
               (case Resolve r q of
                  Inl e \<Rightarrow> say r (err_text (printable d) e)
                | Inr target \<Rightarrow>
                    (let info = lookup (Hash target);
                         head = ''Path to '' @ (if Nickname target = [] then ''(no nick)'' else Nickname target)
                           @ '' ('' @ take 8 (Hash target) @ ''):'' @ nl
                     in say r
                       (if \<not> Known info then head @ ''  no announce cached '' @ emdash @ '' they haven't reached us''
                        else head @ ''  hops: '' @ int_str (Hops info) @ nl
                          @ ''  announce age: '' @ Duration_String (Round_second (now - PathSeen info)) @ nl
                          @ (if NextHopHex info \<noteq> [] then ''  next hop: '' @ take 8 (NextHopHex info) @ '' (multi-hop)'' @ nl
                             else ''  next hop: direct'' @ nl)
                          @ (if LinkActive info then ''  link: active'' else ''  link: none'')))))
      | _ \<Rightarrow> say r ''Usage: /path <user>'')"

definition handleAnnounce :: "Dispatcher \<Rightarrow> Roster \<Rightarrow> Role \<Rightarrow> result" where
  "handleAnnounce d r role =
     (if \<not> atLeastMod role then say r ''Only mods or admins can /announce.''
      else case AnnounceHook d of
        None \<Rightarrow> say r ''Announce hook not wired (server bug).''
      | Some (Some e) \<Rightarrow> (r, ''Announce failed: '' @ e, [AnnounceCall])
      | Some None \<Rightarrow> (r, ''OK, announced.'', [AnnounceCall]))"

definition Dispatch :: "Dispatcher \<Rightarrow> Roster \<Rightarrow> time \<Rightarrow> string \<Rightarrow> Parsed \<Rightarrow> result" where
  "Dispatch d r now senderHash p =
     (let c = deriveCaller d r senderHash; n = Name p; a = Args p in
      if n = ''?'' \<or> n = ''help'' then say r (helpText c)
      else if n = ''about'' \<or> n = ''version'' then say r aboutText
      else if n = ''users'' then say r (listUsers d r)
      else if n = ''mods'' then say r (listConfigList d r ''mods'' (Mods (Cfg d)))
      else if n = ''admin'' \<or> n = ''admins'' then say r (listConfigList d r ''admins'' (Admins (Cfg d)))
      else if n = ''join'' then handleJoin d r now c
      else if n = ''leave'' then handleLeave d r c
      else if n = ''pause'' then handlePause d r c
      else if n = ''resume'' then handleResume d r c
      else if n = ''textonly'' then handleTextOnly d r c
      else if n = ''showall'' then handleShowAll d r c
      else if n = ''nick'' then handleNick d r c a
      else if n = ''usermode'' then handleUserMode d r c a
      else if n = ''kick'' then handleKick d r (c_role c) a
      else if n = ''ban'' then handleBan d r (c_role c) a
      else if n = ''unban'' then handleUnban d r (c_role c) a
      else if n = ''announce'' then handleAnnounce d r (c_role c)
      else if n = ''path'' then handlePath d r now (c_role c) a
      else say r (''unknown command /'' @ scrubControlBytes n @ '' '' @ emdash @ '' try /?''))"

section \<open>What the pieces do\<close>

lemma hex_nibble_value: "hexNibble c = (case hex_value c of None \<Rightarrow> - 1 | Some n \<Rightarrow> int n)"
  by (auto simp: hexNibble_def hex_value_def)

lemma hex_value_lt: "hex_value c = Some n \<Longrightarrow> n < 16"
  by (auto simp: hex_value_def split: if_splits)

lemma nibbles_or: "hi < 16 \<Longrightarrow> lo < 16 \<Longrightarrow> push_bit 4 (int hi) OR int lo = int (16 * hi + lo)"
  using concat_bit_eq [of 4 "int lo" "int hi"]
  by (simp add: concat_bit_def or.commute push_bit_eq_mult take_bit_int_eq_self)

lemma mustHexBytes_loop_decode: "even (length h) \<Longrightarrow> mustHexBytes_loop h = hex_decode h"
  by (induction h rule: hex_decode.induct)
     (auto simp: hex_nibble_value nibbles_or hex_value_lt split: option.splits)

lemma mustHexBytes_decode: "mustHexBytes h = (if length h = 32 then hex_decode h else None)"
  by (simp add: mustHexBytes_def mustHexBytes_loop_decode)

lemma sanitize_nick_loop_ok:
  "length b < 24 \<Longrightarrow> list_all nick_char b \<Longrightarrow>
     length (sanitize_nick_loop b p rs) \<le> 24 \<and> list_all nick_char (sanitize_nick_loop b p rs)"
proof (induction rs arbitrary: b p)
  case (Cons r rs)
  have "nick_char (chr r)" if "nick_rune r" using that
    by (auto simp: nick_char_def nick_rune_def)
  then show ?case using Cons by (auto simp: Let_def nick_char_def [of "CHR ''_''"])
qed simp

lemma set_Trim: "set (Trim s cs) \<subseteq> set s"
  by (auto simp: Trim_def TrimRight_def TrimLeft_def dest!: set_dropWhileD)

lemma length_Trim: "length (Trim s cs) \<le> length s"
  unfolding Trim_def TrimRight_def TrimLeft_def
  by (metis length_dropWhile_le length_rev order_trans)

lemma SanitizeNickname_ok: "SanitizeNickname raw = [] \<or> nickRE (SanitizeNickname raw)"
proof -
  let ?l = "sanitize_nick_loop [] False (runes raw)"
  have l: "length ?l \<le> 24" "list_all nick_char ?l" using sanitize_nick_loop_ok [of "[]"] by auto
  with length_Trim [of ?l] set_Trim [of ?l]
  have "length (Trim ?l ''_-'') \<le> 24" "list_all nick_char (Trim ?l ''_-'')"
    by (meson order_trans, auto simp: list_all_iff)
  then show ?thesis by (cases "Trim ?l ''_-''") (auto simp: SanitizeNickname_def nickRE_def Let_def)
qed

lemma nickRE_ascii: "nickRE s \<Longrightarrow> is_ascii s"
  by (auto simp: nickRE_def is_ascii_def list_all_iff nick_char_def)

lemma after_write_fst [simp]: "fst (after_write d w f s) = fst w"
  by (cases w) (auto simp: after_write_def say_def split: option.splits)

lemma after_write_hooks [simp]: "snd (snd (after_write d w f s)) = []"
  by (cases w) (auto simp: after_write_def say_def split: option.splits)

lemma say_fst [simp]: "fst (say r m) = r"
  by (simp add: say_def)

lemma say_hooks [simp]: "snd (snd (say r m)) = []"
  by (simp add: say_def)

section \<open>The transitions of a command\<close>

text \<open>Every change a command makes to the roster, with the guards under which the dispatcher makes it.\<close>

inductive command_step :: "Dispatcher \<Rightarrow> Roster \<Rightarrow> time \<Rightarrow> Caller \<Rightarrow> Roster \<Rightarrow> bool" for d r now c where
  nothing: "command_step d r now c r"
| join: "\<lbrakk>\<not> c_member c; c_bytes c = Some hb; \<not> IsBanned r hb;
     \<not> (MaxMembers (Service (Cfg d)) > 0 \<and> int (Len r) \<ge> MaxMembers (Service (Cfg d)))\<rbrakk>
     \<Longrightarrow> command_step d r now c (fst (AddOrUpdate r hb now))"
| join_nick: "\<lbrakk>\<not> c_member c; c_bytes c = Some hb; \<not> IsBanned r hb;
     \<not> (MaxMembers (Service (Cfg d)) > 0 \<and> int (Len r) \<ge> MaxMembers (Service (Cfg d))); nickRE n\<rbrakk>
     \<Longrightarrow> command_step d r now c (fst (SetNickname (fst (AddOrUpdate r hb now)) (c_hash c) n))"
| leave: "c_member c \<Longrightarrow> command_step d r now c (fst (Remove r (c_hash c)))"
| pause: "c_member c \<Longrightarrow> command_step d r now c (fst (SetPaused r (c_hash c) v))"
| textonly: "c_member c \<Longrightarrow> command_step d r now c (fst (SetTextOnly r (c_hash c) v))"
| nick: "c_member c \<Longrightarrow> nickRE n \<Longrightarrow> command_step d r now c (fst (SetNickname r (c_hash c) n))"
| mod_nick: "\<lbrakk>atLeastMod (c_role c); Resolve r q = Inr t; nickRE n\<rbrakk>
     \<Longrightarrow> command_step d r now c (fst (SetNickname r (Hash t) n))"
| usermode: "\<lbrakk>c_role c = RoleAdmin; Resolve r q = Inr t; req \<in> {''admin'', ''mod'', ''user''};
     \<not> (Hash t = c_hash c \<and> parseRole req < RoleAdmin \<and> configRole (Cfg d) (c_hash c) < RoleAdmin)\<rbrakk>
     \<Longrightarrow> command_step d r now c (fst (SetRole r (Hash t) (if req = ''user'' then [] else req)))"
| kick: "\<lbrakk>atLeastMod (c_role c); Resolve r q = Inr t\<rbrakk> \<Longrightarrow> command_step d r now c (fst (Remove r (Hash t)))"
| ban: "\<lbrakk>atLeastMod (c_role c); Resolve r q = Inr t\<rbrakk> \<Longrightarrow> command_step d r now c (fst (Ban r (Hash t)))"
| unban: "atLeastMod (c_role c) \<Longrightarrow> command_step d r now c (fst (Unban r h))"

lemma default_nick_cases:
  "default_nick d r c hb = r \<or> (\<exists>n. nickRE n \<and> default_nick d r c hb = fst (SetNickname r (c_hash c) n))"
  using SanitizeNickname_ok by (auto simp: default_nick_def split: option.splits)

lemma handleJoin_step: "command_step d r now c (fst (handleJoin d r now c))"
proof (cases "\<exists>hb. \<not> c_member c \<and> c_bytes c = Some hb \<and> \<not> IsBanned r hb
    \<and> \<not> (MaxMembers (Service (Cfg d)) > 0 \<and> int (Len r) \<ge> MaxMembers (Service (Cfg d)))")
  case True
  then obtain hb where g: "\<not> c_member c" "c_bytes c = Some hb" "\<not> IsBanned r hb"
    "\<not> (MaxMembers (Service (Cfg d)) > 0 \<and> int (Len r) \<ge> MaxMembers (Service (Cfg d)))" by blast
  let ?r1 = "fst (AddOrUpdate r hb now)"
  have "fst (handleJoin d r now c) = ?r1 \<or> fst (handleJoin d r now c) = default_nick d ?r1 c hb"
    using g by (auto simp: handleJoin_def split: prod.splits option.splits)
  with default_nick_cases [of d ?r1 c hb] command_step.join [OF g] command_step.join_nick [OF g]
  show ?thesis by metis
next
  case False
  then have "fst (handleJoin d r now c) = r" by (auto simp: handleJoin_def split: option.splits)
  then show ?thesis by (simp add: command_step.nothing)
qed

lemma self_handlers_step:
  "command_step d r now c (fst (handleLeave d r c))"
  "command_step d r now c (fst (handlePause d r c))"
  "command_step d r now c (fst (handleResume d r c))"
  "command_step d r now c (fst (handleTextOnly d r c))"
  "command_step d r now c (fst (handleShowAll d r c))"
  by (auto simp: handleLeave_def handlePause_def handleResume_def handleTextOnly_def handleShowAll_def
      case_prod_unfold intro: command_step.intros)

lemma handleNick_step: "command_step d r now c (fst (handleNick d r c args))"
  by (auto simp: handleNick_def split: list.splits sum.splits intro: command_step.intros)

lemma handleUserMode_cases:
  "fst (handleUserMode d r c args) = r
   \<or> c_role c = RoleAdmin \<and> (\<exists>q t req. Resolve r q = Inr t \<and> req \<in> {''admin'', ''mod'', ''user''}
       \<and> \<not> (Hash t = c_hash c \<and> parseRole req < RoleAdmin \<and> configRole (Cfg d) (c_hash c) < RoleAdmin)
       \<and> fst (handleUserMode d r c args) = fst (SetRole r (Hash t) (if req = ''user'' then [] else req)))"
proof (cases "\<exists>a0 a1. args = [a0, a1] \<and> c_role c = RoleAdmin")
  case True
  then obtain a0 a1 where a: "args = [a0, a1]" "c_role c = RoleAdmin" by blast
  show ?thesis
  proof (cases "ToLower a0 \<in> {''admin'', ''mod'', ''user''} \<and> (\<exists>t. Resolve r a1 = Inr t
      \<and> \<not> (Hash t = c_hash c \<and> parseRole (ToLower a0) < RoleAdmin \<and> configRole (Cfg d) (c_hash c) < RoleAdmin))")
    case True
    then obtain t where t: "Resolve r a1 = Inr t" "ToLower a0 \<in> {''admin'', ''mod'', ''user''}"
      "\<not> (Hash t = c_hash c \<and> parseRole (ToLower a0) < RoleAdmin \<and> configRole (Cfg d) (c_hash c) < RoleAdmin)" by blast
    then have "fst (handleUserMode d r c args) = fst (SetRole r (Hash t) (if ToLower a0 = ''user'' then [] else ToLower a0))"
      using a by (auto simp: handleUserMode_def Let_def)
    with a(2) t show ?thesis by blast
  next
    case False
    then show ?thesis using a by (auto simp: handleUserMode_def Let_def split: sum.splits)
  qed
qed (auto simp: handleUserMode_def split: list.splits)

lemma handleUserMode_step: "command_step d r now c (fst (handleUserMode d r c args))"
  using handleUserMode_cases [of d r c args] command_step.usermode command_step.nothing by metis

lemma handleKick_step: "command_step d r now c (fst (handleKick d r (c_role c) args))"
  by (auto simp: handleKick_def split: list.splits sum.splits prod.splits option.splits
      intro: command_step.nothing dest!: command_step.kick [where d = d and now = now])

lemma handleBan_step: "command_step d r now c (fst (handleBan d r (c_role c) args))"
  by (auto simp: handleBan_def split: list.splits sum.splits intro: command_step.intros)

lemma Unban_absent: "fst (snd (Unban r h)) = False \<Longrightarrow> Unban r h = (r, False, None)"
  by (auto simp: Unban_def Let_def case_prod_unfold)

lemma unban_exact_step:
  "(case unban_exact d r hash hs of Inl res \<Rightarrow> \<exists>h. fst res = fst (Unban r h) | Inr r' \<Rightarrow> r' = r)"
proof (induction hs)
  case (Cons h hs)
  obtain r' ok e where u: "Unban r h = (r', ok, e)" by (cases "Unban r h")
  with Unban_absent [of r h] Cons show ?case by (auto split: option.splits) (metis fst_conv)+
qed simp

lemma unban_prefix_step: "fst (unban_prefix d r hash) = r \<or> (\<exists>h. fst (unban_prefix d r hash) = fst (Unban r h))"
  by (auto simp: unban_prefix_def split: list.splits prod.splits option.splits) (metis fst_conv)+

lemma handleUnban_step: "command_step d r now c (fst (handleUnban d r (c_role c) args))"
proof (cases "\<exists>a. args = [a] \<and> atLeastMod (c_role c)")
  case True
  then obtain a where a: "args = [a]" "atLeastMod (c_role c)" by blast
  let ?h = "ToLower (TrimSpace a)"
  have "fst (handleUnban d r (c_role c) args) = r \<or> (\<exists>h. fst (handleUnban d r (c_role c) args) = fst (Unban r h))"
    using unban_exact_step [where d = d and r = r and hash = ?h and hs = "Banlist r"] unban_prefix_step [of d r ?h] a
    by (auto simp: handleUnban_def Let_def split: sum.splits)
  then show ?thesis using command_step.unban [OF a(2)] by (metis command_step.nothing)
qed (auto simp: handleUnban_def command_step.nothing split: list.splits)

lemma Dispatch_step: "command_step d r now (deriveCaller d r s) (fst (Dispatch d r now s p))"
proof -
  have "fst (handleAnnounce d r role) = r" for role
    by (auto simp: handleAnnounce_def split: option.splits)
  moreover have "fst (handlePath d r now role a) = r" for role a
    by (auto simp: handlePath_def Let_def split: list.splits option.splits sum.splits)
  ultimately show ?thesis
    by (simp add: Dispatch_def Let_def handleJoin_step self_handlers_step handleNick_step handleUserMode_step
        handleKick_step handleBan_step handleUnban_step command_step.nothing)
qed

section \<open>Invariants of the dispatcher\<close>

text \<open>Nicknames match \<open>nickRE\<close> and roles are among the three the roster knows.\<close>

definition name_ok :: "User \<Rightarrow> bool" where
  "name_ok u \<longleftrightarrow> (Nickname u = [] \<or> nickRE (Nickname u)) \<and> Roster.Role u \<in> {[], ''mod'', ''admin''}"

definition names_ok :: "Roster \<Rightarrow> bool" where
  "names_ok r \<longleftrightarrow> (\<forall>h u. map_of (users r) h = Some u \<longrightarrow> name_ok u)"

lemma name_ok_upd [simp]:
  "name_ok (u\<lparr>Paused := v\<rparr>) = name_ok u" "name_ok (u\<lparr>TextOnly := v\<rparr>) = name_ok u"
  "name_ok (u\<lparr>LastMessageAt := t\<rparr>) = name_ok u" "name_ok (new_user h t)"
  by (simp_all add: name_ok_def new_user_def)

lemma name_ok_nick: "name_ok u \<Longrightarrow> nickRE n \<Longrightarrow> name_ok (u\<lparr>Nickname := n\<rparr>)"
  by (simp add: name_ok_def)

lemma name_ok_role: "name_ok u \<Longrightarrow> rl = [] \<or> rl = ''mod'' \<or> rl = ''admin'' \<Longrightarrow> name_ok (u\<lparr>Roster.Role := rl\<rparr>)"
  by (simp add: name_ok_def)

lemma names_ok_setters [inv_intros]:
  "names_ok r \<Longrightarrow> names_ok (fst (SetPaused r h v))"
  "names_ok r \<Longrightarrow> names_ok (fst (SetTextOnly r h v))"
  "names_ok r \<Longrightarrow> nickRE n \<Longrightarrow> names_ok (fst (SetNickname r h n))"
  "names_ok r \<Longrightarrow> names_ok (fst (SetRole r h rl))"
  unfolding names_ok_def by (auto simp: setter_effects intro: name_ok_nick name_ok_role split: if_splits)

lemma names_ok_others [inv_intros]:
  "names_ok r \<Longrightarrow> names_ok (fst (AddOrUpdate r hb now))"
  "names_ok r \<Longrightarrow> names_ok (fst (Remove r h))"
  "names_ok r \<Longrightarrow> names_ok (fst (Ban r h))"
  "names_ok r \<Longrightarrow> names_ok (fst (Unban r h))"
  unfolding names_ok_def by (auto simp: roster_simps split: if_splits option.splits)

lemma names_ok_ascii: "roster_inv r \<Longrightarrow> names_ok r \<Longrightarrow> names_ascii r"
  unfolding names_ascii_def
proof (intro ballI, clarify)
  fix h u
  assume inv: "roster_inv r" "names_ok r" and "(h, u) \<in> set (users r)"
  then have "map_of (users r) h = Some u" by (simp add: in_set_map_of roster_inv_def)
  with inv have "name_ok u" by (simp add: names_ok_def)
  then show "is_ascii (Nickname u) \<and> is_ascii (Roster.Role u)"
    using nickRE_ascii by (auto simp: is_ascii_def name_ok_def)
qed

lemma command_step_inv:
  "command_step d r now c r' \<Longrightarrow> roster_inv r \<Longrightarrow> roster_inv r'"
  by (induction rule: command_step.induct) (auto intro: inv_intros dest: Resolve_member)

lemma command_step_unbanned:
  "command_step d r now c r' \<Longrightarrow> no_banned_member r \<Longrightarrow> no_banned_member r'"
  by (induction rule: command_step.induct) (auto intro: inv_intros)

lemma command_step_names: "command_step d r now c r' \<Longrightarrow> names_ok r \<Longrightarrow> names_ok r'"
  by (induction rule: command_step.induct) (auto intro: inv_intros)

text \<open>Whatever a sender types, the command leaves the roster well-formed, keeps banned hashes out of the
  membership, and every nickname stays within \<open>nickRE\<close> and every role within the known ones.\<close>

theorem Dispatch_safe:
  assumes "roster_inv r" and "no_banned_member r" and "names_ok r"
  shows "roster_inv (fst (Dispatch d r now s (Parse content)))
    \<and> no_banned_member (fst (Dispatch d r now s (Parse content))) \<and> names_ok (fst (Dispatch d r now s (Parse content)))"
  using assms Dispatch_step command_step_inv command_step_unbanned command_step_names by blast

section \<open>Callers\<close>

lemma caller_hash [simp]: "c_hash (deriveCaller d r s) = ToLower s"
  by (simp add: deriveCaller_def Let_def split: option.splits)

lemma caller_bytes [simp]: "c_bytes (deriveCaller d r s) = mustHexBytes (ToLower s)"
  by (simp add: deriveCaller_def Let_def split: option.splits)

text \<open>A sender hash that decodes is the canonical spelling of the bytes.\<close>

lemma mustHexBytes_canonical:
  assumes "mustHexBytes (ToLower s) = Some hb"
  shows "length hb = 16 \<and> hex_encode hb = ToLower s \<and> valid_hash (ToLower s) \<and> ToLower (ToLower s) = ToLower s"
proof -
  from assms have d: "hex_decode (ToLower s) = Some hb" "length (ToLower s) = 32"
    by (simp_all add: mustHexBytes_decode split: if_splits)
  then have c: "\<forall>c \<in> set (ToLower s). hex_char c"
    using hex_decode_lower_chars ToLower_no_upper by blast
  with d have "hex_encode hb = ToLower s" by (simp add: hex_decode_Some_encode)
  moreover have "length hb = 16" using length_hex_decode [OF d(1)] d(2) by simp
  moreover have "valid_hash (ToLower s)" using c d by (simp add: valid_hash_def)
  ultimately show ?thesis by (simp add: valid_hash_lower)
qed

lemma Has_iff: "length hb = 16 \<Longrightarrow> Has r hb \<longleftrightarrow> map_of (users r) (hex_encode hb) \<noteq> None"
  by (simp add: Has_def normalizeHash_16)

lemma caller_member:
  "c_member (deriveCaller d r s) \<longleftrightarrow> mustHexBytes (ToLower s) \<noteq> None \<and> map_of (users r) (ToLower s) \<noteq> None"
proof (cases "mustHexBytes (ToLower s)")
  case None
  then show ?thesis by (simp add: deriveCaller_def Let_def)
next
  case (Some hb)
  with mustHexBytes_canonical [OF Some] show ?thesis
    by (auto simp: deriveCaller_def Let_def Has_iff split: option.splits)
qed

definition roster_role :: "Roster \<Rightarrow> string \<Rightarrow> Role" where
  "roster_role r h = (case map_of (users r) h of None \<Rightarrow> RoleUser | Some u \<Rightarrow> parseRole (Roster.Role u))"

lemma RoleUser_least [simp]: "RoleUser \<le> x"
  by (simp add: less_eq_Role_def)

text \<open>The effective role is the larger of the config's grant and the roster's.\<close>

lemma caller_role:
  "c_role (deriveCaller d r s) =
     (if mustHexBytes (ToLower s) = None then configRole (Cfg d) (ToLower s)
      else max (configRole (Cfg d) (ToLower s)) (roster_role r (ToLower s)))"
proof (cases "mustHexBytes (ToLower s)")
  case None
  then show ?thesis by (simp add: deriveCaller_def Let_def)
next
  case (Some hb)
  note c = mustHexBytes_canonical [OF Some]
  show ?thesis
  proof (cases "map_of (users r) (ToLower s)")
    case None
    with Some c show ?thesis
      by (simp add: deriveCaller_def Let_def Has_iff roster_role_def max_absorb1)
  next
    fix u
    assume "map_of (users r) (ToLower s) = Some u"
    with Some c show ?thesis
      by (simp add: deriveCaller_def Let_def Has_iff Get_def roster_role_def max_def not_less order_less_imp_le)
  qed
qed

section \<open>Privileges\<close>

lemma command_step_frame:
  assumes "command_step d r now (deriveCaller d r s) r'" and "\<not> atLeastMod (c_role (deriveCaller d r s))"
  shows "banlist r' = banlist r \<and> (\<forall>h. h \<noteq> ToLower s \<longrightarrow> map_of (users r') h = map_of (users r) h)"
proof -
  have m: "ToLower (ToLower s) = ToLower s" if "c_member (deriveCaller d r s)"
    using that mustHexBytes_canonical by (auto simp: caller_member)
  show ?thesis using assms(1)
  proof cases
    case (join hb)
    then have "hex_encode hb = ToLower s" using mustHexBytes_canonical by auto
    with join show ?thesis by (simp add: roster_simps)
  next
    case (join_nick hb n)
    then have "hex_encode hb = ToLower s" "ToLower (ToLower s) = ToLower s" using mustHexBytes_canonical by auto
    with join_nick show ?thesis by (simp add: roster_simps)
  qed (use assms(2) m in \<open>auto simp: roster_simps atLeastMod_def\<close>)
qed

lemma handler_hooks_other:
  "AnnounceCall \<notin> set (snd (snd (handleJoin d r now c)))"
  "snd (snd (handleLeave d r c)) = []" "snd (snd (handlePause d r c)) = []" "snd (snd (handleResume d r c)) = []"
  "snd (snd (handleTextOnly d r c)) = []" "snd (snd (handleShowAll d r c)) = []"
  "snd (snd (handleNick d r c a)) = []" "snd (snd (handleUserMode d r c a)) = []"
  "snd (snd (handleKick d r role a)) = []" "snd (snd (handleBan d r role a)) = []"
  "snd (snd (handlePath d r now role a)) = []"
  by (auto simp: handleJoin_def handleLeave_def handlePause_def handleResume_def handleTextOnly_def handleShowAll_def
      handleNick_def handleUserMode_def handleKick_def handleBan_def handlePath_def Let_def case_prod_unfold
      split: option.splits list.splits sum.splits)

lemma unban_exact_hooks: "unban_exact d r hash hs = Inl res \<Longrightarrow> snd (snd res) = []"
  by (induction d r hash hs rule: unban_exact.induct) (auto split: if_splits prod.splits option.splits)

lemma handleUnban_hooks: "snd (snd (handleUnban d r role a)) = []"
  by (auto simp: handleUnban_def unban_prefix_def Let_def unban_exact_hooks case_prod_unfold
      split: list.splits sum.splits option.splits)

lemma Dispatch_announce_role:
  assumes "AnnounceCall \<in> set (snd (snd (Dispatch d r now s p)))"
  shows "atLeastMod (c_role (deriveCaller d r s))"
  using assms
  by (auto simp: Dispatch_def Let_def handler_hooks_other handleUnban_hooks handleAnnounce_def split: if_splits)

text \<open>C6. A sender who is neither mod nor admin can change nothing but their own roster entry: no other member's
  entry, not the ban list, and no announce is triggered.\<close>

theorem unprivileged_frame:
  assumes "\<not> atLeastMod (c_role (deriveCaller d r s))"
  shows "banlist (fst (Dispatch d r now s p)) = banlist r
    \<and> (\<forall>h. h \<noteq> ToLower s \<longrightarrow> map_of (users (fst (Dispatch d r now s p))) h = map_of (users r) h)
    \<and> AnnounceCall \<notin> set (snd (snd (Dispatch d r now s p)))"
  using command_step_frame [OF Dispatch_step assms] Dispatch_announce_role assms by blast

lemma after_AddOrUpdate_role: "roster_role (fst (AddOrUpdate r hb now)) k = roster_role r k"
  by (auto simp: roster_role_def roster_simps new_user_def parseRole_def split: option.splits)

lemma command_step_role:
  "command_step d r now c r' \<Longrightarrow> c_role c \<noteq> RoleAdmin \<Longrightarrow> roster_role r' k \<le> roster_role r k"
proof (induction rule: command_step.induct)
  case (join hb)
  then show ?case by (simp add: after_AddOrUpdate_role)
next
  case (join_nick hb n)
  have "roster_role (fst (SetNickname x h n)) k = roster_role x k" for x h
    by (auto simp: roster_role_def roster_simps split: option.splits)
  then show ?case by (simp add: after_AddOrUpdate_role)
qed (auto simp: roster_role_def roster_simps split: option.splits)

text \<open>C7. No privilege escalation: a command from a sender who is not an admin raises nobody's effective role, the
  sender's own included.\<close>

theorem no_escalation:
  assumes "c_role (deriveCaller d r s) \<noteq> RoleAdmin"
  shows "c_role (deriveCaller d (fst (Dispatch d r now s p)) h) \<le> c_role (deriveCaller d r h)"
  using command_step_role [OF Dispatch_step assms, of now p "ToLower h"]
  by (auto simp: caller_role max.coboundedI2 intro: max.mono)

lemma Role_top [simp]: "x \<le> RoleAdmin"
  by (cases x) (simp_all add: less_eq_Role_def)

text \<open>A role write that does not target the sender, or grants admin, leaves an admin an admin.\<close>

lemma SetRole_keeps_admin:
  assumes "c_role (deriveCaller d r s) = RoleAdmin" and "ToLower h \<noteq> ToLower s \<or> rl = ''admin''"
  shows "c_role (deriveCaller d (fst (SetRole r h rl)) s) = RoleAdmin"
proof -
  have "roster_role r (ToLower s) \<le> roster_role (fst (SetRole r h rl)) (ToLower s)"
    using assms(2) by (auto simp: roster_role_def roster_simps parseRole_def split: option.splits)
  then have "c_role (deriveCaller d r s) \<le> c_role (deriveCaller d (fst (SetRole r h rl)) s)"
    by (auto simp: caller_role intro: max.coboundedI2)
  with assms(1) show ?thesis by (simp add: antisym)
qed

text \<open>The config is a floor nobody can lower from the chat, and an admin cannot lock themselves out with
  \<open>/usermode\<close>: the sender is still an admin afterwards.\<close>

theorem usermode_keeps_admin:
  assumes "roster_inv r" and "c_role (deriveCaller d r s) = RoleAdmin" and "Name p = ''usermode''"
  shows "(\<forall>h. configRole (Cfg d) (ToLower h) \<le> c_role (deriveCaller d (fst (Dispatch d r now s p)) h))
    \<and> c_role (deriveCaller d (fst (Dispatch d r now s p)) s) = RoleAdmin"
proof (rule conjI, intro allI)
  fix h
  show "configRole (Cfg d) (ToLower h) \<le> c_role (deriveCaller d (fst (Dispatch d r now s p)) h)"
    by (simp add: caller_role)
next
  let ?c = "deriveCaller d r s"
  have D: "fst (Dispatch d r now s p) = fst (handleUserMode d r ?c (Args p))"
    using assms(3) by (simp add: Dispatch_def Let_def)
  show "c_role (deriveCaller d (fst (Dispatch d r now s p)) s) = RoleAdmin"
  proof (cases "configRole (Cfg d) (ToLower s) = RoleAdmin")
    case True
    then show ?thesis by (simp add: caller_role max_absorb1)
  next
    case False
    then have "configRole (Cfg d) (ToLower s) < RoleAdmin" by (simp add: less_le)
    with handleUserMode_cases [of d r ?c "Args p"] consider "fst (Dispatch d r now s p) = r"
      | q t req where "Resolve r q = Inr t" "req \<in> {''admin'', ''mod'', ''user''}"
          "Hash t \<noteq> ToLower s \<or> \<not> parseRole req < RoleAdmin"
          "fst (Dispatch d r now s p) = fst (SetRole r (Hash t) (if req = ''user'' then [] else req))"
      unfolding D caller_hash by blast
    then show ?thesis
    proof cases
      case (2 q t req)
      from Resolve_member [OF assms(1) 2(1)] valid_hash_lower have "ToLower (Hash t) = Hash t" by blast
      moreover have "\<not> parseRole req < RoleAdmin \<longrightarrow> req = ''admin''"
        by (auto simp: parseRole_def less_Role_def)
      ultimately show ?thesis using 2 SetRole_keeps_admin [OF assms(2)] by auto
    qed (use assms(2) in simp)
  qed
qed

section \<open>Joining\<close>

lemma Len_AddOrUpdate: "Len (fst (AddOrUpdate r hb now)) \<le> Suc (Len r)"
  by (cases "hex_encode hb \<in> fst ` set (users r)")
     (simp_all add: Len_def roster_simps length_update_old length_update_new)

lemma length_delete_le: "length (AList.delete k m) \<le> length m"
  by (simp add: AList.delete_eq)

lemma command_step_cap:
  assumes "command_step d r now c r'" and "0 < MaxMembers (Service (Cfg d))"
    and "int (Len r) \<le> MaxMembers (Service (Cfg d))"
  shows "int (Len r') \<le> MaxMembers (Service (Cfg d))"
  using assms
proof (induction rule: command_step.induct)
  case (join hb)
  then show ?case using Len_AddOrUpdate [of r hb now] by linarith
next
  case (join_nick hb n)
  then show ?case using Len_AddOrUpdate [of r hb now] by (simp add: Len_def roster_simps)
next
  case leave
  then show ?case using length_delete_le [of _ "users r"] by (simp add: Len_def roster_simps) (meson le_trans of_nat_mono order_trans)
next
  case (kick q t)
  then show ?case using length_delete_le [of _ "users r"] by (simp add: Len_def roster_simps) (meson le_trans of_nat_mono order_trans)
next
  case (ban q t)
  then show ?case using length_delete_le [of _ "users r"] by (simp add: Len_def roster_simps) (meson le_trans of_nat_mono order_trans)
qed (simp_all add: Len_def roster_simps)

text \<open>C35. With a member cap configured, no sequence of commands takes the roster above it.\<close>

theorem member_cap:
  assumes "0 < MaxMembers (Service (Cfg d))" and "int (Len r) \<le> MaxMembers (Service (Cfg d))"
  shows "int (Len (fold (\<lambda>(now, s, content) r. fst (Dispatch d r now s (Parse content))) cmds r)) \<le> MaxMembers (Service (Cfg d))"
  using assms(2)
proof (induction cmds arbitrary: r)
  case (Cons x cmds)
  obtain now s content where "x = (now, s, content)" by (cases x)
  with command_step_cap [OF Dispatch_step assms(1) Cons.prems] Cons.IH show ?case by simp
qed simp

text \<open>C34. \<open>/join\<close> from someone who is not a member admits them exactly when they are not banned and there is room.\<close>

theorem join_admits_iff:
  assumes "Name p = ''join''" and "mustHexBytes (ToLower s) = Some hb" and "map_of (users r) (ToLower s) = None"
  shows "map_of (users (fst (Dispatch d r now s p))) (ToLower s) \<noteq> None \<longleftrightarrow>
    ToLower s \<notin> set (banlist r)
    \<and> (MaxMembers (Service (Cfg d)) \<le> 0 \<or> int (Len r) < MaxMembers (Service (Cfg d)))"
proof -
  let ?c = "deriveCaller d r s"
  note h = mustHexBytes_canonical [OF assms(2)]
  have D: "fst (Dispatch d r now s p) = fst (handleJoin d r now ?c)"
    using assms(1) by (simp add: Dispatch_def Let_def)
  have m: "\<not> c_member ?c" using assms(3) by (simp add: caller_member)
  have b: "IsBanned r hb \<longleftrightarrow> ToLower s \<in> set (banlist r)" using h by (simp add: IsBanned_def normalizeHash_16)
  let ?r1 = "fst (AddOrUpdate r hb now)"
  have in1: "map_of (users ?r1) (ToLower s) \<noteq> None" using h by (simp add: roster_simps)
  moreover have "map_of (users (default_nick d ?r1 ?c hb)) (ToLower s) \<noteq> None"
    using default_nick_cases [of d ?r1 ?c hb] in1 by (auto simp: roster_simps)
  ultimately show ?thesis
    using assms(2,3) m b unfolding D
    by (auto simp: handleJoin_def not_less not_le split: prod.splits option.splits)
qed

section \<open>Replies and names\<close>

lemma fit_loop_bound:
  "int (length b) + int (length (more_footer (length ls))) \<le> cap \<Longrightarrow> ls \<noteq> [] \<Longrightarrow> fit_loop cap b ls = (out, ok) \<Longrightarrow>
     int (length out) \<le> cap \<and> take (length b) out = b \<and> (ok \<longrightarrow> out = b @ nl @ Join ls nl)"
proof (induction ls arbitrary: b)
  case (Cons line rest)
  show ?case
  proof (cases "rest \<noteq> [] \<and> int (length b) + (1 + int (length line)) + int (length (more_footer (length rest))) \<le> cap")
    case True
    then have "fit_loop cap (b @ nl @ line) rest = (out, ok)"
      using Cons.prems(3) by (auto simp: Let_def split: if_splits)
    moreover have "int (length (b @ nl @ line)) + int (length (more_footer (length rest))) \<le> cap"
      using True by simp
    ultimately have ih: "int (length out) \<le> cap \<and> take (length (b @ nl @ line)) out = b @ nl @ line
        \<and> (ok \<longrightarrow> out = (b @ nl @ line) @ nl @ Join rest nl)"
      using Cons.IH [of "b @ nl @ line"] True by blast
    then have "take (length b) out = b"
      by (metis append_eq_conv_conj length_append min.absorb1 le_add1 take_take)
    moreover have "Join (line # rest) nl = line @ nl @ Join rest nl" using True by (cases rest) auto
    ultimately show ?thesis using ih by simp
  next
    case False
    with Cons.prems show ?thesis by (cases rest) (auto simp: Let_def split: if_splits)
  qed
qed simp

text \<open>A list reply never exceeds the single-packet budget and keeps its header, whatever the list, as long as
  the header and the \<open>...and N more\<close> footer fit.\<close>

theorem fitList_bound:
  assumes "0 < cap" and "int (length header) + int (length (more_footer (length ls))) \<le> cap"
  shows "int (length (fitList cap header ls)) \<le> cap \<and> take (length header) (fitList cap header ls) = header"
proof (cases "ls = []")
  case True
  with assms show ?thesis by (simp add: fitList_def)
next
  case False
  obtain out ok where o: "fit_loop cap header ls = (out, ok)" by (cases "fit_loop cap header ls")
  from fit_loop_bound [OF assms(2) False o] False o assms(1) show ?thesis
    by (auto simp: fitList_def Let_def)
qed

text \<open>A nickname derived from an announced display name is one that \<open>/nick\<close> would accept, or none.\<close>

theorem SanitizeNickname_sound: "SanitizeNickname raw = [] \<or> nickRE (SanitizeNickname raw)"
  by (rule SanitizeNickname_ok)

text \<open>The dispatcher's own hex decoder is \<open>encoding/hex\<close> restricted to 32 digits.\<close>

theorem mustHexBytes_is_hex_decode: "mustHexBytes h = (if length h = 32 then hex_decode h else None)"
  by (rule mustHexBytes_decode)

definition word_ok :: "string \<Rightarrow> bool" where
  "word_ok w \<longleftrightarrow> w \<noteq> [] \<and> (\<forall>c \<in> set w. code c < 128 \<and> \<not> IsSpace (code c))"

lemma fields_word_then_space:
  "(\<forall>c \<in> set w. \<not> IsSpace (code c)) \<Longrightarrow> cur @ w \<noteq> [] \<Longrightarrow>
     fields_chunks cur (map (\<lambda>c. (code c, [c])) (w @ CHR '' '' # rest)) = (cur @ w) # fields_chunks [] (map (\<lambda>c. (code c, [c])) rest)"
  by (induction w arbitrary: cur) (auto simp: IsSpace_def)

lemma fields_last_word:
  "(\<forall>c \<in> set w. \<not> IsSpace (code c)) \<Longrightarrow> cur @ w \<noteq> [] \<Longrightarrow>
     fields_chunks cur (map (\<lambda>c. (code c, [c])) w) = [cur @ w]"
  by (induction w arbitrary: cur) auto

lemma word_ok_ascii: "list_all word_ok ws \<Longrightarrow> is_ascii (Join ws '' '')"
  by (induction ws "'' ''" rule: Join.induct) (auto simp: is_ascii_def word_ok_def)

lemma fields_Join: "list_all word_ok ws \<Longrightarrow> fields_chunks [] (map (\<lambda>c. (code c, [c])) (Join ws '' '')) = ws"
proof (induction ws "'' ''" rule: Join.induct)
  case (2 x)
  then show ?case using fields_last_word [of x "[]"] by (simp add: word_ok_def)
next
  case (3 x y xs)
  then show ?case using fields_word_then_space [of x "[]" "Join (y # xs) '' ''"] by (simp add: word_ok_def)
qed simp

lemma Fields_Join: "list_all word_ok ws \<Longrightarrow> Fields (Join ws '' '') = ws"
  by (simp add: Fields_ascii word_ok_ascii fields_Join)

lemma Join_last: "list_all word_ok ws \<Longrightarrow> ws \<noteq> [] \<Longrightarrow> Join ws '' '' \<noteq> [] \<and> last (Join ws '' '') = last (last ws)"
  by (induction ws "'' ''" rule: Join.induct) (auto simp: word_ok_def)

text \<open>Typing a command and its arguments separated by blanks parses back to the lower-cased name and exactly
  those arguments, and the message is recognised as a command.\<close>

theorem Parse_roundtrip:
  assumes "list_all word_ok (name # args)"
  shows "Parse (''/'' @ Join (name # args) '' '') = \<lparr>Name = ToLower name, Args = args, Raw = ''/'' @ Join (name # args) '' ''\<rparr>
    \<and> IsCommand (''/'' @ Join (name # args) '' '')"
proof -
  let ?s = "''/'' @ Join (name # args) '' ''"
  have "last ?s = last (last (name # args))" using Join_last [OF assms] by auto
  moreover have "word_ok (last (name # args))" using assms by (metis in_set_conv_decomp append_butlast_last_id list.distinct(1) list_all_iff)
  ultimately have "code (last ?s) < 128" "\<not> IsSpace (code (last ?s))"
    by (metis word_ok_def last_in_set)+
  then have "trim_right_space ?s = ?s" by (intro trim_right_space_none) auto
  moreover have "trim_left_space ?s = ?s" by (rule trim_left_space_none) (auto simp: IsSpace_def)
  ultimately have t: "TrimSpace ?s = ?s" by (simp add: TrimSpace_def)
  have "Fields (drop 1 ?s) = name # args" using Fields_Join [OF assms] by simp
  with t show ?thesis by (simp add: Parse_def HasPrefix_def IsCommand_def TrimLeft_def)
qed

text \<open>\<open>IsCommand\<close> skips blanks and tabs only, while \<open>Parse\<close> trims all white space: a message with a line
  break before the slash parses as a command and is not recognised as one.\<close>

lemma command_after_newline:
  "\<not> IsCommand (nl @ ''/join'') \<and> Name (Parse (nl @ ''/join'')) = ''join''"
  by (simp add: IsCommand_def Parse_def TrimLeft_def go_eval Let_def)

section \<open>Concrete instances\<close>

text \<open>A chat of at most two members, user A its config admin, with a dispatcher whose hooks are set.\<close>

definition demo_dispatcher :: Dispatcher where
  "demo_dispatcher = \<lparr>Cfg = defaults\<lparr>Admins := [user_a], Service := (Service defaults)\<lparr>MaxMembers := 2\<rparr>\<rparr>,
     AnnounceHook = Some None, PathLookup = None, OnJoin = True, LookupAnnouncedName = Some (\<lambda>_. ''Bob & Co''),
     MaxReplyContentBytes = 200, printable = (\<lambda>_. False)\<rparr>"

definition user_c :: string where
  "user_c = replicate 32 (CHR ''c'')"

abbreviation cmd :: "string \<Rightarrow> string list \<Rightarrow> Parsed" where
  "cmd n a \<equiv> \<lparr>Name = n, Args = a, Raw = []\<rparr>"

lemma demo_names: "names_ok demo_roster"
  by (simp add: names_ok_def demo_roster_def name_ok_def new_user_def nickRE_def nick_char_def)

lemma demo_distinct [simp]: "user_c \<noteq> user_a" "user_c \<noteq> user_b"
  by (simp_all add: user_a_def user_b_def user_c_def)

lemma demo_lower [simp]: "ToLower user_a = user_a" "ToLower user_b = user_b" "ToLower user_c = user_c"
  by (simp_all add: user_a_def user_b_def user_c_def go_eval)

lemma demo_bytes [simp]: "mustHexBytes user_a = Some (replicate 16 170)" "mustHexBytes user_c = Some (replicate 16 204)"
  by (simp_all add: mustHexBytes_decode user_a_def user_c_def numeral_eq_Suc hex_value_def)

lemma demo_roles [simp]:
  "configRole (Cfg demo_dispatcher) user_a = RoleAdmin" "configRole (Cfg demo_dispatcher) user_c = RoleUser"
  by (simp_all add: configRole_def IsAdmin_def IsMod_def demo_dispatcher_def defaults_def)

lemma demo_callers [simp]:
  "c_role (deriveCaller demo_dispatcher demo_roster user_a) = RoleAdmin"
  "c_role (deriveCaller demo_dispatcher demo_roster user_c) = RoleUser"
  by (simp_all add: caller_role roster_role_def demo_roster_def new_user_def parseRole_def max_def less_eq_Role_def)

theorem Dispatch_safe_witness:
  "roster_inv (fst (Dispatch demo_dispatcher demo_roster 500 user_c (Parse ''/join'')))
    \<and> no_banned_member (fst (Dispatch demo_dispatcher demo_roster 500 user_c (Parse ''/join'')))
    \<and> names_ok (fst (Dispatch demo_dispatcher demo_roster 500 user_c (Parse ''/join'')))"
  by (rule Dispatch_safe [OF demo_roster_inv demo_names])

theorem unprivileged_frame_witness:
  "map_of (users (fst (Dispatch demo_dispatcher demo_roster 500 user_c (cmd ''kick'' [''Ann''])))) user_a
     = map_of (users demo_roster) user_a"
  using unprivileged_frame [of demo_dispatcher demo_roster user_c 500 "cmd ''kick'' [''Ann'']"]
  by (simp add: atLeastMod_def demo_distinct [symmetric])

theorem no_escalation_witness:
  "c_role (deriveCaller demo_dispatcher (fst (Dispatch demo_dispatcher demo_roster 500 user_c (cmd ''usermode'' [''admin'', user_c]))) user_c)
     = RoleUser"
  using no_escalation [of demo_dispatcher demo_roster user_c 500 "cmd ''usermode'' [''admin'', user_c]" user_c]
  by (simp add: antisym)

theorem usermode_keeps_admin_witness:
  "c_role (deriveCaller demo_dispatcher (fst (Dispatch demo_dispatcher demo_roster 500 user_a (cmd ''usermode'' [''user'', ''Ann'']))) user_a)
     = RoleAdmin"
  using usermode_keeps_admin [of demo_roster demo_dispatcher user_a "cmd ''usermode'' [''user'', ''Ann'']" 500]
  by (simp add: demo_roster_inv)

theorem member_cap_witness:
  "int (Len (fold (\<lambda>(now, s, content) r. fst (Dispatch demo_dispatcher r now s (Parse content)))
     [(1, user_c, ''/join''), (2, replicate 32 (CHR ''d''), ''/join'')] demo_roster)) \<le> 2"
  using member_cap [of demo_dispatcher demo_roster "[(1, user_c, ''/join''), (2, replicate 32 (CHR ''d''), ''/join'')]"]
  by (simp add: demo_dispatcher_def demo_roster_def Len_def defaults_def)

theorem join_admits_iff_witness:
  "map_of (users (fst (Dispatch demo_dispatcher demo_roster 500 user_c (cmd ''join'' [])))) user_c \<noteq> None"
  using join_admits_iff [of "cmd ''join'' []" user_c "replicate 16 204" demo_roster demo_dispatcher 500]
  by (simp add: demo_roster_def demo_dispatcher_def Len_def defaults_def)

theorem fitList_bound_witness:
  "length (fitList 60 ''Users (3):'' [''  aaaaaaaaaaaaaaaaaaaa'', ''  bbbbbbbbbbbbbbbbbbbb'', ''  cccccccccccccccccccc'']) \<le> 60"
  using fitList_bound [of 60 "''Users (3):''" "[''  aaaaaaaaaaaaaaaaaaaa'', ''  bbbbbbbbbbbbbbbbbbbb'', ''  cccccccccccccccccccc'']"]
  by (simp add: more_footer_def nat_str.simps)

theorem Parse_roundtrip_witness:
  "Parse ''/Kick Bob'' = \<lparr>Name = ''kick'', Args = [''Bob''], Raw = ''/Kick Bob''\<rparr> \<and> IsCommand ''/Kick Bob''"
proof -
  have "ToLower ''Kick'' = ''kick''" by (simp add: go_eval)
  moreover have "list_all word_ok [''Kick'', ''Bob'']" by (simp add: word_ok_def IsSpace_def)
  ultimately show ?thesis using Parse_roundtrip [of "''Kick''" "[''Bob'']"] by simp
qed

end
