(* ===== verification/Idmap.thy ===== *)
theory Idmap
  imports Go_Strings
begin

text \<open>
  The message-id cache, \<open>internal/idmap/idmap.go\<close>. Bubbles are shared and mutated through pointers:
  a pointer is a number and the bubbles live in a heap inside the cache state. \<open>b.lru != nil\<close> holds
  exactly while the bubble is in the LRU list, so the back pointer is membership of the list.
\<close>

section \<open>State\<close>

record Bubble =
  views :: "(string, string) gomap"
  expiresAt :: time

record Cache =
  ttl :: duration
  maxSize :: int
  byMsgID :: "(string, nat) gomap"
  lru :: "nat list"
  heap :: "(nat, Bubble) gomap"

definition New_cache :: "duration \<Rightarrow> int \<Rightarrow> Cache" where
  "New_cache t m = \<lparr>ttl = t, maxSize = (if m < 0 then 0 else m), byMsgID = [], lru = [], heap = []\<rparr>"

text \<open>\<open>NewBubble\<close> at a fresh address.\<close>

definition NewBubble :: "Cache \<Rightarrow> nat \<Rightarrow> duration \<Rightarrow> time \<Rightarrow> Cache" where
  "NewBubble c b t now = c\<lparr>heap := AList.update b \<lparr>views = [], expiresAt = now + t\<rparr> (heap c)\<rparr>"

definition ViewFor :: "Bubble \<Rightarrow> string \<Rightarrow> string option" where
  "ViewFor b recipientHex = map_of (views b) recipientHex"

definition bubble_at :: "Cache \<Rightarrow> nat \<Rightarrow> Bubble" where
  "bubble_at c b = (case map_of (heap c) b of None \<Rightarrow> \<lparr>views = [], expiresAt = 0\<rparr> | Some x \<Rightarrow> x)"

definition removeBubbleLocked :: "Cache \<Rightarrow> nat \<Rightarrow> Cache" where
  "removeBubbleLocked c b =
     c\<lparr>byMsgID := fold AList.delete (map snd (views (bubble_at c b))) (byMsgID c), lru := removeAll b (lru c)\<rparr>"

text \<open>The loops take the LRU list from the back.\<close>

fun evict_loop :: "time \<Rightarrow> nat list \<Rightarrow> Cache \<Rightarrow> Cache" where
  "evict_loop now [] c = c"
| "evict_loop now (b # bs) c =
     (if \<not> now > expiresAt (bubble_at c b) then c else evict_loop now bs (removeBubbleLocked c b))"

definition evictExpiredLocked :: "Cache \<Rightarrow> time \<Rightarrow> Cache" where
  "evictExpiredLocked c now = evict_loop now (rev (lru c)) c"

fun cap_loop :: "nat list \<Rightarrow> Cache \<Rightarrow> Cache" where
  "cap_loop bs c =
     (if int (length (byMsgID c)) > maxSize c then
        (case bs of [] \<Rightarrow> c | b # bs' \<Rightarrow> cap_loop bs' (removeBubbleLocked c b))
      else c)"

declare cap_loop.simps [simp del]

definition enforceCapLocked :: "Cache \<Rightarrow> Cache" where
  "enforceCapLocked c = (if maxSize c \<le> 0 then c else cap_loop (rev (lru c)) c)"

definition RegisterView :: "Cache \<Rightarrow> time \<Rightarrow> nat option \<Rightarrow> string \<Rightarrow> string \<Rightarrow> Cache" where
  "RegisterView c now bp recipientHex msgIDHex =
     (case bp of
        None \<Rightarrow> c
      | Some b \<Rightarrow>
          if msgIDHex = [] then c
          else
           (let c1 = evictExpiredLocked c now;
                x = bubble_at c1 b;
                c2 = c1\<lparr>heap := AList.update b (x\<lparr>views := AList.update recipientHex msgIDHex (views x)\<rparr>) (heap c1),
                        byMsgID := AList.update msgIDHex b (byMsgID c1),
                        lru := b # removeAll b (lru c1)\<rparr>
            in enforceCapLocked c2))"

definition Lookup :: "Cache \<Rightarrow> time \<Rightarrow> string \<Rightarrow> Cache \<times> nat option" where
  "Lookup c now msgIDHex =
     (case map_of (byMsgID c) msgIDHex of
        None \<Rightarrow> (c, None)
      | Some b \<Rightarrow>
          if now > expiresAt (bubble_at c b) then (removeBubbleLocked c b, None)
          else (if b \<in> set (lru c) then c\<lparr>lru := b # removeAll b (lru c)\<rparr> else c, Some b))"

definition Len_cache :: "Cache \<Rightarrow> nat" where
  "Len_cache c = length (byMsgID c)"

section \<open>Invariant\<close>

text \<open>The message ids a bubble was sent under.\<close>

definition view_ids :: "Cache \<Rightarrow> nat \<Rightarrow> string set" where
  "view_ids c b = snd ` set (views (bubble_at c b))"

text \<open>Every key belongs to a bubble of the LRU list that has the key among its views, and no
  message id is a view of two bubbles.\<close>

definition cache_inv :: "Cache \<Rightarrow> bool" where
  "cache_inv c \<longleftrightarrow> gm_ok (byMsgID c) \<and> distinct (lru c)
     \<and> (\<forall>mid b. map_of (byMsgID c) mid = Some b \<longrightarrow> b \<in> set (lru c) \<and> mid \<in> view_ids c b)
     \<and> (\<forall>mid a b. mid \<in> view_ids c a \<longrightarrow> mid \<in> view_ids c b \<longrightarrow> a = b)"

lemma map_of_fold_delete: "map_of (fold AList.delete ks m) k = (if k \<in> set ks then None else map_of m k)"
  by (induction ks arbitrary: m) auto

lemma gm_ok_fold_delete: "gm_ok m \<Longrightarrow> gm_ok (fold AList.delete ks m)"
  by (induction ks arbitrary: m) (auto simp: gm_ok_def distinct_delete)

lemma remove_bubble_at [simp]: "bubble_at (removeBubbleLocked c b) a = bubble_at c a"
  by (simp add: removeBubbleLocked_def bubble_at_def)

lemma remove_fields [simp]:
  "heap (removeBubbleLocked c b) = heap c" "maxSize (removeBubbleLocked c b) = maxSize c"
  "ttl (removeBubbleLocked c b) = ttl c"
  "lru (removeBubbleLocked c b) = removeAll b (lru c)" "view_ids (removeBubbleLocked c b) a = view_ids c a"
  by (simp_all add: removeBubbleLocked_def view_ids_def bubble_at_def)

lemma remove_keys [simp]:
  "map_of (byMsgID (removeBubbleLocked c b)) mid = (if mid \<in> view_ids c b then None else map_of (byMsgID c) mid)"
  by (simp add: removeBubbleLocked_def map_of_fold_delete view_ids_def)

lemma cache_inv_key: "cache_inv c \<Longrightarrow> map_of (byMsgID c) mid = Some b \<Longrightarrow> b \<in> set (lru c) \<and> mid \<in> view_ids c b"
  by (simp add: cache_inv_def)

lemma cache_inv_unique: "cache_inv c \<Longrightarrow> mid \<in> view_ids c a \<Longrightarrow> mid \<in> view_ids c b \<Longrightarrow> a = b"
  unfolding cache_inv_def by blast

lemma remove_gm_ok: "gm_ok (byMsgID c) \<Longrightarrow> gm_ok (byMsgID (removeBubbleLocked c b))"
  by (simp add: removeBubbleLocked_def gm_ok_fold_delete)

lemma remove_inv [inv_intros]:
  assumes "cache_inv c"
  shows "cache_inv (removeBubbleLocked c b)"
  unfolding cache_inv_def
proof (intro conjI allI impI)
  fix mid a
  assume "map_of (byMsgID (removeBubbleLocked c b)) mid = Some a"
  then have "mid \<notin> view_ids c b" "map_of (byMsgID c) mid = Some a" by (auto split: if_splits)
  with cache_inv_key [OF assms] show "a \<in> set (lru (removeBubbleLocked c b))" "mid \<in> view_ids (removeBubbleLocked c b) a"
    by auto
qed (use assms cache_inv_unique [OF assms] in \<open>auto simp: cache_inv_def remove_gm_ok distinct_removeAll\<close>)

lemma evict_loop_keeps:
  "cache_inv c \<Longrightarrow> cache_inv (evict_loop now bs c) \<and> heap (evict_loop now bs c) = heap c
     \<and> maxSize (evict_loop now bs c) = maxSize c \<and> set (lru (evict_loop now bs c)) \<subseteq> set (lru c)"
  by (induction now bs c rule: evict_loop.induct) (auto intro: inv_intros)

lemma evict_keeps:
  assumes "cache_inv c"
  shows "cache_inv (evictExpiredLocked c now)" "heap (evictExpiredLocked c now) = heap c"
    "maxSize (evictExpiredLocked c now) = maxSize c"
  using evict_loop_keeps [OF assms, of now "rev (lru c)"] by (simp_all add: evictExpiredLocked_def)

lemma cap_loop_keeps:
  "cache_inv c \<Longrightarrow> cache_inv (cap_loop bs c) \<and> heap (cap_loop bs c) = heap c \<and> maxSize (cap_loop bs c) = maxSize c"
proof (induction bs arbitrary: c)
  case Nil
  then show ?case by (simp add: cap_loop.simps)
next
  case (Cons b bs)
  then show ?case using Cons.IH [OF remove_inv [OF Cons.prems]] by (simp add: cap_loop.simps [of "b # bs"])
qed

text \<open>The loop always reaches the cap: when the list is used up, no key is left.\<close>

lemma cap_loop_reaches:
  "cache_inv c \<Longrightarrow> set (lru c) \<subseteq> set bs \<Longrightarrow> 0 \<le> maxSize c \<Longrightarrow> int (length (byMsgID (cap_loop bs c))) \<le> maxSize c"
proof (induction bs arbitrary: c)
  case Nil
  then have "map_of (byMsgID c) mid = None" for mid by (auto simp: cache_inv_def)
  then have "byMsgID c = []" by (metis list.set_intros(1) list.exhaust map_of_eq_None_iff image_eqI empty_iff fst_conv prod.exhaust)
  with Nil show ?case by (simp add: cap_loop.simps)
next
  case (Cons b bs)
  then have "int (length (byMsgID (cap_loop bs (removeBubbleLocked c b)))) \<le> maxSize c"
    using Cons.IH [of "removeBubbleLocked c b"] remove_inv by auto
  then show ?case by (simp add: cap_loop.simps [of "b # bs"])
qed

lemma keys_le_views:
  assumes "cache_inv c" and "set (lru c) \<subseteq> {b}"
  shows "length (byMsgID c) \<le> length (views (bubble_at c b))"
proof -
  from assms have "dom (map_of (byMsgID c)) \<subseteq> view_ids c b" by (auto simp: cache_inv_def)
  then have "fst ` set (byMsgID c) \<subseteq> view_ids c b" by (simp add: dom_map_of_conv_image_fst)
  then have "card (fst ` set (byMsgID c)) \<le> card (view_ids c b)" by (rule card_mono [rotated]) (simp add: view_ids_def)
  also have "\<dots> \<le> length (views (bubble_at c b))"
    unfolding view_ids_def by (metis card_image_le card_length le_trans finite_set)
  finally show ?thesis using assms(1)
    by (metis cache_inv_def distinct_card gm_ok_def length_map list.set_map)
qed

text \<open>The bubble at the front survives unless its own views exceed the cap.\<close>

lemma cap_loop_spares_front:
  "cache_inv c \<Longrightarrow> set (lru c) \<subseteq> set (bs @ [b]) \<Longrightarrow> b \<notin> set bs
     \<Longrightarrow> int (length (views (bubble_at c b))) \<le> maxSize c \<Longrightarrow> map_of (byMsgID c) mid = Some b
     \<Longrightarrow> map_of (byMsgID (cap_loop (bs @ [b]) c)) mid = Some b"
proof (induction bs arbitrary: c)
  case Nil
  then have "int (length (byMsgID c)) \<le> maxSize c" using keys_le_views [of c b] by simp
  with Nil show ?case by (simp add: cap_loop.simps)
next
  case (Cons a bs)
  let ?c = "removeBubbleLocked c a"
  have "mid \<notin> view_ids c a"
    using Cons.prems cache_inv_key [OF Cons.prems(1,5)] cache_inv_unique [OF Cons.prems(1)] by auto
  then have "map_of (byMsgID (cap_loop (bs @ [b]) ?c)) mid = Some b"
    using Cons.prems Cons.IH [of ?c] remove_inv by auto
  with Cons.prems show ?case by (simp add: cap_loop.simps [of "a # (bs @ [b])"])
qed

section \<open>Registering and looking up\<close>

text \<open>What a caller passes to \<open>RegisterView\<close>: the message id is one that no other bubble was sent under,
  and the recipient was not sent this bubble under another id.\<close>

definition fresh_view :: "Cache \<Rightarrow> nat \<Rightarrow> string \<Rightarrow> string \<Rightarrow> bool" where
  "fresh_view c b recipientHex mid \<longleftrightarrow> mid \<noteq> [] \<and> map_of (heap c) b \<noteq> None
     \<and> map_of (views (bubble_at c b)) recipientHex \<in> {None, Some mid} \<and> (\<forall>a. a \<noteq> b \<longrightarrow> mid \<notin> view_ids c a)"

text \<open>The state between the update and the cap.\<close>

definition registered :: "Cache \<Rightarrow> nat \<Rightarrow> string \<Rightarrow> string \<Rightarrow> Cache" where
  "registered c b recipientHex mid =
     c\<lparr>heap := AList.update b ((bubble_at c b)\<lparr>views := AList.update recipientHex mid (views (bubble_at c b))\<rparr>) (heap c),
       byMsgID := AList.update mid b (byMsgID c), lru := b # removeAll b (lru c)\<rparr>"

lemma registered_bubble:
  "bubble_at (registered c b rec mid) a =
     (if a = b then (bubble_at c b)\<lparr>views := AList.update rec mid (views (bubble_at c b))\<rparr> else bubble_at c a)"
  by (simp add: bubble_at_def registered_def)

lemma update_values:
  "map_of m k \<in> {None, Some v} \<Longrightarrow> snd ` set (AList.update k v m) = insert v (snd ` set m)"
  by (induction m) (auto simp: insert_commute split: if_splits)

lemma registered_ids:
  "fresh_view c b rec mid \<Longrightarrow> view_ids (registered c b rec mid) a = (if a = b then insert mid (view_ids c b) else view_ids c a)"
  by (simp add: view_ids_def registered_bubble fresh_view_def update_values)

lemma registered_lru [simp]: "lru (registered c b rec mid) = b # removeAll b (lru c)"
  by (simp add: registered_def)

lemma registered_inv:
  assumes "cache_inv c" and f: "fresh_view c b rec mid"
  shows "cache_inv (registered c b rec mid)"
  unfolding cache_inv_def
proof (intro conjI allI impI)
  show "gm_ok (byMsgID (registered c b rec mid))" "distinct (lru (registered c b rec mid))"
    using assms by (simp_all add: cache_inv_def registered_def distinct_removeAll)
next
  fix m a
  assume "map_of (byMsgID (registered c b rec mid)) m = Some a"
  then have "m = mid \<and> a = b \<or> map_of (byMsgID c) m = Some a" by (auto simp: registered_def split: if_splits)
  with cache_inv_key [OF assms(1)]
  show "a \<in> set (lru (registered c b rec mid))" "m \<in> view_ids (registered c b rec mid) a"
    by (auto simp: registered_ids [OF f] registered_lru)
next
  fix m a a'
  assume "m \<in> view_ids (registered c b rec mid) a" "m \<in> view_ids (registered c b rec mid) a'"
  with f cache_inv_unique [OF assms(1)] show "a = a'"
    by (auto simp: registered_ids [OF f] fresh_view_def split: if_splits)
qed

lemma RegisterView_registered:
  "mid \<noteq> [] \<Longrightarrow> RegisterView c now (Some b) rec mid = enforceCapLocked (registered (evictExpiredLocked c now) b rec mid)"
  by (simp add: RegisterView_def registered_def Let_def)

lemma evict_fresh: "cache_inv c \<Longrightarrow> fresh_view c b rec mid \<Longrightarrow> fresh_view (evictExpiredLocked c now) b rec mid"
  using evict_keeps by (simp add: fresh_view_def view_ids_def bubble_at_def)

lemma enforceCap_keeps: "cache_inv c \<Longrightarrow> cache_inv (enforceCapLocked c) \<and> heap (enforceCapLocked c) = heap c"
  using cap_loop_keeps by (simp add: enforceCapLocked_def)

lemma RegisterView_inv: "cache_inv c \<Longrightarrow> fresh_view c b rec mid \<Longrightarrow> cache_inv (RegisterView c now (Some b) rec mid)"
  using enforceCap_keeps registered_inv evict_keeps evict_fresh
  by (simp add: RegisterView_registered fresh_view_def [of c])

lemma Lookup_inv: "cache_inv c \<Longrightarrow> cache_inv (fst (Lookup c now mid))"
proof -
  assume inv: "cache_inv c"
  have "view_ids (c\<lparr>lru := l\<rparr>) a = view_ids c a" for l a by (simp add: view_ids_def bubble_at_def)
  then have "b \<in> set (lru c) \<Longrightarrow> cache_inv (c\<lparr>lru := b # removeAll b (lru c)\<rparr>)" for b
    using inv by (auto simp: cache_inv_def distinct_removeAll)
  with inv remove_inv show ?thesis by (auto simp: Lookup_def split: option.splits)
qed

lemma NewBubble_inv: "cache_inv c \<Longrightarrow> map_of (heap c) b = None \<Longrightarrow> cache_inv (NewBubble c b t now)"
proof -
  assume inv: "cache_inv c" "map_of (heap c) b = None"
  then have "view_ids (NewBubble c b t now) a = view_ids c a" for a
    by (simp add: view_ids_def bubble_at_def NewBubble_def)
  with inv show ?thesis by (simp add: cache_inv_def NewBubble_def)
qed

section \<open>Runs\<close>

text \<open>The calls the service makes: a new bubble per forwarded message, a registration per delivered copy, a
  lookup per inbound reference.\<close>

inductive cache_step :: "Cache \<Rightarrow> Cache \<Rightarrow> bool" where
  new: "map_of (heap c) b = None \<Longrightarrow> cache_step c (NewBubble c b (ttl c) now)"
| reg: "fresh_view c b rec mid \<Longrightarrow> cache_step c (RegisterView c now (Some b) rec mid)"
| lookup: "cache_step c (fst (Lookup c now mid))"

inductive cache_reach :: "Cache \<Rightarrow> Cache \<Rightarrow> bool" for c0 where
  here: "cache_reach c0 c0"
| step: "cache_reach c0 c \<Longrightarrow> cache_step c c' \<Longrightarrow> cache_reach c0 c'"

lemma registered_maxSize [simp]: "maxSize (registered c b rec mid) = maxSize c"
  by (simp add: registered_def)

lemma RegisterView_cap:
  assumes "cache_inv c" and "fresh_view c b rec mid" and "0 < maxSize c"
  shows "int (length (byMsgID (RegisterView c now (Some b) rec mid))) \<le> maxSize c"
proof -
  let ?r = "registered (evictExpiredLocked c now) b rec mid"
  have "cache_inv ?r" by (intro registered_inv evict_keeps evict_fresh assms)
  from cap_loop_reaches [OF this, of "rev (lru ?r)"] assms
  show ?thesis by (simp add: RegisterView_registered enforceCapLocked_def evict_keeps fresh_view_def [of c])
qed

lemma Lookup_len: "length (byMsgID (fst (Lookup c now mid))) \<le> length (byMsgID c)"
proof -
  have "length (fold AList.delete ks m) \<le> length m" for ks and m :: "(string, nat) gomap"
    by (induction ks arbitrary: m) (auto simp: AList.delete_eq intro: le_trans [OF _ length_filter_le])
  then show ?thesis by (auto simp: Lookup_def removeBubbleLocked_def split: option.splits)
qed

lemma cache_step_maxSize: "cache_step c c' \<Longrightarrow> cache_inv c \<Longrightarrow> maxSize c' = maxSize c"
proof (induction rule: cache_step.induct)
  case (reg c b rec mid now)
  have "maxSize (enforceCapLocked x) = maxSize x" if "cache_inv x" for x
    using cap_loop_keeps [OF that] by (simp add: enforceCapLocked_def)
  with reg show ?case
    by (simp add: RegisterView_registered fresh_view_def [of c] evict_keeps registered_inv evict_fresh)
qed (auto simp: NewBubble_def Lookup_def split: option.splits)

lemma cache_step_inv: "cache_step c c' \<Longrightarrow> cache_inv c \<Longrightarrow> cache_inv c'"
  by (induction rule: cache_step.induct) (auto intro: NewBubble_inv RegisterView_inv Lookup_inv)

lemma cache_step_cap:
  "cache_step c c' \<Longrightarrow> cache_inv c \<Longrightarrow> 0 < maxSize c \<Longrightarrow> int (length (byMsgID c)) \<le> maxSize c
     \<Longrightarrow> int (length (byMsgID c')) \<le> maxSize c"
proof (induction rule: cache_step.induct)
  case (lookup c now mid)
  then show ?case using Lookup_len [of c now mid] by linarith
qed (auto simp: NewBubble_def RegisterView_cap)


text \<open>Once a copy is registered, its message id leads back to the bubble with that recipient's view, until the
  bubble expires, as long as the bubble's views fit into the cache.\<close>

theorem registered_found:
  assumes "cache_inv c" and "fresh_view c b rec mid" and "now' \<le> expiresAt (bubble_at c b)"
    and "maxSize c \<le> 0 \<or> int (length (views (bubble_at c b))) < maxSize c"
  shows "snd (Lookup (RegisterView c now (Some b) rec mid) now' mid) = Some b
    \<and> ViewFor (bubble_at (RegisterView c now (Some b) rec mid) b) rec = Some mid"
proof -
  let ?e = "evictExpiredLocked c now" and ?r = "registered (evictExpiredLocked c now) b rec mid"
  have inv: "cache_inv ?r" by (intro registered_inv evict_keeps evict_fresh assms)
  have be: "bubble_at ?e b = bubble_at c b" using evict_keeps(2) [OF assms(1)] by (simp add: bubble_at_def)
  have "length (AList.update rec mid (views (bubble_at c b))) \<le> Suc (length (views (bubble_at c b)))"
    by (cases "rec \<in> fst ` set (views (bubble_at c b))") (simp_all add: length_update_old length_update_new)
  with assms(4) have small: "maxSize c \<le> 0 \<or> int (length (views (bubble_at ?r b))) \<le> maxSize c"
    by (auto simp: registered_bubble be)
  have key: "map_of (byMsgID ?r) mid = Some b" by (simp add: registered_def)
  have "map_of (byMsgID (enforceCapLocked ?r)) mid = Some b"
  proof (cases "maxSize c \<le> 0")
    case False
    have "rev (lru ?r) = rev (removeAll b (lru ?e)) @ [b]" by simp
    with False small inv key cap_loop_spares_front [of ?r "rev (removeAll b (lru ?e))" b mid] assms(1)
    show ?thesis by (simp add: enforceCapLocked_def evict_keeps)
  qed (use key assms(1) in \<open>simp add: enforceCapLocked_def evict_keeps\<close>)
  moreover have "bubble_at (enforceCapLocked ?r) b = bubble_at ?r b"
    using enforceCap_keeps [OF inv] by (simp add: bubble_at_def)
  ultimately show ?thesis
    using assms(2,3) by (simp add: RegisterView_registered fresh_view_def [of c] Lookup_def registered_bubble be ViewFor_def)
qed

text \<open>A bubble past its expiry is never returned.\<close>

lemma Lookup_not_expired: "snd (Lookup c now mid) = Some b \<longrightarrow> now \<le> expiresAt (bubble_at c b)"
  by (auto simp: Lookup_def split: option.splits if_splits)

definition demo_cache :: Cache where
  "demo_cache = NewBubble (New_cache 100 2) 0 100 0"

lemma demo_cache_inv: "cache_inv demo_cache" "fresh_view demo_cache 0 ''aa'' ''m1''"
  by (simp_all add: demo_cache_def NewBubble_def New_cache_def cache_inv_def fresh_view_def gm_ok_def view_ids_def bubble_at_def)


theorem registered_found_witness:
  "snd (Lookup (RegisterView demo_cache 5 (Some 0) ''aa'' ''m1'') 90 ''m1'') = Some 0
    \<and> ViewFor (bubble_at (RegisterView demo_cache 5 (Some 0) ''aa'' ''m1'') 0) ''aa'' = Some ''m1''"
  by (rule registered_found [OF demo_cache_inv])
     (simp_all add: demo_cache_def NewBubble_def New_cache_def bubble_at_def)

end
