(* ===== verification/Rewrite.thy ===== *)
theory Rewrite
  imports Config Idmap
begin

text \<open>
  The LXMF fields of a forwarded message, \<open>internal/service/attachments.go\<close>, \<open>rewrite.go\<close> and
  \<open>sanitize.go\<close>: the operator's attachment policy, and the substitution of each recipient's own view of
  a referenced message id. A field map is a Go \<open>map[any]any\<close>: keys compare with their dynamic type, so an
  \<open>int\<close> 64 and a \<open>uint8\<close> 64 are different keys. The msgpack encoder is the argument \<open>enc_size\<close>.
\<close>

section \<open>Values\<close>

datatype ikind = KInt | KInt8 | KInt16 | KInt32 | KInt64 | KUint | KUint8 | KUint16 | KUint32 | KUint64

datatype gval =
    GInt ikind int
  | GStr string
  | GBin bytes
  | GMap "(gval \<times> gval) list"
  | GArr "gval list"
  | GNil
  | GBool bool
  | GFloat nat

type_synonym fieldmap = "(gval, gval) gomap"

text \<open>\<open>strconv.Atoi\<close>.\<close>

definition Atoi :: "string \<Rightarrow> int option" where
  "Atoi s =
     (let neg = HasPrefix s ''-''; ds = (if neg \<or> HasPrefix s ''+'' then tl s else s);
          n = int (digits_value 0 ds); v = (if neg then - n else n)
      in if ds = [] \<or> \<not> list_all is_digit ds then None
         else if - (2 ^ 63) \<le> v \<and> v < 2 ^ 63 then Some v else None)"

definition keyAsInt :: "gval \<Rightarrow> int option" where
  "keyAsInt k = (case k of GInt _ i \<Rightarrow> Some (wrap64 i) | GStr s \<Rightarrow> Atoi s | _ \<Rightarrow> None)"

section \<open>Attachment policy\<close>

definition humanBytes :: "int \<Rightarrow> string" where
  "humanBytes n =
     (if n < 1024 then int_str n @ '' B''
      else (let m = nat n * 10; q = m div 1024; r = m mod 1024;
                t = (if 512 < r \<or> r = 512 \<and> odd q then q + 1 else q)
            in nat_str (t div 10) @ ''.'' @ nat_str (t mod 10) @ '' KB''))"

definition fieldLabel :: "int \<Rightarrow> string" where
  "fieldLabel key =
     (if key = 5 then ''file'' else if key = 6 then ''image'' else if key = 7 then ''audio''
      else if key = 48 then ''reply-to'' else if key = 49 then ''reply text''
      else if key = 64 then ''reaction'' else if key = 65 then ''comment'' else if key = 66 then ''continuation''
      else ''field '' @ int_str key)"

definition drop_note :: "int \<Rightarrow> nat \<Rightarrow> int \<Rightarrow> string" where
  "drop_note key sz lim =
     ''['' @ fieldLabel key @ '' not forwarded: '' @ humanBytes (int sz) @ '' > '' @ humanBytes lim @ '' limit]''"

fun filter_loop :: "(gval \<Rightarrow> nat option) \<Rightarrow> ServiceConfig \<Rightarrow> fieldmap \<Rightarrow> fieldmap \<times> string list" where
  "filter_loop enc_size cfg [] = ([], [])"
| "filter_loop enc_size cfg ((k, v) # rest) =
     (let (out, drops) = filter_loop enc_size cfg rest in
      case keyAsInt k of
        None \<Rightarrow> (out, drops)
      | Some ki \<Rightarrow>
          if ki \<notin> set (ForwardedFields cfg) then (out, drops)
          else (case enc_size v of
              None \<Rightarrow> (out, drops)
            | Some sz \<Rightarrow>
                if MaxAttachmentBytes cfg > 0 \<and> int sz > MaxAttachmentBytes cfg
                then (out, drop_note ki sz (MaxAttachmentBytes cfg) # drops)
                else ((k, v) # out, drops)))"

definition filterAttachments :: "(gval \<Rightarrow> nat option) \<Rightarrow> fieldmap \<Rightarrow> ServiceConfig \<Rightarrow> fieldmap \<times> string list" where
  "filterAttachments enc_size flds cfg =
     (if flds = [] \<or> \<not> ForwardAttachments cfg then ([], []) else filter_loop enc_size cfg flds)"

section \<open>Sanitizing\<close>

definition control_byte :: "char \<Rightarrow> bool" where
  "control_byte c \<longleftrightarrow> code c < 32 \<and> c \<noteq> CHR 0x09 \<and> c \<noteq> CHR 0x0A \<and> c \<noteq> CHR 0x0D \<or> code c = 127"

definition needsSanitize :: "string \<Rightarrow> bool" where
  "needsSanitize s = list_ex control_byte s"

definition sanitizeForward :: "string \<Rightarrow> string" where
  "sanitizeForward s = (if \<not> needsSanitize s then s else map (\<lambda>c. if control_byte c then CHR ''?'' else c) s)"

section \<open>References to other messages\<close>

definition fieldReplyTo :: int where "fieldReplyTo = 48"
definition fieldReplyQuote :: int where "fieldReplyQuote = 49"
definition fieldReaction :: int where "fieldReaction = 64"
definition fieldComment :: int where "fieldComment = 65"
definition fieldContinuation :: int where "fieldContinuation = 66"
definition targetIdx :: int where "targetIdx = 0"
definition fieldCustomType :: int where "fieldCustomType = 251"
definition fieldCustomData :: int where "fieldCustomData = 252"
definition originatorIdentityType :: string where "originatorIdentityType = ''originator-identity''"

lemmas field_keys = fieldReplyTo_def fieldReplyQuote_def fieldReaction_def fieldComment_def
  fieldContinuation_def targetIdx_def fieldCustomType_def fieldCustomData_def

definition hasReactionField :: "fieldmap \<Rightarrow> bool" where
  "hasReactionField flds = list_ex (\<lambda>(k, v). keyAsInt k = Some fieldReaction) flds"

text \<open>The updated map, or \<open>None\<close> when the map is left alone. An untyped constant key is an \<open>int\<close>.\<close>

definition stampReactorIdentity :: "fieldmap \<Rightarrow> bytes \<Rightarrow> fieldmap option" where
  "stampReactorIdentity flds reactorHash =
     (if reactorHash = [] \<or> \<not> hasReactionField flds then None
      else Some (AList.update (GInt KInt fieldCustomData) (GBin reactorHash)
             (AList.update (GInt KInt fieldCustomType) (GStr originatorIdentityType) flds)))"

definition isPrimaryBubble :: "string \<Rightarrow> fieldmap \<Rightarrow> bool" where
  "isPrimaryBubble content flds =
     (content \<noteq> [] \<or>
      list_ex (\<lambda>(k, v). case keyAsInt k of None \<Rightarrow> False
        | Some ki \<Rightarrow> ki \<notin> {fieldReplyTo, fieldReplyQuote, fieldReaction, fieldComment, fieldContinuation}) flds)"

definition isHexString :: "string \<Rightarrow> bool" where
  "isHexString s \<longleftrightarrow> s \<noteq> [] \<and> list_all (\<lambda>c. 48 \<le> code c \<and> code c \<le> 57 \<or> 97 \<le> code c \<and> code c \<le> 102
     \<or> 65 \<le> code c \<and> code c \<le> 70) s"

definition asHashBytes :: "gval \<Rightarrow> bytes option" where
  "asHashBytes v = (case v of
       GBin b \<Rightarrow> Some b
     | GStr t \<Rightarrow> (if length t = 64 \<and> isHexString t
                  then (case hex_decode t of Some b \<Rightarrow> Some b | None \<Rightarrow> Some (bytes_of t)) else Some (bytes_of t))
     | _ \<Rightarrow> None)"

fun dict_target :: "(gval \<times> gval) list \<Rightarrow> string" where
  "dict_target [] = []"
| "dict_target ((mk, mv) # rest) =
     (if keyAsInt mk \<noteq> Some targetIdx then dict_target rest
      else (case asHashBytes mv of Some b \<Rightarrow> hex_encode b | None \<Rightarrow> dict_target rest))"

definition extractDictTarget :: "gval \<Rightarrow> string" where
  "extractDictTarget v = (case v of GMap m \<Rightarrow> dict_target m | _ \<Rightarrow> [])"

text \<open>The key under which a dict carries its target: the first one the iteration meets.\<close>

definition target_key :: "(gval \<times> gval) list \<Rightarrow> gval option" where
  "target_key m = map_option fst (find (\<lambda>(mk, mv). keyAsInt mk = Some targetIdx) m)"

text \<open>The loops of \<open>substituteDictTarget\<close> and \<open>substituteReplyHash\<close> stop at the first field that matches; \<open>view\<close>
  is \<open>bubble.ViewFor(recipientHex)\<close>.\<close>

fun substituteDictTarget :: "fieldmap \<Rightarrow> int \<Rightarrow> string option \<Rightarrow> fieldmap option" where
  "substituteDictTarget [] key view = Some []"
| "substituteDictTarget ((k, v) # rest) key view =
     (case (if keyAsInt k = Some key then (case v of GMap m \<Rightarrow> map_option (Pair m) (target_key m) | _ \<Rightarrow> None) else None) of
        None \<Rightarrow> map_option (Cons (k, v)) (substituteDictTarget rest key view)
      | Some (m, tk) \<Rightarrow>
          (case view of
             None \<Rightarrow> None
           | Some s \<Rightarrow>
               (case hex_decode s of
                  None \<Rightarrow> None
                | Some raw \<Rightarrow> Some ((k, GMap (AList.update tk (GBin raw) m)) # rest))))"

fun substituteReplyHash :: "fieldmap \<Rightarrow> string option \<Rightarrow> fieldmap option" where
  "substituteReplyHash [] view = Some []"
| "substituteReplyHash ((k, v) # rest) view =
     (if keyAsInt k \<noteq> Some fieldReplyTo \<or> asHashBytes v = None
      then map_option (Cons (k, v)) (substituteReplyHash rest view)
      else (case view of
          None \<Rightarrow> None
        | Some s \<Rightarrow> (case hex_decode s of None \<Rightarrow> None | Some raw \<Rightarrow> Some ((k, GBin raw) # rest))))"

definition stripReplyHash :: "fieldmap \<Rightarrow> fieldmap" where
  "stripReplyHash flds = filter (\<lambda>(k, v). keyAsInt k \<noteq> Some fieldReplyTo) flds"

text \<open>What \<open>buildRewrite\<close> finds: the dict fields with the bubble each refers to, and the bubble a reply
  refers to.\<close>

record plan =
  dicts :: "(int \<times> nat) list"
  replyBubble :: "nat option"

fun scan_fields :: "Cache \<Rightarrow> time \<Rightarrow> fieldmap \<Rightarrow> plan \<Rightarrow> Cache \<times> plan" where
  "scan_fields c now [] p = (c, p)"
| "scan_fields c now ((k, v) # rest) p =
     (case keyAsInt k of
        None \<Rightarrow> scan_fields c now rest p
      | Some ki \<Rightarrow>
          if ki \<in> {fieldReaction, fieldComment, fieldContinuation} then
            (if extractDictTarget v = [] then scan_fields c now rest p
             else (case Lookup c now (extractDictTarget v) of
                 (c', None) \<Rightarrow> scan_fields c' now rest p
               | (c', Some b) \<Rightarrow> scan_fields c' now rest (p\<lparr>dicts := dicts p @ [(ki, b)]\<rparr>)))
          else if ki = fieldReplyTo then
            (case asHashBytes v of
               None \<Rightarrow> scan_fields c now rest p
             | Some raw \<Rightarrow>
                 (case Lookup c now (hex_encode raw) of
                    (c', None) \<Rightarrow> scan_fields c' now rest p
                  | (c', Some b) \<Rightarrow> scan_fields c' now rest (p\<lparr>replyBubble := Some b\<rparr>)))
          else scan_fields c now rest p)"

definition buildRewrite :: "Cache option \<Rightarrow> time \<Rightarrow> fieldmap \<Rightarrow> Cache option \<times> plan option" where
  "buildRewrite idm now flds =
     (case idm of
        None \<Rightarrow> (None, None)
      | Some c \<Rightarrow>
          if flds = [] then (Some c, None)
          else (let (c', p) = scan_fields c now flds \<lparr>dicts = [], replyBubble = None\<rparr> in
                (Some c', if dicts p = [] \<and> replyBubble p = None then None else Some p)))"

text \<open>The closure \<open>buildRewrite\<close> returns, run for one recipient; \<open>None\<close> skips the recipient.\<close>

fun rewrite_dicts :: "(nat \<Rightarrow> string option) \<Rightarrow> (int \<times> nat) list \<Rightarrow> fieldmap \<Rightarrow> fieldmap option" where
  "rewrite_dicts view [] out = Some out"
| "rewrite_dicts view ((key, b) # ds) out =
     (case substituteDictTarget out key (view b) of None \<Rightarrow> None | Some out' \<Rightarrow> rewrite_dicts view ds out')"

definition run_rewrite :: "Cache \<Rightarrow> plan \<Rightarrow> string \<Rightarrow> fieldmap \<Rightarrow> fieldmap option" where
  "run_rewrite c p recipientHex flds =
     (case rewrite_dicts (\<lambda>b. ViewFor (bubble_at c b) recipientHex) (dicts p) flds of
        None \<Rightarrow> None
      | Some out \<Rightarrow>
          (case replyBubble p of
             None \<Rightarrow> Some out
           | Some b \<Rightarrow>
               (case substituteReplyHash out (ViewFor (bubble_at c b) recipientHex) of
                  None \<Rightarrow> Some (stripReplyHash out)
                | Some out' \<Rightarrow> Some out')))"

section \<open>Policy and sanitizing\<close>

text \<open>The fields the operator lets through.\<close>

definition field_allowed :: "(gval \<Rightarrow> nat option) \<Rightarrow> ServiceConfig \<Rightarrow> gval \<Rightarrow> gval \<Rightarrow> bool" where
  "field_allowed enc_size cfg k v \<longleftrightarrow> (\<exists>ki sz. keyAsInt k = Some ki \<and> ki \<in> set (ForwardedFields cfg)
     \<and> enc_size v = Some sz \<and> (MaxAttachmentBytes cfg \<le> 0 \<or> int sz \<le> MaxAttachmentBytes cfg))"

definition field_oversize :: "(gval \<Rightarrow> nat option) \<Rightarrow> ServiceConfig \<Rightarrow> gval \<Rightarrow> gval \<Rightarrow> bool" where
  "field_oversize enc_size cfg k v \<longleftrightarrow> (\<exists>ki sz. keyAsInt k = Some ki \<and> ki \<in> set (ForwardedFields cfg)
     \<and> enc_size v = Some sz \<and> 0 < MaxAttachmentBytes cfg \<and> MaxAttachmentBytes cfg < int sz)"

lemma filter_loop_exact:
  "fst (filter_loop enc_size cfg fs) = filter (\<lambda>(k, v). field_allowed enc_size cfg k v) fs
    \<and> length (snd (filter_loop enc_size cfg fs)) = length (filter (\<lambda>(k, v). field_oversize enc_size cfg k v) fs)"
  by (induction enc_size cfg fs rule: filter_loop.induct)
     (auto simp: Let_def case_prod_unfold field_allowed_def field_oversize_def split: option.splits)

text \<open>The attachment policy is exact: with forwarding on, the fields that go out are those whose key the operator
  lists and whose encoded size is within the limit, in their order, and each listed field over the limit leaves
  one note; with forwarding off nothing goes out.\<close>

theorem filterAttachments_exact:
  "filterAttachments enc_size fs cfg =
     (if ForwardAttachments cfg
      then (filter (\<lambda>(k, v). field_allowed enc_size cfg k v) fs, snd (filterAttachments enc_size fs cfg))
      else ([], []))
   \<and> length (snd (filterAttachments enc_size fs cfg)) =
      (if ForwardAttachments cfg then length (filter (\<lambda>(k, v). field_oversize enc_size cfg k v) fs) else 0)"
  using filter_loop_exact [of enc_size cfg fs] by (auto simp: filterAttachments_def prod_eq_iff)

text \<open>Sanitizing leaves no terminal control byte, changes nothing else, keeps the length, and is idempotent.\<close>

theorem sanitizeForward_clean:
  "filter control_byte (sanitizeForward s) = [] \<and> length (sanitizeForward s) = length s
    \<and> sanitizeForward (sanitizeForward s) = sanitizeForward s
    \<and> map (\<lambda>c. if control_byte c then CHR ''?'' else c) s = sanitizeForward s"
proof -
  have q: "\<not> control_byte (CHR ''?'')" by (simp add: control_byte_def)
  have m: "map (\<lambda>c. if control_byte c then CHR ''?'' else c) s = sanitizeForward s"
    by (auto simp: sanitizeForward_def needsSanitize_def list_ex_iff intro!: map_idI)
  then have "\<not> needsSanitize (sanitizeForward s)" "filter control_byte (sanitizeForward s) = []"
    using q by (auto simp: needsSanitize_def list_ex_iff filter_empty_conv simp flip: m)
  moreover have "length (sanitizeForward s) = length s" by (metis length_map m)
  moreover have "sanitizeForward (sanitizeForward s) = sanitizeForward s"
    using calculation by (simp add: sanitizeForward_def [of "sanitizeForward s"])
  ultimately show ?thesis using m by blast
qed

section \<open>The viewer interface\<close>

text \<open>\<open>substituteDictTarget\<close> and \<open>substituteReplyHash\<close> see a bubble through \<open>viewer\<close>: a view is the hexadecimal
  form of a message id. Under that law a missing view is the only reason to fail.\<close>

lemma dict_some: "hex_decode s = Some raw \<Longrightarrow> substituteDictTarget fs key (Some s) \<noteq> None"
  by (induction fs) (auto split: option.splits prod.splits)

lemma reply_some: "hex_decode s = Some raw \<Longrightarrow> substituteReplyHash fs (Some s) \<noteq> None"
  by (induction fs) auto

locale viewer =
  fixes view_for :: "'b \<Rightarrow> string \<Rightarrow> string option" and ok :: "'b \<Rightarrow> bool"
  assumes hex: "ok b \<Longrightarrow> view_for b r = Some s \<Longrightarrow> \<exists>raw. s = hex_encode raw"
begin

lemma view_cases:
  assumes "ok b"
  obtains "view_for b r = None" | raw where "view_for b r = Some (hex_encode raw)"
  using hex [OF assms] by (cases "view_for b r") auto

lemma dict_total: "ok b \<Longrightarrow> view_for b r \<noteq> None \<Longrightarrow> substituteDictTarget fs key (view_for b r) \<noteq> None"
  using hex dict_some by (metis hex_decode_encode option.exhaust)

lemma reply_total: "ok b \<Longrightarrow> view_for b r \<noteq> None \<Longrightarrow> substituteReplyHash fs (view_for b r) \<noteq> None"
  using hex reply_some by (metis hex_decode_encode option.exhaust)

end

text \<open>The queue registers \<open>hex.EncodeToString(msgID)\<close>, so a bubble's views are hexadecimal.\<close>

definition bubble_ok :: "Bubble \<Rightarrow> bool" where
  "bubble_ok b \<longleftrightarrow> (\<forall>(r, s) \<in> set (views b). \<exists>raw. s = hex_encode raw)"

interpretation bubble: viewer ViewFor bubble_ok
  by unfold_locales (auto simp: bubble_ok_def ViewFor_def dest!: map_of_SomeD)

section \<open>Binding references\<close>

definition plain :: "fieldmap \<Rightarrow> bool" where
  "plain fs \<longleftrightarrow> (\<forall>(k, v) \<in> set fs. keyAsInt k \<notin> Some ` {fieldReplyTo, fieldReaction, fieldComment, fieldContinuation})"

lemma plain_Nil [simp]: "plain []"
  by (simp add: plain_def)

lemma plain_Cons: "plain ((k, v) # fs) \<longleftrightarrow>
    keyAsInt k \<notin> Some ` {fieldReplyTo, fieldReaction, fieldComment, fieldContinuation} \<and> plain fs"
  by (auto simp: plain_def)

lemma scan_plain: "plain fs \<Longrightarrow> scan_fields c now (fs @ gs) p = scan_fields c now gs p"
  by (induction fs) (auto simp: plain_Cons split: option.splits)

lemma dict_plain: "plain fs \<Longrightarrow> key \<in> {fieldReaction, fieldComment, fieldContinuation} \<Longrightarrow>
    substituteDictTarget (fs @ gs) key w = map_option (\<lambda>x. fs @ x) (substituteDictTarget gs key w)"
  by (induction fs; cases "substituteDictTarget gs key w") (auto simp: plain_Cons)

lemma reply_plain: "plain fs \<Longrightarrow>
    substituteReplyHash (fs @ gs) w = map_option (\<lambda>x. fs @ x) (substituteReplyHash gs w)"
  by (induction fs; cases "substituteReplyHash gs w") (auto simp: plain_Cons)

lemma strip_plain: "plain fs \<Longrightarrow> stripReplyHash fs = fs"
  by (induction fs) (auto simp: plain_Cons stripReplyHash_def)

lemma dict_target_hit:
  "target_key m = Some tk \<Longrightarrow> map_of m tk = Some (GBin tgt) \<Longrightarrow> dict_target m = hex_encode tgt"
proof (induction m)
  case (Cons e m)
  obtain mk mv where e: "e = (mk, mv)" by (cases e)
  show ?case
  proof (cases "keyAsInt mk = Some targetIdx")
    case True
    with Cons.prems have "mv = GBin tgt" by (simp add: e target_key_def split: if_splits)
    with True show ?thesis by (simp add: e asHashBytes_def)
  next
    case False
    with Cons.prems have tk: "target_key m = Some tk" by (simp add: e target_key_def)
    then have "keyAsInt tk = Some targetIdx" by (auto simp: target_key_def find_Some_iff)
    with False Cons.prems have "map_of m tk = Some (GBin tgt)" by (auto simp: e split: if_splits)
    with Cons.IH [OF tk] False show ?thesis by (simp add: e)
  qed
qed (simp add: target_key_def)



text \<open>A bubble sent to two members, in a cache that holds it.\<close>

definition two_views :: Cache where
  "two_views = \<lparr>ttl = 100, maxSize = 10, byMsgID = [(hex_encode [1, 2], 0), (hex_encode [3, 4], 0)], lru = [0],
     heap = [(0, \<lparr>views = [(''aa'', hex_encode [1, 2]), (''bb'', hex_encode [3, 4])], expiresAt = 100\<rparr>)]\<rparr>"

lemma two_views_lookup: "Lookup two_views 50 (hex_encode [1, 2]) = (two_views, Some 0)" "bubble_ok (bubble_at two_views 0)"
  by (auto simp: two_views_def Lookup_def bubble_at_def bubble_ok_def)



end
