(* ===== verification/Outbound.thy ===== *)
theory Outbound
  imports Rewrite "HOL-Library.Option_ord"
begin

text \<open>
  The outbound queue, \<open>internal/service/outbound.go\<close>: enqueueing, the choice of the next message, the
  two critical sections of an attempt around the unlocked send, retry and failure, and the persisted
  form. A queued message is a pointer (a number) with its contents. The sender's answers
  (\<open>SendLXMF\<close>, \<open>LastAnnounceFor\<close>), the clock and the random message ids are arguments. The
  interleaving of the workers is a step relation.
\<close>

section \<open>State\<close>

record outboundMessage =
  ID :: string
  Recipient :: bytes
  Body :: bytes
  MFields :: fieldmap
  MBubble :: "nat option"
  Attempts :: int
  NextAttempt :: time
  EnqueuedAt :: time

text \<open>The store: the saved messages, absent before the first save, and the errors the file system would
  give.\<close>

record outboundStore =
  saved :: "outboundMessage list option"
  load_err :: "string option"
  save_err :: "string option"

record OutboundQueue =
  pending :: "(nat \<times> outboundMessage) list"
  inFlight :: "string list"
  next_ptr :: nat
  q_store :: "outboundStore option"
  retryWait :: duration
  pathRequestWait :: duration
  maxAttempts :: int
  pathlessTries :: int
  workers :: nat

datatype send_result = SendOK bytes | SendErr bool

definition maxDeliveryAttempts :: int where "maxDeliveryAttempts = 5"
definition deliveryRetryWait :: duration where "deliveryRetryWait = 10 * second"
definition pathRequestWait_const :: duration where "pathRequestWait_const = 7 * second"
definition maxPathlessTries :: int where "maxPathlessTries = 1"
definition outboundWorkers :: nat where "outboundWorkers = 4"

definition newOutboundQueue :: "outboundStore option \<Rightarrow> OutboundQueue" where
  "newOutboundQueue st = \<lparr>pending = [], inFlight = [], next_ptr = 0, q_store = st, retryWait = deliveryRetryWait,
     pathRequestWait = pathRequestWait_const, maxAttempts = maxDeliveryAttempts, pathlessTries = maxPathlessTries,
     workers = outboundWorkers\<rparr>"

section \<open>Persistence\<close>

text \<open>What the JSON file keeps of a message: \<open>Fields\<close> and \<open>Bubble\<close> are \<open>json:"-"\<close>.\<close>

definition json_msg :: "outboundMessage \<Rightarrow> outboundMessage" where
  "json_msg m = m\<lparr>MFields := [], MBubble := None\<rparr>"

definition save_store :: "outboundStore \<Rightarrow> outboundMessage list \<Rightarrow> outboundStore \<times> string option" where
  "save_store s ms = (case save_err s of
       Some e \<Rightarrow> (s, Some e)
     | None \<Rightarrow> (s\<lparr>saved := Some (map json_msg ms)\<rparr>, None))"

definition load_store :: "outboundStore \<Rightarrow> string + outboundMessage list" where
  "load_store s = (case load_err s of Some e \<Rightarrow> Inl e | None \<Rightarrow> Inr (case saved s of None \<Rightarrow> [] | Some ms \<Rightarrow> ms))"

definition persist_queue :: "OutboundQueue \<Rightarrow> OutboundQueue" where
  "persist_queue q = (case q_store q of
       None \<Rightarrow> q
     | Some s \<Rightarrow> q\<lparr>q_store := Some (fst (save_store s (map snd (pending q))))\<rparr>)"

definition Load_queue :: "OutboundQueue \<Rightarrow> string + OutboundQueue" where
  "Load_queue q = (case q_store q of
       None \<Rightarrow> Inr q
     | Some s \<Rightarrow> (case load_store s of
           Inl e \<Rightarrow> Inl e
         | Inr ms \<Rightarrow> Inr (q\<lparr>pending := zip [next_ptr q..<next_ptr q + length ms] ms,
                            next_ptr := next_ptr q + length ms\<rparr>)))"

section \<open>Operations\<close>

definition EnqueueBubble ::
    "OutboundQueue \<Rightarrow> string \<Rightarrow> time \<Rightarrow> bytes \<Rightarrow> bytes \<Rightarrow> fieldmap \<Rightarrow> nat option \<Rightarrow> OutboundQueue" where
  "EnqueueBubble q mid now recipient body flds bubble =
     (let msg = \<lparr>ID = mid, Recipient = recipient, Body = body, MFields = flds, MBubble = bubble, Attempts = 0,
                  NextAttempt = 0, EnqueuedAt = now\<rparr>
      in persist_queue (q\<lparr>pending := pending q @ [(next_ptr q, msg)], next_ptr := Suc (next_ptr q)\<rparr>))"

definition EnqueueWithFields :: "OutboundQueue \<Rightarrow> string \<Rightarrow> time \<Rightarrow> bytes \<Rightarrow> bytes \<Rightarrow> fieldmap \<Rightarrow> OutboundQueue" where
  "EnqueueWithFields q mid now recipient body flds = EnqueueBubble q mid now recipient body flds None"

definition Enqueue :: "OutboundQueue \<Rightarrow> string \<Rightarrow> time \<Rightarrow> bytes \<Rightarrow> bytes \<Rightarrow> OutboundQueue" where
  "Enqueue q mid now recipient body = EnqueueWithFields q mid now recipient body []"

definition pendingCount :: "OutboundQueue \<Rightarrow> nat" where
  "pendingCount q = length (pending q)"

text \<open>Whether \<open>pickDue\<close> may take a message.\<close>

definition available :: "OutboundQueue \<Rightarrow> time \<Rightarrow> outboundMessage \<Rightarrow> bool" where
  "available q now m \<longleftrightarrow> ID m \<notin> set (inFlight q) \<and> \<not> (NextAttempt m \<noteq> 0 \<and> NextAttempt m > now)"

fun pick_loop :: "OutboundQueue \<Rightarrow> time \<Rightarrow> (bytes \<Rightarrow> time option)
    \<Rightarrow> (nat \<times> outboundMessage) option \<Rightarrow> (nat \<times> outboundMessage) list \<Rightarrow> (nat \<times> outboundMessage) option" where
  "pick_loop q now seen best [] = best"
| "pick_loop q now seen best ((p, m) # ms) =
     (if \<not> available q now m then pick_loop q now seen best ms
      else case best of
        None \<Rightarrow> pick_loop q now seen (Some (p, m)) ms
      | Some (bp, bm) \<Rightarrow>
          (case (seen (Recipient m), seen (Recipient bm)) of
             (Some t, None) \<Rightarrow> pick_loop q now seen (Some (p, m)) ms
           | (Some t, Some bt) \<Rightarrow> pick_loop q now seen (if t > bt then Some (p, m) else best) ms
           | (None, _) \<Rightarrow> pick_loop q now seen best ms))"

definition pickDue :: "OutboundQueue \<Rightarrow> time \<Rightarrow> (bytes \<Rightarrow> time option) \<Rightarrow> OutboundQueue \<times> nat option" where
  "pickDue q now seen =
     (case pick_loop q now seen None (pending q) of
        None \<Rightarrow> (q, None)
      | Some (p, m) \<Rightarrow> (q\<lparr>inFlight := List.insert (ID m) (inFlight q)\<rparr>, Some p))"

definition modify :: "nat \<Rightarrow> (outboundMessage \<Rightarrow> outboundMessage) \<Rightarrow> OutboundQueue \<Rightarrow> OutboundQueue" where
  "modify p f q = q\<lparr>pending := map (\<lambda>e. (fst e, if fst e = p then f (snd e) else snd e)) (pending q)\<rparr>"

text \<open>\<open>attempt\<close>, first critical section: count the attempt.\<close>

definition attempt_begin :: "OutboundQueue \<Rightarrow> nat \<Rightarrow> OutboundQueue" where
  "attempt_begin q p = modify p (\<lambda>m. m\<lparr>Attempts := Attempts m + 1\<rparr>) q"

text \<open>Between the critical sections: a delivered copy of a bubble is registered in the id cache.\<close>

definition register_sent :: "Cache option \<Rightarrow> time \<Rightarrow> outboundMessage \<Rightarrow> send_result \<Rightarrow> Cache option" where
  "register_sent idm now m res =
     (case (idm, MBubble m, res) of
        (Some c, Some b, SendOK msgID) \<Rightarrow>
          if length msgID > 0 then Some (RegisterView c now (Some b) (hex_encode (Recipient m)) (hex_encode msgID))
          else Some c
      | _ \<Rightarrow> idm)"

definition removeLocked :: "OutboundQueue \<Rightarrow> nat \<Rightarrow> OutboundQueue" where
  "removeLocked q p = q\<lparr>pending := filter (\<lambda>(p', m). p' \<noteq> p) (pending q)\<rparr>"

definition failLocked :: "OutboundQueue \<Rightarrow> nat \<Rightarrow> OutboundQueue" where
  "failLocked q p = persist_queue (removeLocked q p)"

text \<open>\<open>attempt\<close>, second critical section; \<open>attempts\<close> is the count read in the first one.
  \<open>SendErr unknown\<close> says whether \<open>isRecipientUnknown\<close> holds of the error.\<close>

definition attempt_end :: "OutboundQueue \<Rightarrow> time \<Rightarrow> nat \<Rightarrow> string \<Rightarrow> int \<Rightarrow> send_result \<Rightarrow> OutboundQueue" where
  "attempt_end q now p mid attempts res =
     (let q' = (case res of
            SendOK _ \<Rightarrow> persist_queue (removeLocked q p)
          | SendErr unknown \<Rightarrow>
              if attempts \<ge> maxAttempts q then failLocked q p
              else if unknown \<and> attempts > pathlessTries q
                then persist_queue (modify p (\<lambda>m. m\<lparr>NextAttempt := now + pathRequestWait q\<rparr>) q)
              else persist_queue (modify p (\<lambda>m. m\<lparr>NextAttempt := now + retryWait q\<rparr>) q))
      in q'\<lparr>inFlight := removeAll mid (inFlight q')\<rparr>)"

text \<open>Whether that critical section also asks the transport for a path.\<close>

definition requests_path :: "OutboundQueue \<Rightarrow> int \<Rightarrow> send_result \<Rightarrow> bool" where
  "requests_path q attempts res \<longleftrightarrow> res = SendErr True \<and> attempts < maxAttempts q \<and> attempts > pathlessTries q"

section \<open>The choice of the next message\<close>

text \<open>How recently the recipient announced; a recipient never heard of comes last.\<close>

definition rank :: "(bytes \<Rightarrow> time option) \<Rightarrow> outboundMessage \<Rightarrow> time option" where
  "rank seen m = seen (Recipient m)"

lemma pick_loop_None: "pick_loop q now seen best ms = None \<longleftrightarrow> best = None \<and> (\<forall>(p, m) \<in> set ms. \<not> available q now m)"
  by (induction q now seen best ms rule: pick_loop.induct) (auto split: option.splits)

lemma pick_loop_spec:
  "pick_loop q now seen best ms = Some (p, m) \<Longrightarrow>
     best = Some (p, m) \<and> (\<forall>(p', m') \<in> set ms. available q now m' \<longrightarrow> rank seen m' \<le> rank seen m)
   \<or> (\<exists>as bs. ms = as @ (p, m) # bs \<and> available q now m
        \<and> (\<forall>(p', m') \<in> set as. available q now m' \<longrightarrow> rank seen m' < rank seen m)
        \<and> (\<forall>bp bm. best = Some (bp, bm) \<longrightarrow> rank seen bm < rank seen m)
        \<and> (\<forall>(p', m') \<in> set bs. available q now m' \<longrightarrow> rank seen m' \<le> rank seen m))"
proof (induction ms arbitrary: best)
  case (Cons e ms)
  obtain p1 m1 where e: "e = (p1, m1)" by (cases e)
  define best' where "best' = (if available q now m1 \<and> (\<forall>bp bm. best = Some (bp, bm) \<longrightarrow> rank seen bm < rank seen m1)
    then Some (p1, m1) else best)"
  have "pick_loop q now seen best (e # ms) = pick_loop q now seen best' ms"
    by (cases best) (auto simp: e best'_def rank_def split: option.splits)
  with Cons.prems have "pick_loop q now seen best' ms = Some (p, m)" by simp
  from Cons.IH [OF this] show ?case
  proof (elim disjE exE conjE)
    assume b: "best' = Some (p, m)" and r: "\<forall>(p', m') \<in> set ms. available q now m' \<longrightarrow> rank seen m' \<le> rank seen m"
    show ?thesis
    proof (cases "best' = best")
      case False
      with b have "(p1, m1) = (p, m)" "available q now m" "\<forall>bp bm. best = Some (bp, bm) \<longrightarrow> rank seen bm < rank seen m"
        by (auto simp: best'_def split: if_splits)
      with r e show ?thesis by (intro disjI2 exI [of _ "[]"] exI [of _ ms]) auto
    next
      case True
      with b have "best = Some (p, m)" "available q now m1 \<longrightarrow> rank seen m1 \<le> rank seen m"
        by (auto simp: best'_def not_less split: if_splits)
      with r e show ?thesis by auto
    qed
  next
    fix as bs
    assume ms: "ms = as @ (p, m) # bs" and av: "available q now m"
      and pre: "\<forall>(p', m') \<in> set as. available q now m' \<longrightarrow> rank seen m' < rank seen m"
      and bb: "\<forall>bp bm. best' = Some (bp, bm) \<longrightarrow> rank seen bm < rank seen m"
      and post: "\<forall>(p', m') \<in> set bs. available q now m' \<longrightarrow> rank seen m' \<le> rank seen m"
    have e1: "available q now m1 \<longrightarrow> rank seen m1 < rank seen m"
    proof
      assume "available q now m1"
      with bb show "rank seen m1 < rank seen m"
        by (cases "best' = Some (p1, m1)") (auto simp: best'_def not_less split: if_splits intro: order.strict_trans1)
    qed
    moreover have "\<forall>bp bm. best = Some (bp, bm) \<longrightarrow> rank seen bm < rank seen m"
      using bb by (auto simp: best'_def split: if_splits intro: order.strict_trans)
    ultimately show ?thesis
      using ms av pre post e by (intro disjI2 exI [of _ "(p1, m1) # as"] exI [of _ bs]) auto
  qed
qed simp

text \<open>\<open>pickDue\<close> takes nothing only when no message is due and free; otherwise it takes, among those, one whose
  recipient announced most recently, the earliest enqueued of equals, and marks it in flight.\<close>

theorem pickDue_best:
  "(snd (pickDue q now seen) = None \<longleftrightarrow> filter (\<lambda>(p, m). available q now m) (pending q) = [])
   \<and> (case snd (pickDue q now seen) of None \<Rightarrow> fst (pickDue q now seen) = q
      | Some p \<Rightarrow> \<exists>as m bs. pending q = as @ (p, m) # bs \<and> available q now m
          \<and> filter (\<lambda>(p', m'). available q now m' \<and> \<not> rank seen m' < rank seen m) as = []
          \<and> filter (\<lambda>(p', m'). available q now m' \<and> \<not> rank seen m' \<le> rank seen m) bs = []
          \<and> fst (pickDue q now seen) = q\<lparr>inFlight := List.insert (ID m) (inFlight q)\<rparr>)"
proof (cases "pick_loop q now seen None (pending q)")
  case None
  then have "pickDue q now seen = (q, None)" by (simp add: pickDue_def)
  moreover have "filter (\<lambda>(p, m). available q now m) (pending q) = []"
    using None [unfolded pick_loop_None] by (auto simp: filter_empty_conv)
  ultimately show ?thesis by simp
next
  case (Some e)
  obtain p m where e: "e = (p, m)" by (cases e)
  from pick_loop_spec [OF Some [unfolded e]] obtain as bs where s: "pending q = as @ (p, m) # bs" "available q now m"
    "\<forall>(p', m') \<in> set as. available q now m' \<longrightarrow> rank seen m' < rank seen m"
    "\<forall>(p', m') \<in> set bs. available q now m' \<longrightarrow> rank seen m' \<le> rank seen m" by auto
  then have f: "filter (\<lambda>(p', m'). available q now m' \<and> \<not> rank seen m' < rank seen m) as = []"
    "filter (\<lambda>(p', m'). available q now m' \<and> \<not> rank seen m' \<le> rank seen m) bs = []"
    by (auto simp: filter_empty_conv)
  have "filter (\<lambda>(p, m). available q now m) (pending q) \<noteq> []" using s by (auto simp: filter_empty_conv)
  with s f Some e show ?thesis by (auto simp: pickDue_def simp del: filter_False)
qed

section \<open>Workers\<close>

text \<open>The state of a run: the queue, and the messages the workers hold, each with the attempt count it read
  once its attempt has begun. A fresh message id differs from those in the queue.\<close>

type_synonym run = "OutboundQueue \<times> (nat \<times> int option) list"

inductive queue_step :: "run \<Rightarrow> run \<Rightarrow> bool" where
  enqueue: "mid \<notin> (ID \<circ> snd) ` set (pending q) \<Longrightarrow>
    queue_step (q, h) (EnqueueBubble q mid now recipient body flds bubble, h)"
| pick: "pickDue q now seen = (q', Some p) \<Longrightarrow> queue_step (q, h) (q', (p, None) # h)"
| start: "(p, None) \<in> set h \<Longrightarrow> map_of (pending q) p = Some m \<Longrightarrow>
    queue_step (q, h) (attempt_begin q p, (p, Some (Attempts m + 1)) # remove1 (p, None) h)"
| finish: "(p, Some a) \<in> set h \<Longrightarrow> map_of (pending q) p = Some m \<Longrightarrow>
    queue_step (q, h) (attempt_end q now p (ID m) a res, remove1 (p, Some a) h)"

inductive queue_reach :: "run \<Rightarrow> run \<Rightarrow> bool" for s0 where
  here: "queue_reach s0 s0"
| step: "queue_reach s0 s \<Longrightarrow> queue_step s s' \<Longrightarrow> queue_reach s0 s'"

text \<open>Attempt counts: a message whose attempt has begun has the count its worker read, at most the limit; any
  other message is below the limit.\<close>

definition count_ok :: "int \<Rightarrow> (nat \<times> int option) list \<Rightarrow> nat \<times> outboundMessage \<Rightarrow> bool" where
  "count_ok mx h e \<longleftrightarrow> 0 \<le> Attempts (snd e) \<and> Attempts (snd e) \<le> mx
     \<and> (\<forall>a. (fst e, Some a) \<in> set h \<longrightarrow> Attempts (snd e) = a)
     \<and> ((\<forall>a. (fst e, Some a) \<notin> set h) \<longrightarrow> Attempts (snd e) < mx)"

definition queue_inv :: "run \<Rightarrow> bool" where
  "queue_inv s \<longleftrightarrow> (case s of (q, h) \<Rightarrow>
     distinct (map fst (pending q)) \<and> (\<forall>e \<in> set (pending q). fst e < next_ptr q)
     \<and> distinct (map (ID \<circ> snd) (pending q))
     \<and> distinct (map fst h) \<and> fst ` set h \<subseteq> fst ` set (pending q)
     \<and> set (inFlight q) = (ID \<circ> snd) ` {e \<in> set (pending q). fst e \<in> fst ` set h}
     \<and> (\<forall>e \<in> set (pending q). count_ok (maxAttempts q) h e))"

lemma persist_queue_fields [simp]:
  "pending (persist_queue q) = pending q" "inFlight (persist_queue q) = inFlight q" "next_ptr (persist_queue q) = next_ptr q"
  "maxAttempts (persist_queue q) = maxAttempts q" "retryWait (persist_queue q) = retryWait q"
  "pathRequestWait (persist_queue q) = pathRequestWait q"
  by (simp_all add: persist_queue_def split: option.splits)

lemma modify_fields [simp]:
  "inFlight (modify p f q) = inFlight q" "next_ptr (modify p f q) = next_ptr q" "maxAttempts (modify p f q) = maxAttempts q"
  "map fst (pending (modify p f q)) = map fst (pending q)"
  by (simp_all add: modify_def)

lemma modify_set: "e \<in> set (pending (modify p f q)) \<longleftrightarrow>
    (\<exists>m. (fst e, m) \<in> set (pending q) \<and> snd e = (if fst e = p then f m else m))"
  by (cases e) (force simp: modify_def)

lemma modify_ids: "(\<And>m. ID (f m) = ID m) \<Longrightarrow> map (ID \<circ> snd) (pending (modify p f q)) = map (ID \<circ> snd) (pending q)"
  by (simp add: modify_def)

lemma remove1_distinct_fst:
  "distinct (map fst h) \<Longrightarrow> (p, x) \<in> set h \<Longrightarrow>
     set (remove1 (p, x) h) = set h - {(p, x)} \<and> distinct (map fst (remove1 (p, x) h))
     \<and> fst ` set (remove1 (p, x) h) = fst ` set h - {p}"
proof -
  assume d: "distinct (map fst h)" "(p, x) \<in> set h"
  then have "distinct h" by (simp add: distinct_map)
  then have s: "set (remove1 (p, x) h) = set h - {(p, x)}" by simp
  moreover have "distinct (map fst (remove1 (p, x) h))"
    using d(1) \<open>distinct h\<close> inj_on_subset [of fst "set h" "set h - {(p, x)}"] by (simp add: distinct_map s)
  moreover have "fst ` (set h - {(p, x)}) = fst ` set h - {p}"
    using d inj_on_image_set_diff [of fst "set h" "set h" "{(p, x)}"] by (simp add: distinct_map)
  ultimately show ?thesis by simp
qed

lemma queue_invI:
  assumes "distinct (map fst (pending q))" "\<And>e. e \<in> set (pending q) \<Longrightarrow> fst e < next_ptr q"
    "distinct (map (ID \<circ> snd) (pending q))" "distinct (map fst h)" "fst ` set h \<subseteq> fst ` set (pending q)"
    "set (inFlight q) = (ID \<circ> snd) ` {e \<in> set (pending q). fst e \<in> fst ` set h}"
    "\<And>e. e \<in> set (pending q) \<Longrightarrow> count_ok (maxAttempts q) h e"
  shows "queue_inv (q, h)"
  using assms by (simp add: queue_inv_def)

lemma queue_invD:
  assumes "queue_inv (q, h)"
  shows "distinct (map fst (pending q))" "\<And>e. e \<in> set (pending q) \<Longrightarrow> fst e < next_ptr q"
    "distinct (map (ID \<circ> snd) (pending q))" "distinct (map fst h)" "fst ` set h \<subseteq> fst ` set (pending q)"
    "set (inFlight q) = (ID \<circ> snd) ` {e \<in> set (pending q). fst e \<in> fst ` set h}"
    "\<And>e. e \<in> set (pending q) \<Longrightarrow> count_ok (maxAttempts q) h e"
  using assms by (simp_all add: queue_inv_def)

lemma in_flight_iff:
  assumes "queue_inv (q, h)" and "e \<in> set (pending q)"
  shows "ID (snd e) \<in> set (inFlight q) \<longleftrightarrow> fst e \<in> fst ` set h"
proof
  assume "ID (snd e) \<in> set (inFlight q)"
  then obtain e' where e': "e' \<in> set (pending q)" "fst e' \<in> fst ` set h" "ID (snd e) = ID (snd e')"
    by (auto simp: queue_invD(6) [OF assms(1)])
  with queue_invD(3) [OF assms(1)] assms(2) have "e = e'" by (auto simp: distinct_map inj_on_def)
  with e' show "fst e \<in> fst ` set h" by simp
qed (use assms in \<open>auto simp: queue_invD(6) [OF assms(1)]\<close>)

lemma enqueue_inv:
  assumes inv: "queue_inv (q, h)" and "mid \<notin> (ID \<circ> snd) ` set (pending q)" and "0 < maxAttempts q"
  shows "queue_inv (EnqueueBubble q mid now recipient body flds bubble, h)"
proof -
  note i = queue_invD [OF inv]
  have new: "next_ptr q \<notin> fst ` set (pending q)" using i(2) by force
  then have nh: "next_ptr q \<notin> fst ` set h" using i(5) by blast
  have "{e \<in> insert (next_ptr q, m) (set (pending q)). fst e \<in> fst ` set h} = {e \<in> set (pending q). fst e \<in> fst ` set h}" for m
    using nh by force
  moreover have "count_ok (maxAttempts q) h (next_ptr q, m)" if "Attempts m = 0" for m
    using that nh assms(3) by (force simp: count_ok_def)
  ultimately show ?thesis
    using i new assms(2) by (intro queue_invI) (auto simp: EnqueueBubble_def Let_def less_Suc_eq image_iff)
qed

lemma pick_inv:
  assumes inv: "queue_inv (q, h)" and "pickDue q now seen = (q', Some p)"
  shows "queue_inv (q', (p, None) # h)"
proof -
  note i = queue_invD [OF inv]
  from pickDue_best [of q now seen] assms(2) obtain as m bs where
    m: "pending q = as @ (p, m) # bs" "available q now m" "q' = q\<lparr>inFlight := List.insert (ID m) (inFlight q)\<rparr>" by auto
  then have e: "(p, m) \<in> set (pending q)" by simp
  with in_flight_iff [OF inv e] m(2) have np: "p \<notin> fst ` set h" by (simp add: available_def)
  have "{e \<in> set (pending q). fst e \<in> fst ` set ((p, None) # h)} = insert (p, m) {e \<in> set (pending q). fst e \<in> fst ` set h}"
    using e i(1) by (auto simp: distinct_map dest: inj_onD) (metis eq_key_imp_eq_value i(1))
  with i(6) have "set (inFlight q') = (ID \<circ> snd) ` {e \<in> set (pending q'). fst e \<in> fst ` set ((p, None) # h)}"
    by (simp add: m(3))
  moreover have "count_ok mx ((p, None) # h) e" if "count_ok mx h e" for mx e
    using that by (auto simp: count_ok_def)
  moreover have "p \<in> fst ` set (pending q)" using e by force
  ultimately show ?thesis
    using i np by (intro queue_invI) (auto simp: m(3))
qed

lemma start_inv:
  assumes inv: "queue_inv (q, h)" and "(p, None) \<in> set h" and m: "map_of (pending q) p = Some m"
  shows "queue_inv (attempt_begin q p, (p, Some (Attempts m + 1)) # remove1 (p, None) h)"
proof -
  note i = queue_invD [OF inv] and r = remove1_distinct_fst [OF queue_invD(4) [OF inv] assms(2)]
  let ?h = "(p, Some (Attempts m + 1)) # remove1 (p, None) h" and ?q = "attempt_begin q p"
  have e: "(p, m) \<in> set (pending q)" using m by (rule map_of_SomeD)
  have no: "(p, Some a) \<notin> set h" for a using i(4) assms(2) by (metis eq_key_imp_eq_value option.distinct(1))
  have "p \<in> fst ` set h" using assms(2) by force
  then have fh: "fst ` set ?h = fst ` set h" using r by auto
  have ids: "map (ID \<circ> snd) (pending ?q) = map (ID \<circ> snd) (pending q)" by (simp add: attempt_begin_def modify_ids)
  have fsts: "map fst (pending ?q) = map fst (pending q)" by (simp add: attempt_begin_def)
  have fs: "fst ` set (pending ?q) = fst ` set (pending q)" by (metis fsts list.set_map)
  have "(ID \<circ> snd) ` {e \<in> set (pending ?q). fst e \<in> X} = (ID \<circ> snd) ` {e \<in> set (pending q). fst e \<in> X}" for X
    by (force simp: attempt_begin_def modify_def)
  moreover have "count_ok (maxAttempts ?q) ?h e'" if "e' \<in> set (pending ?q)" for e'
  proof -
    from that obtain m' where m': "(fst e', m') \<in> set (pending q)"
      "snd e' = (if fst e' = p then m'\<lparr>Attempts := Attempts m' + 1\<rparr> else m')" by (auto simp: attempt_begin_def modify_set)
    have c: "count_ok (maxAttempts q) h (fst e', m')" by (rule i(7) [OF m'(1)])
    show ?thesis
    proof (cases "fst e' = p")
      case True
      then have "m' = m" using m' e i(1) by (metis eq_key_imp_eq_value)
      with c True m' no r show ?thesis by (auto simp: count_ok_def attempt_begin_def)
    next
      case False
      with c m' r show ?thesis by (simp add: count_ok_def attempt_begin_def)
    qed
  qed
  moreover have "p \<notin> fst ` set (remove1 (p, None) h)" using r by blast
  then have "distinct (map fst ?h)" using r by simp
  moreover have "fst e' < next_ptr ?q" if "e' \<in> set (pending ?q)" for e'
    using that i(2) by (force simp: attempt_begin_def modify_set)
  moreover have "inFlight ?q = inFlight q" by (simp add: attempt_begin_def)
  ultimately show ?thesis
    using i(1,3,5,6) fh ids fsts fs by (intro queue_invI) simp_all
qed

lemma fst_filter_neq: "fst ` set (filter (\<lambda>x. fst x \<noteq> p) xs) = fst ` set xs - {p}"
  by (induction xs) auto

lemma finish_inv:
  assumes inv: "queue_inv (q, h)" and "(p, Some a) \<in> set h" and m: "map_of (pending q) p = Some m"
  shows "queue_inv (attempt_end q now p (ID m) a res, remove1 (p, Some a) h)"
proof -
  note i = queue_invD [OF inv] and r = remove1_distinct_fst [OF queue_invD(4) [OF inv] assms(2)]
  let ?h = "remove1 (p, Some a) h"
  have e: "(p, m) \<in> set (pending q)" using m by (rule map_of_SomeD)
  have others: "(ID \<circ> snd) ` {e \<in> set (pending q). fst e \<in> fst ` set h} - {ID m}
      = (ID \<circ> snd) ` {e \<in> set (pending q). fst e \<in> fst ` set ?h}"
  proof -
    let ?A = "{e \<in> set (pending q). fst e \<in> fst ` set h}"
    have "inj_on (ID \<circ> snd) (set (pending q))" using i(3) by (simp add: distinct_map)
    then have "(ID \<circ> snd) ` (?A - {(p, m)}) = (ID \<circ> snd) ` ?A - (ID \<circ> snd) ` {(p, m)}"
      using e by (intro inj_on_image_set_diff [where C = "set (pending q)"]) auto
    moreover have "x \<in> set (pending q) \<Longrightarrow> x = (p, m) \<longleftrightarrow> fst x = p" for x
      using e i(1) by (metis eq_key_imp_eq_value prod.collapse fst_conv)
    then have "?A - {(p, m)} = {e \<in> set (pending q). fst e \<in> fst ` set h - {p}}" by blast
    moreover have "fst ` set ?h = fst ` set h - {p}" using r by blast
    ultimately show ?thesis by simp
  qed
  have count: "count_ok (maxAttempts q) ?h x" if "x \<in> set (pending q)" "fst x \<noteq> p" for x
    using i(7) [OF that(1)] that(2) r by (simp add: count_ok_def)
  have np: "p \<notin> fst ` set ?h" using r by blast
  have at: "Attempts m = a" using i(7) [OF e] assms(2) by (auto simp: count_ok_def)
  show ?thesis
  proof (cases "(\<exists>x. res = SendOK x) \<or> a \<ge> maxAttempts q")
    case True
    let ?q = "attempt_end q now p (ID m) a res"
    have q': "?q = (persist_queue (removeLocked q p))\<lparr>inFlight := removeAll (ID m) (inFlight q)\<rparr>"
      using True by (auto simp: attempt_end_def failLocked_def removeLocked_def split: send_result.splits)
    then have P: "pending ?q = filter (\<lambda>x. fst x \<noteq> p) (pending q)" "inFlight ?q = removeAll (ID m) (inFlight q)"
      "next_ptr ?q = next_ptr q" "maxAttempts ?q = maxAttempts q"
      by (simp_all add: removeLocked_def case_prod_unfold)
    have im: "{e \<in> set (pending ?q). fst e \<in> fst ` set ?h} = {e \<in> set (pending q). fst e \<in> fst ` set ?h}"
      unfolding P using np by force
    show ?thesis
    proof (rule queue_invI)
      show "set (inFlight ?q) = (ID \<circ> snd) ` {e \<in> set (pending ?q). fst e \<in> fst ` set ?h}"
        unfolding im unfolding P(2) using i(6) others by simp
      show "fst ` set ?h \<subseteq> fst ` set (pending ?q)"
        unfolding P(1) fst_filter_neq r [THEN conjunct2, THEN conjunct2] using i(5) by (rule Diff_mono) simp
    qed (use i r count in \<open>simp_all add: P distinct_map_filter\<close>)
  next
    case False
    then obtain unknown where u: "res = SendErr unknown" "\<not> a \<ge> maxAttempts q" by (cases res) auto
    define w where "w = now + (if unknown \<and> pathlessTries q < a then pathRequestWait q else retryWait q)"
    have w: "attempt_end q now p (ID m) a res
        = (persist_queue (modify p (\<lambda>m. m\<lparr>NextAttempt := w\<rparr>) q))\<lparr>inFlight := removeAll (ID m) (inFlight q)\<rparr>"
      using u by (auto simp: attempt_end_def w_def)
    let ?q = "modify p (\<lambda>m. m\<lparr>NextAttempt := w\<rparr>) q"
    have ids: "map (ID \<circ> snd) (pending ?q) = map (ID \<circ> snd) (pending q)" by (simp add: modify_ids)
    have fs: "fst ` set (pending ?q) = fst ` set (pending q)" by (metis modify_fields(4) list.set_map)
    have im: "(ID \<circ> snd) ` {e \<in> set (pending ?q). fst e \<in> X} = (ID \<circ> snd) ` {e \<in> set (pending q). fst e \<in> X}" for X
      by (force simp: modify_def)
    have "count_ok (maxAttempts q) ?h x" if "x \<in> set (pending ?q)" for x
    proof -
      from that obtain m' where m': "(fst x, m') \<in> set (pending q)" "Attempts (snd x) = Attempts m'"
        by (auto simp: modify_set)
      show ?thesis
      proof (cases "fst x = p")
        case True
        then have "m' = m" using m' e i(1) by (metis eq_key_imp_eq_value)
        moreover have "(p, Some b) \<notin> set ?h" for b using r by (metis DiffE fst_conv image_eqI insertI1)
        ultimately show ?thesis using True m' False at i(7) [OF e] by (auto simp: count_ok_def)
      next
        case False
        with count [OF m'(1)] m' show ?thesis by (simp add: count_ok_def)
      qed
    qed
    then show ?thesis
      unfolding w using i r fs ids im others
      by (intro queue_invI) (auto simp: modify_set)
  qed
qed

section \<open>Runs\<close>

lemma step_maxAttempts: "queue_step s s' \<Longrightarrow> maxAttempts (fst s') = maxAttempts (fst s)"
  by (induction rule: queue_step.induct)
     (auto simp: EnqueueBubble_def Let_def pickDue_def attempt_begin_def attempt_end_def failLocked_def removeLocked_def
       split: option.splits send_result.splits)

lemma step_inv: "queue_step s s' \<Longrightarrow> queue_inv s \<Longrightarrow> 0 < maxAttempts (fst s) \<Longrightarrow> queue_inv s'"
proof (induction rule: queue_step.induct)
  case (enqueue mid q h now recipient body flds bubble)
  then show ?case by (intro enqueue_inv) simp_all
qed (auto intro: pick_inv start_inv finish_inv)

lemma reach_inv:
  "queue_reach (newOutboundQueue st, []) s \<Longrightarrow> queue_inv s \<and> maxAttempts (fst s) = maxDeliveryAttempts"
proof (induction rule: queue_reach.induct)
  case here
  show ?case by (auto simp: queue_inv_def newOutboundQueue_def)
next
  case (step s s')
  then show ?case using step_inv step_maxAttempts by (simp add: maxDeliveryAttempts_def)
qed

text \<open>However the workers interleave, no message is being sent by two workers at once, the in-flight marks are
  exactly the messages held, and no message is ever attempted more than five times.\<close>

theorem queue_safe:
  assumes "queue_reach (newOutboundQueue st, []) (q, h)"
  shows "distinct (map fst h) \<and> (\<forall>(p, m) \<in> set (pending q). 0 \<le> Attempts m \<and> Attempts m \<le> 5)
    \<and> set (inFlight q) = (ID \<circ> snd) ` {e \<in> set (pending q). fst e \<in> fst ` set h}"
  using reach_inv [OF assms] queue_invD [of q h] by (auto simp: count_ok_def maxDeliveryAttempts_def)

lemma map_of_modify: "map_of (pending (modify p f q)) p' = map_option (if p' = p then f else (\<lambda>m. m)) (map_of (pending q) p')"
proof -
  have "map_of (map (\<lambda>e. (fst e, if fst e = p then f (snd e) else snd e)) xs) p' =
      map_option (if p' = p then f else (\<lambda>m. m)) (map_of xs p')" for xs by (induction xs) auto
  then show ?thesis by (simp add: modify_def)
qed

lemma map_of_removeLocked: "map_of (pending (removeLocked q p)) p' = (if p' = p then None else map_of (pending q) p')"
proof -
  have "map_of (filter (\<lambda>(p', m). p' \<noteq> p) xs) p' = (if p' = p then None else map_of xs p')" for xs
    by (induction xs) auto
  from this [of "pending q"] show ?thesis by (simp add: removeLocked_def split del: if_split)
qed

text \<open>The outcome of an attempt: a delivered message and one that used up its attempts leave the queue; any other
  failure keeps the message, unchanged but for a retry time in the future; no other message is touched, and the
  message is free again in every case.\<close>

theorem attempt_outcome:
  assumes "map_of (pending q) p = Some m" and "0 < retryWait q" and "0 < pathRequestWait q"
  shows "map_of (pending (attempt_end q now p (ID m) a res)) p =
      (case res of SendOK _ \<Rightarrow> None
       | SendErr unknown \<Rightarrow> if maxAttempts q \<le> a then None
           else Some (m\<lparr>NextAttempt := now + (if unknown \<and> pathlessTries q < a then pathRequestWait q else retryWait q)\<rparr>))
    \<and> (\<forall>p'. p' \<noteq> p \<longrightarrow> map_of (pending (attempt_end q now p (ID m) a res)) p' = map_of (pending q) p')
    \<and> ID m \<notin> set (inFlight (attempt_end q now p (ID m) a res))
    \<and> (\<forall>m'. map_of (pending (attempt_end q now p (ID m) a res)) p = Some m' \<longrightarrow> now < NextAttempt m')"
  using assms
  by (auto simp: attempt_end_def failLocked_def map_of_modify map_of_removeLocked option.map_ident split: send_result.splits option.splits)


text \<open>One message to a recipient, picked, attempted and delivered.\<close>

definition one_queue :: OutboundQueue where
  "one_queue = EnqueueBubble (newOutboundQueue (Some \<lparr>saved = None, load_err = None, save_err = None\<rparr>)) ''m0'' 7 [1] [2] [] None"

definition one_msg :: outboundMessage where
  "one_msg = \<lparr>ID = ''m0'', Recipient = [1], Body = [2], MFields = [], MBubble = None, Attempts = 0, NextAttempt = 0, EnqueuedAt = 7\<rparr>"

lemma one_queue_pending: "pending one_queue = [(0, one_msg)]"
  by (simp add: one_queue_def one_msg_def EnqueueBubble_def newOutboundQueue_def Let_def)

theorem queue_safe_witness:
  "distinct (map fst [(0 :: nat, None :: int option)])
    \<and> set (inFlight (fst (pickDue one_queue 9 (\<lambda>_. None)))) = {''m0''}"
proof -
  let ?q0 = "newOutboundQueue (Some \<lparr>saved = None, load_err = None, save_err = None\<rparr>)"
  have av: "inFlight one_queue = []" by (simp add: one_queue_def EnqueueBubble_def newOutboundQueue_def Let_def)
  have "queue_step (?q0, []) (one_queue, [])"
    unfolding one_queue_def by (rule queue_step.enqueue) (simp add: newOutboundQueue_def)
  moreover have pd: "pickDue one_queue 9 (\<lambda>_. None) = (one_queue\<lparr>inFlight := [''m0'']\<rparr>, Some 0)"
    by (simp add: pickDue_def one_queue_pending available_def av) (simp add: one_msg_def)
  then have "queue_step (one_queue, []) (one_queue\<lparr>inFlight := [''m0'']\<rparr>, [(0, None)])"
    by (rule queue_step.pick)
  ultimately have "queue_reach (?q0, []) (one_queue\<lparr>inFlight := [''m0'']\<rparr>, [(0, None)])"
    by (meson queue_reach.here queue_reach.step)
  from queue_safe [OF this] show ?thesis using pd by (simp add: one_queue_pending one_msg_def)
qed

theorem attempt_outcome_witness:
  "map_of (pending (attempt_end one_queue 100 0 ''m0'' 1 (SendErr False))) 0 = Some (one_msg\<lparr>NextAttempt := 100 + 10 * second\<rparr>)"
proof -
  have "retryWait one_queue = 10 * second" "pathRequestWait one_queue = 7 * second" "maxAttempts one_queue = 5"
    by (simp_all add: one_queue_def EnqueueBubble_def newOutboundQueue_def Let_def deliveryRetryWait_def
        pathRequestWait_const_def maxDeliveryAttempts_def)
  then show ?thesis
    using attempt_outcome [of one_queue 0 one_msg 100 1 "SendErr False"] one_queue_pending by (simp add: one_msg_def)
qed


end
