(* ===== verification/Outbound_Drain.thy ===== *)
theory Outbound_Drain
  imports Outbound Runs
begin

text \<open>
  The outbound queue empties: between two enqueues the workers can take only boundedly many steps, and as long as a message is queued one of
  them can move. \<open>worker_step\<close> is \<open>queue_step\<close> without the enqueueing.
\<close>

inductive worker_step :: "run \<Rightarrow> run \<Rightarrow> bool" where
  pick: "pickDue q now seen = (q', Some p) \<Longrightarrow> worker_step (q, h) (q', (p, None) # h)"
| start: "(p, None) \<in> set h \<Longrightarrow> map_of (pending q) p = Some m \<Longrightarrow>
    worker_step (q, h) (attempt_begin q p, (p, Some (Attempts m + 1)) # remove1 (p, None) h)"
| finish: "(p, Some a) \<in> set h \<Longrightarrow> map_of (pending q) p = Some m \<Longrightarrow>
    worker_step (q, h) (attempt_end q now p (ID m) a res, remove1 (p, Some a) h)"

lemma worker_queue: "worker_step s s' \<Longrightarrow> queue_step s s'"
  by (induction rule: worker_step.induct) (auto intro: queue_step.intros)

text \<open>The steps a message has left: three for each attempt, less those of the attempt under way.\<close>

definition steps_left :: "int \<Rightarrow> (nat \<times> int option) list \<Rightarrow> nat \<times> outboundMessage \<Rightarrow> nat" where
  "steps_left mx h e = nat (3 * (mx - Attempts (snd e))
     + (case map_of h (fst e) of None \<Rightarrow> 0 | Some None \<Rightarrow> - 1 | Some (Some a) \<Rightarrow> 1))"

definition work_left :: "run \<Rightarrow> nat" where
  "work_left s = (case s of (q, h) \<Rightarrow> sum_list (map (steps_left (maxAttempts q) h) (pending q)))"

lemma sum_list_less:
  fixes f g :: "'a \<Rightarrow> nat"
  shows "\<forall>x \<in> set xs. g x \<le> f x \<Longrightarrow> \<exists>x \<in> set xs. g x < f x \<Longrightarrow> sum_list (map g xs) < sum_list (map f xs)"
proof (induction xs)
  case (Cons x xs)
  then have "sum_list (map g xs) \<le> sum_list (map f xs)" by (intro sum_list_mono) simp
  with Cons show ?case by (cases "g x < f x") (auto intro: add_less_le_mono)
qed simp

lemma sum_list_less_at:
  fixes f g :: "nat \<times> 'a \<Rightarrow> nat"
  assumes "(p, m) \<in> set xs" and "distinct (map fst xs)" and "\<And>x. x \<in> set xs \<Longrightarrow> fst x \<noteq> p \<Longrightarrow> g x = f x" and "g (p, m) < f (p, m)"
  shows "sum_list (map g xs) < sum_list (map f xs)"
proof (rule sum_list_less)
  show "\<exists>x \<in> set xs. g x < f x" using assms(1,4) by blast
  have "x = (p, m)" if "x \<in> set xs" "fst x = p" for x using assms(1,2) that by (metis eq_key_imp_eq_value prod.collapse)
  then show "\<forall>x \<in> set xs. g x \<le> f x" using assms(3,4) by (metis less_imp_le order_refl)
qed

lemma map_of_remove1:
  "distinct (map fst h) \<Longrightarrow> (p, x) \<in> set h \<Longrightarrow> map_of (remove1 (p, x) h) k = (if k = p then None else map_of h k)"
proof (induction h)
  case (Cons e h)
  show ?case
  proof (cases "e = (p, x)")
    case True
    with Cons.prems have "map_of h p = None" by (simp add: map_of_eq_None_iff)
    with True show ?thesis by simp
  next
    case False
    with Cons.prems have "(p, x) \<in> set h" by simp
    moreover from this have "p \<in> fst ` set h" by force
    with Cons.prems have "fst e \<noteq> p" by auto
    ultimately show ?thesis using Cons False by (cases e) auto
  qed
qed simp

lemma sum_removed: "sum_list (map f (filter (\<lambda>(p', m). p' \<noteq> p) xs)) = sum_list (map (\<lambda>e. if fst e = p then 0 else f e) xs)" for f :: "_ \<Rightarrow> nat"
  by (induction xs) auto

lemma worker_step_less:
  assumes "worker_step s s'" and "queue_inv s" and "0 < maxAttempts (fst s)"
  shows "work_left s' < work_left s"
  using assms
proof (induction rule: worker_step.induct)
  case (pick q now seen q' p h)
  from pick.hyps obtain m where m: "pick_loop q now seen None (pending q) = Some (p, m)" "q' = q\<lparr>inFlight := List.insert (ID m) (inFlight q)\<rparr>"
    by (auto simp: pickDue_def split: option.splits)
  from pick_loop_spec [OF m(1)] have e: "(p, m) \<in> set (pending q)" "available q now m" by auto
  have nh: "p \<notin> fst ` set h" using in_flight_iff [OF pick.prems(1) e(1)] e(2) by (simp add: available_def)
  then have "\<And>a. (p, Some a) \<notin> set h" by (metis fst_conv image_eqI)
  with queue_invD(7) [OF pick.prems(1) e(1)] have "Attempts m < maxAttempts q" by (simp add: count_ok_def)
  then show ?case
    unfolding work_left_def case_prod_conv m(2)
    using e(1) nh map_of_eq_None_iff [of h p] by (auto simp: steps_left_def intro!: sum_list_less bexI [of _ "(p, m)"] split: option.splits)
next
  case (start p h q m)
  note d = queue_invD [OF start.prems(1)]
  let ?h = "(p, Some (Attempts m + 1)) # remove1 (p, None) h"
  have hp: "map_of h p = Some None" using d(4) start.hyps(1) by simp
  have e: "(p, m) \<in> set (pending q)" using start.hyps(2) by (rule map_of_SomeD)
  have "\<forall>a. (p, Some a) \<notin> set h" using hp d(4) by (metis map_of_eq_Some_iff option.distinct(1) option.sel)
  with d(7) [OF e] have less: "Attempts m < maxAttempts q" by (simp add: count_ok_def)
  let ?g = "\<lambda>e. steps_left (maxAttempts q) ?h (fst e, if fst e = p then snd e\<lparr>Attempts := Attempts (snd e) + 1\<rparr> else snd e)"
  have "sum_list (map ?g (pending q)) < sum_list (map (steps_left (maxAttempts q) h) (pending q))"
    using hp less by (intro sum_list_less_at [OF e d(1)]) (simp_all add: steps_left_def map_of_remove1 [OF d(4) start.hyps(1)])
  then show ?case by (simp add: work_left_def attempt_begin_def modify_def comp_def)
next
  case (finish p a h q m now res)
  note d = queue_invD [OF finish.prems(1)]
  let ?q = "attempt_end q now p (ID m) a res" and ?h = "remove1 (p, Some a) h"
  have hp: "map_of h p = Some (Some a)" using d(4) finish.hyps(1) by simp
  have e: "(p, m) \<in> set (pending q)" using finish.hyps(2) by (rule map_of_SomeD)
  have am: "Attempts m \<le> maxAttempts q" using d(7) [OF e] by (simp add: count_ok_def)
  have mx: "maxAttempts ?q = maxAttempts q" using step_maxAttempts [OF queue_step.finish [OF finish.hyps]] by simp
  have le: "sum_list (map (steps_left (maxAttempts q) ?h) (pending ?q)) \<le> sum_list (map (steps_left (maxAttempts q) ?h) (pending q))"
  proof -
    have "pending ?q = pending (removeLocked q p) \<or> (\<exists>w. pending ?q = pending (modify p (\<lambda>m. m\<lparr>NextAttempt := w\<rparr>) q))"
      by (auto simp: attempt_end_def failLocked_def split: send_result.splits)
    then show ?thesis
      by (auto simp: removeLocked_def sum_removed modify_def comp_def steps_left_def intro!: sum_list_mono)
  qed
  have "sum_list (map (steps_left (maxAttempts q) ?h) (pending q)) < sum_list (map (steps_left (maxAttempts q) h) (pending q))"
    using hp am by (intro sum_list_less_at [OF e d(1)]) (simp_all add: steps_left_def map_of_remove1 [OF d(4) finish.hyps(1)])
  with le mx show ?case by (simp add: work_left_def)
qed

text \<open>The state between two enqueues.\<close>

definition working :: "run \<Rightarrow> bool" where
  "working s \<longleftrightarrow> queue_inv s \<and> 0 < maxAttempts (fst s)"

interpretation workers: invariant_system worker_step working
  by unfold_locales (metis step_inv step_maxAttempts worker_queue working_def)

lemma work_bounds_steps: "(worker_step ^^ n) s s' \<Longrightarrow> working s \<Longrightarrow> n + work_left s' \<le> work_left s \<and> working s'"
proof (induction n arbitrary: s')
  case (Suc n)
  then obtain s1 where s1: "(worker_step ^^ n) s s1" "worker_step s1 s'" by auto
  with Suc have "n + work_left s1 \<le> work_left s" "working s1" by auto
  moreover from worker_step_less [OF s1(2)] \<open>working s1\<close> have "work_left s' < work_left s1" by (simp add: working_def)
  ultimately show ?case using workers.kept [OF s1(2)] by simp
qed simp

lemma work_left_idle:
  assumes "queue_inv (q, [])"
  shows "work_left (q, []) \<le> 3 * nat (maxAttempts q) * length (pending q)"
proof -
  have "steps_left (maxAttempts q) [] e \<le> 3 * nat (maxAttempts q)" if "e \<in> set (pending q)" for e
    using queue_invD(7) [OF assms that] by (auto simp: steps_left_def count_ok_def)
  then have "sum_list (map (steps_left (maxAttempts q) []) (pending q)) \<le> sum_list (map (\<lambda>e. 3 * nat (maxAttempts q)) (pending q))"
    by (intro sum_list_mono)
  then show ?thesis by (simp add: work_left_def sum_list_triv mult.commute)
qed

lemma idle_can_pick:
  assumes "queue_inv (q, [])" and "pending q \<noteq> []"
  shows "\<exists>now p. snd (pickDue q now seen) = Some p"
proof -
  define now where "now = Max (insert 0 (NextAttempt ` snd ` set (pending q)))"
  obtain e where e: "e \<in> set (pending q)" using assms(2) by (cases "pending q") auto
  have "NextAttempt (snd e) \<le> now" unfolding now_def using e by (intro Max_ge) auto
  moreover have "inFlight q = []" using queue_invD(6) [OF assms(1)] by simp
  ultimately have "available q now (snd e)" by (simp add: available_def)
  with e have "\<exists>(p, m) \<in> set (pending q). available q now m" by (intro bexI [of _ e]) (simp_all add: case_prod_beta)
  then obtain p m where "pick_loop q now seen None (pending q) = Some (p, m)" using pick_loop_None [of q now seen None "pending q"] by fast
  then have "snd (pickDue q now seen) = Some p" by (simp add: pickDue_def)
  then show ?thesis by blast
qed

lemma held_can_move:
  assumes "queue_inv (q, h)" and "h \<noteq> []"
  shows "\<exists>s'. worker_step (q, h) s'"
proof -
  obtain p x where px: "(p, x) \<in> set h" using assms(2) by (cases h) auto
  then have "p \<in> fst ` set (pending q)" using queue_invD(5) [OF assms(1)] by force
  then obtain m where "map_of (pending q) p = Some m" by (metis map_of_eq_None_iff not_None_eq)
  with px show ?thesis by (cases x) (auto intro: worker_step.intros)
qed

text \<open>C28. The queue drains: starting with no attempt under way, the workers can take at most three steps for each of the permitted attempts
  of each queued message (picking it, beginning and ending the attempt), and as long as anything is queued or under way some worker can
  take a step once enough time has passed; so they stop only when the queue is empty.\<close>

theorem queue_drains:
  assumes "queue_inv (q, [])" and "0 < maxAttempts q" and "(worker_step ^^ n) (q, []) s'"
  shows "n \<le> 3 * nat (maxAttempts q) * length (pending q) \<and> ((\<nexists>s''. worker_step s' s'') \<longleftrightarrow> pending (fst s') = [])"
proof -
  from work_bounds_steps [OF assms(3)] assms(1,2) have w: "n \<le> work_left (q, [])" "working s'" by (auto simp: working_def)
  obtain q' h where s': "s' = (q', h)" by fastforce
  have inv: "queue_inv (q', h)" using w(2) by (simp add: working_def s')
  have "\<exists>s''. worker_step s' s''" if "pending q' \<noteq> []"
  proof (cases "h = []")
    case True
    with idle_can_pick [of q' "\<lambda>_. None"] inv that obtain now p where "snd (pickDue q' now (\<lambda>_. None)) = Some p" by auto
    then show ?thesis unfolding s' by (metis prod.collapse worker_step.pick)
  qed (use held_can_move [OF inv] s' in auto)
  moreover have "\<not> worker_step s' s''" if "pending q' = []" for s''
  proof
    assume "worker_step s' s''"
    moreover have "work_left s' = 0" using that by (simp add: work_left_def s')
    ultimately show False using worker_step_less [of s' s''] w(2) by (simp add: working_def)
  qed
  ultimately show ?thesis using w(1) work_left_idle [OF assms(1)] by (auto simp: s')
qed

theorem queue_drains_witness:
  "\<exists>s. worker_step (one_queue, []) s \<and> 1 \<le> 3 * nat (maxAttempts one_queue) * length (pending one_queue) \<and> (\<exists>s'. worker_step s s')"
proof -
  have q: "queue_inv (one_queue, [])" "0 < maxAttempts one_queue"
    by (simp_all add: queue_inv_def one_queue_pending count_ok_def one_msg_def)
      (simp_all add: one_queue_def EnqueueBubble_def newOutboundQueue_def Let_def maxDeliveryAttempts_def)
  obtain now p where "snd (pickDue one_queue now (\<lambda>_. None)) = Some p"
    using idle_can_pick [OF q(1), of "\<lambda>_. None"] by (auto simp: one_queue_pending)
  then obtain q' where p: "pickDue one_queue now (\<lambda>_. None) = (q', Some p)" by (metis prod.collapse)
  from worker_step.pick [OF this] have w: "worker_step (one_queue, []) (q', [(p, None)])" .
  moreover have "pending q' = pending one_queue" using p by (auto simp: pickDue_def split: option.splits)
  ultimately show ?thesis using queue_drains [OF q, of 1 "(q', [(p, None)])"] by (auto simp: one_queue_pending)
qed

end
