(* ===== verification/Crypto.thy ===== *)
theory Crypto
  imports Go_Strings
begin

text \<open>
  The cryptographic primitives the service calls, as a record of functions, with the documented
  behaviour it relies on; and identities, \<open>internal/rns/identity.go\<close>. SHA-256, HMAC, HKDF, X25519,
  Ed25519 and the AES block function are arguments of the definitions that use them; CBC, padding and
  every wire format are modelled.
\<close>

section \<open>Primitives\<close>

record Primitives =
  sha256 :: "bytes \<Rightarrow> bytes"
  hmac :: "bytes \<Rightarrow> bytes \<Rightarrow> bytes"
  hkdf :: "bytes \<Rightarrow> bytes \<Rightarrow> nat \<Rightarrow> bytes"
  x25519 :: "bytes \<Rightarrow> bytes \<Rightarrow> bytes option"
  ed_pub :: "bytes \<Rightarrow> bytes"
  ed_sign :: "bytes \<Rightarrow> bytes \<Rightarrow> bytes"
  ed_verify :: "bytes \<Rightarrow> bytes \<Rightarrow> bytes \<Rightarrow> bool"
  aes_enc :: "bytes \<Rightarrow> bytes \<Rightarrow> bytes"
  aes_dec :: "bytes \<Rightarrow> bytes \<Rightarrow> bytes"

text \<open>The base point of X25519 (RFC 7748).\<close>

definition Basepoint :: bytes where
  "Basepoint = 9 # replicate 31 0"

text \<open>Documented behaviour: the digest sizes (FIPS 180-4, RFC 2104, RFC 5869), commutation of Diffie-Hellman
  and its key size (RFC 7748), verification of genuine signatures and their sizes (RFC 8032), and that
  the AES block functions of a key are inverse (FIPS 197).\<close>

definition digests_ok :: "Primitives \<Rightarrow> bool" where
  "digests_ok C \<longleftrightarrow> (\<forall>m. length (sha256 C m) = 32) \<and> (\<forall>k m. length (hmac C k m) = 32)
     \<and> (\<forall>s t n. length (hkdf C s t n) = n)"

definition dh_ok :: "Primitives \<Rightarrow> bool" where
  "dh_ok C \<longleftrightarrow>
     (\<forall>a p q. length a = 32 \<longrightarrow> length p = 32 \<longrightarrow> x25519 C a p = Some q \<longrightarrow> length q = 32)
   \<and> (\<forall>a b pa pb. length a = 32 \<longrightarrow> length b = 32 \<longrightarrow> x25519 C a Basepoint = Some pa \<longrightarrow> x25519 C b Basepoint = Some pb
       \<longrightarrow> x25519 C a pb = x25519 C b pa)"

definition sig_ok :: "Primitives \<Rightarrow> bool" where
  "sig_ok C \<longleftrightarrow> (\<forall>s m. length s = 32 \<longrightarrow> length (ed_pub C s) = 32 \<and> length (ed_sign C s m) = 64
     \<and> ed_verify C (ed_pub C s) m (ed_sign C s m))"

definition aes_ok :: "Primitives \<Rightarrow> bool" where
  "aes_ok C \<longleftrightarrow> (\<forall>k b. length k = 32 \<longrightarrow> length b = 16 \<longrightarrow> length (aes_enc C k b) = 16 \<and> aes_dec C k (aes_enc C k b) = b)"

definition crypto_ok :: "Primitives \<Rightarrow> bool" where
  "crypto_ok C \<longleftrightarrow> digests_ok C \<and> dh_ok C \<and> sig_ok C \<and> aes_ok C"

text \<open>\<open>subtle.XORBytes\<close>, the exclusive or of two byte strings.\<close>

definition xor_bytes :: "bytes \<Rightarrow> bytes \<Rightarrow> bytes" where
  "xor_bytes a b = map2 (XOR) a b"

lemma xor_bytes_length [simp]: "length (xor_bytes a b) = min (length a) (length b)"
  by (simp add: xor_bytes_def)

lemma xor_bytes_cancel: "length a = length b \<Longrightarrow> xor_bytes a (xor_bytes a b) = b"
  by (intro nth_equalityI) (simp_all add: xor_bytes_def xor.assoc [symmetric])

section \<open>Identities\<close>

definition IdentityHashLen :: nat where "IdentityHashLen = 16"
definition NameHashLen :: nat where "NameHashLen = 10"
definition PrivateKeyLen :: nat where "PrivateKeyLen = 64"
definition PublicKeyLen :: nat where "PublicKeyLen = 64"

lemmas key_lens = IdentityHashLen_def NameHashLen_def PrivateKeyLen_def PublicKeyLen_def

record Identity =
  x25519Priv :: bytes
  ed25519Seed :: bytes
  x25519Pub :: bytes
  ed25519Pub :: bytes

datatype identity_error = KeyLen nat | NoPublic | ReadFailed string | RandomFailed

definition identityFromHalves :: "Primitives \<Rightarrow> bytes \<Rightarrow> bytes \<Rightarrow> identity_error + Identity" where
  "identityFromHalves C xp es =
     (case x25519 C xp Basepoint of
        None \<Rightarrow> Inl NoPublic
      | Some xpub \<Rightarrow> Inr \<lparr>x25519Priv = xp, ed25519Seed = es, x25519Pub = xpub, ed25519Pub = ed_pub C es\<rparr>)"

definition IdentityFromPrivateKey :: "Primitives \<Rightarrow> bytes \<Rightarrow> identity_error + Identity" where
  "IdentityFromPrivateKey C b =
     (if length b \<noteq> PrivateKeyLen then Inl (KeyLen (length b))
      else identityFromHalves C (take 32 b) (drop 32 b))"

definition IdentityFromFile :: "Primitives \<Rightarrow> string + bytes \<Rightarrow> identity_error + Identity" where
  "IdentityFromFile C file = (case file of Inl e \<Rightarrow> Inl (ReadFailed e) | Inr data \<Rightarrow> IdentityFromPrivateKey C data)"

text \<open>The clamping of RFC 7748, applied to fresh key bytes.\<close>

definition clamp :: "bytes \<Rightarrow> bytes" where
  "clamp k = (let k1 = k[0 := k ! 0 AND 248]; k2 = k1[31 := k1 ! 31 AND 127] in k2[31 := k2 ! 31 OR 64])"

text \<open>The arguments are the two reads of the random source.\<close>

definition NewIdentity :: "Primitives \<Rightarrow> bytes option \<Rightarrow> bytes option \<Rightarrow> identity_error + Identity" where
  "NewIdentity C rnd1 rnd2 =
     (case rnd1 of None \<Rightarrow> Inl RandomFailed | Some k \<Rightarrow>
      case rnd2 of None \<Rightarrow> Inl RandomFailed | Some s \<Rightarrow> identityFromHalves C (clamp k) s)"

definition PrivateKey :: "Identity \<Rightarrow> bytes" where
  "PrivateKey ident = x25519Priv ident @ ed25519Seed ident"

definition PublicKey :: "Identity \<Rightarrow> bytes" where
  "PublicKey ident = x25519Pub ident @ ed25519Pub ident"

text \<open>A wrong-length key gives the empty slice.\<close>

definition IdentityHashFromPublicKey :: "Primitives \<Rightarrow> bytes \<Rightarrow> bytes" where
  "IdentityHashFromPublicKey C pub = (if length pub \<noteq> PublicKeyLen then [] else take IdentityHashLen (sha256 C pub))"

definition Hash_id :: "Primitives \<Rightarrow> Identity \<Rightarrow> bytes" where
  "Hash_id C ident = IdentityHashFromPublicKey C (PublicKey ident)"

definition HexHash :: "Primitives \<Rightarrow> Identity \<Rightarrow> string" where
  "HexHash C ident = hex_encode (Hash_id C ident)"

definition X25519Public :: "Identity \<Rightarrow> bytes" where
  "X25519Public ident = x25519Pub ident"

definition Sign :: "Primitives \<Rightarrow> Identity \<Rightarrow> bytes \<Rightarrow> bytes" where
  "Sign C ident msg = ed_sign C (ed25519Seed ident) msg"

definition Validate :: "Primitives \<Rightarrow> bytes \<Rightarrow> bytes \<Rightarrow> bytes \<Rightarrow> bool" where
  "Validate C pub msg sig = (if length pub \<noteq> 32 then False else ed_verify C pub msg sig)"

definition SharedSecret :: "Primitives \<Rightarrow> Identity \<Rightarrow> bytes \<Rightarrow> bytes option" where
  "SharedSecret C ident peer = (if length peer \<noteq> 32 then None else x25519 C (x25519Priv ident) peer)"

definition FullName :: "string list \<Rightarrow> string" where
  "FullName aspects = Join aspects ''.''"

definition NameHash :: "Primitives \<Rightarrow> string \<Rightarrow> bytes" where
  "NameHash C name = take NameHashLen (sha256 C (bytes_of name))"

text \<open>\<open>None\<close> is the panic on inputs of the wrong length.\<close>

definition DestinationHash :: "Primitives \<Rightarrow> bytes \<Rightarrow> bytes \<Rightarrow> bytes option" where
  "DestinationHash C nameHash identityHash =
     (if length nameHash \<noteq> NameHashLen \<or> length identityHash \<noteq> IdentityHashLen then None
      else Some (take IdentityHashLen (sha256 C (nameHash @ identityHash))))"

definition DestinationHashFor :: "Primitives \<Rightarrow> Identity \<Rightarrow> string \<Rightarrow> bytes option" where
  "DestinationHashFor C ident name = DestinationHash C (NameHash C name) (Hash_id C ident)"

section \<open>What identities guarantee\<close>

text \<open>An identity made by one of the constructors: its public halves belong to its private ones.\<close>

definition identity_ok :: "Primitives \<Rightarrow> Identity \<Rightarrow> bool" where
  "identity_ok C ident \<longleftrightarrow> length (x25519Priv ident) = 32 \<and> length (ed25519Seed ident) = 32
     \<and> x25519 C (x25519Priv ident) Basepoint = Some (x25519Pub ident) \<and> ed25519Pub ident = ed_pub C (ed25519Seed ident)"

lemma crypto_okD:
  assumes "crypto_ok C"
  shows "digests_ok C" "dh_ok C" "sig_ok C" "aes_ok C"
  using assms by (simp_all add: crypto_ok_def)

lemma length_sha256 [wire_simps]: "digests_ok C \<Longrightarrow> length (sha256 C m) = 32"
  by (simp add: digests_ok_def)

lemma length_hmac [wire_simps]: "digests_ok C \<Longrightarrow> length (hmac C k m) = 32"
  by (simp add: digests_ok_def)

lemma length_hkdf [wire_simps]: "digests_ok C \<Longrightarrow> length (hkdf C s t n) = n"
  by (simp add: digests_ok_def)

lemma length_Basepoint [simp]: "length Basepoint = 32"
  by (simp add: Basepoint_def)

lemma length_clamp [simp]: "length (clamp k) = length k"
  by (simp add: clamp_def Let_def)

lemma identityFromHalves_ok:
  "length xp = 32 \<Longrightarrow> length es = 32 \<Longrightarrow> identityFromHalves C xp es = Inr ident \<Longrightarrow> identity_ok C ident"
  by (auto simp: identityFromHalves_def identity_ok_def split: option.splits)

lemma dh_length: "dh_ok C \<Longrightarrow> length a = 32 \<Longrightarrow> length p = 32 \<Longrightarrow> x25519 C a p = Some q \<Longrightarrow> length q = 32"
  unfolding dh_ok_def by blast

lemma dh_commute:
  "dh_ok C \<Longrightarrow> length a = 32 \<Longrightarrow> length b = 32 \<Longrightarrow> x25519 C a Basepoint = Some pa \<Longrightarrow> x25519 C b Basepoint = Some pb
     \<Longrightarrow> x25519 C a pb = x25519 C b pa"
  unfolding dh_ok_def by blast

lemma identity_keys [wire_simps]:
  assumes "crypto_ok C" and "identity_ok C ident"
  shows "length (x25519Pub ident) = 32" "length (ed25519Pub ident) = 32" "length (PublicKey ident) = 64" "length (PrivateKey ident) = 64"
proof -
  show x: "length (x25519Pub ident) = 32"
    using assms dh_length [OF crypto_okD(2) [OF assms(1)]] length_Basepoint unfolding identity_ok_def by blast
  show e: "length (ed25519Pub ident) = 32"
    using assms by (auto simp: identity_ok_def crypto_ok_def sig_ok_def)
  show "length (PublicKey ident) = 64" "length (PrivateKey ident) = 64"
    using x e assms(2) by (simp_all add: PublicKey_def PrivateKey_def identity_ok_def)
qed

lemma length_Hash_id [wire_simps]: "crypto_ok C \<Longrightarrow> identity_ok C ident \<Longrightarrow> length (Hash_id C ident) = 16"
  using identity_keys [of C ident] crypto_okD(1) [of C]
  by (simp add: Hash_id_def IdentityHashFromPublicKey_def key_lens length_sha256)

lemma length_NameHash [wire_simps]: "crypto_ok C \<Longrightarrow> length (NameHash C name) = 10"
  using crypto_okD(1) [of C] by (simp add: NameHash_def key_lens length_sha256)

lemma length_DestinationHash [wire_simps]: "crypto_ok C \<Longrightarrow> DestinationHash C n i = Some h \<Longrightarrow> length h = 16"
  using crypto_okD(1) [of C] by (auto simp: DestinationHash_def key_lens length_sha256 split: if_splits)

lemma DestinationHashFor_Some:
  "crypto_ok C \<Longrightarrow> identity_ok C ident \<Longrightarrow> \<exists>h. DestinationHashFor C ident name = Some h \<and> length h = 16"
  using length_Hash_id [of C ident] length_NameHash [of C name] crypto_okD(1) [of C]
  by (auto simp: DestinationHashFor_def DestinationHash_def key_lens length_sha256)

lemma Sign_Validate: "crypto_ok C \<Longrightarrow> identity_ok C ident \<Longrightarrow> Validate C (ed25519Pub ident) m (Sign C ident m)"
  by (simp add: Sign_def Validate_def identity_ok_def crypto_ok_def sig_ok_def)

lemma Validate_D: "Validate C pub m g \<Longrightarrow> ed_verify C pub m g \<and> length pub = 32"
  by (simp add: Validate_def split: if_splits)

lemma length_Sign [wire_simps]: "crypto_ok C \<Longrightarrow> identity_ok C ident \<Longrightarrow> length (Sign C ident m) = 64"
  by (simp add: Sign_def identity_ok_def crypto_ok_def sig_ok_def)

text \<open>Both ends of a Diffie-Hellman exchange get the same secret.\<close>

lemma SharedSecret_agree:
  assumes "crypto_ok C" and "identity_ok C a" and "identity_ok C b"
  shows "SharedSecret C a (X25519Public b) = SharedSecret C b (X25519Public a)"
proof -
  have "x25519 C (x25519Priv a) (x25519Pub b) = x25519 C (x25519Priv b) (x25519Pub a)"
    using assms(2,3) dh_commute [OF crypto_okD(2) [OF assms(1)]] unfolding identity_ok_def by blast
  then show ?thesis
    using identity_keys [OF assms(1,2)] identity_keys [OF assms(1,3)] by (simp add: SharedSecret_def X25519Public_def)
qed

text \<open>The key file: loading what \<open>Save\<close> wrote gives the identity back.\<close>

lemma key_file_roundtrip:
  assumes "identity_ok C ident"
  shows "IdentityFromFile C (Inr (PrivateKey ident)) = Inr ident"
  using assms by (cases ident) (simp add: IdentityFromFile_def IdentityFromPrivateKey_def PrivateKey_def identity_ok_def
      identityFromHalves_def key_lens)

section \<open>A concrete instance\<close>

text \<open>Functions with the documented behaviour, to evaluate the model on.\<close>

definition demo_crypto :: Primitives where
  "demo_crypto = \<lparr>sha256 = (\<lambda>m. take 32 (m @ replicate 32 0)), hmac = (\<lambda>k m. take 32 (k @ m @ replicate 32 0)),
     hkdf = (\<lambda>s t n. take n (s @ t @ replicate n 0)), x25519 = (\<lambda>a p. Some (xor_bytes a p)),
     ed_pub = (\<lambda>s. s), ed_sign = (\<lambda>s m. s @ s), ed_verify = (\<lambda>p m g. g = p @ p),
     aes_enc = (\<lambda>k b. b), aes_dec = (\<lambda>k b. b)\<rparr>"

lemma xor_bytes_swap:
  assumes "length a = length p" and "length b = length p"
  shows "xor_bytes a (xor_bytes b p) = xor_bytes b (xor_bytes a p)"
  using assms by (intro nth_equalityI) (simp_all add: xor_bytes_def xor.left_commute)

lemma demo_crypto_ok: "crypto_ok demo_crypto"
  by (auto simp: crypto_ok_def digests_ok_def dh_ok_def sig_ok_def aes_ok_def demo_crypto_def xor_bytes_swap)

definition demo_identity :: "byte \<Rightarrow> Identity" where
  "demo_identity b = \<lparr>x25519Priv = replicate 32 b, ed25519Seed = replicate 32 (b + 1),
     x25519Pub = xor_bytes (replicate 32 b) Basepoint, ed25519Pub = replicate 32 (b + 1)\<rparr>"

lemma demo_identity_ok: "identity_ok demo_crypto (demo_identity b)"
  by (simp add: identity_ok_def demo_identity_def demo_crypto_def)

end
