(* ===== verification/Token.thy ===== *)
theory Token
  imports Crypto
begin

text \<open>
  The authenticated encryption of \<open>internal/rns/token.go\<close> (to an identity, with an ephemeral key) and
  \<open>internal/rns/link_token.go\<close> (under the keys of a link): PKCS\#7 padding, CBC mode over the block cipher,
  the MAC and the wire layout. The random bytes a function draws are its arguments, \<open>None\<close> when
  the source fails.
\<close>

section \<open>Definitions\<close>

definition tokenEphPubLen :: nat where "tokenEphPubLen = 32"
definition tokenIVLen :: nat where "tokenIVLen = 16"
definition tokenHMACLen :: nat where "tokenHMACLen = 32"
definition tokenOverhead :: nat where "tokenOverhead = tokenEphPubLen + tokenIVLen + tokenHMACLen"
definition tokenAESKeyLen :: nat where "tokenAESKeyLen = 32"
definition tokenHMACKeyLen :: nat where "tokenHMACKeyLen = 32"
definition linkTokenOverhead :: nat where "linkTokenOverhead = tokenIVLen + tokenHMACLen"
definition aesBlockSize :: nat where "aesBlockSize = 16"

lemmas token_lens = tokenEphPubLen_def tokenIVLen_def tokenHMACLen_def tokenOverhead_def tokenAESKeyLen_def
  tokenHMACKeyLen_def linkTokenOverhead_def aesBlockSize_def

datatype token_error =
    RecipientKeyLen | RecipientHashLen | Entropy | ECDHFailed
  | TokenTooShort nat | NotBlockAligned | HMACMismatch
  | CipherKeyLen nat | SigningKeyLen | EncryptionKeyLen | IVLen
  | BadPaddedLength | BadPaddingLength | BadPaddingBytes

definition pkcs7Pad :: "bytes \<Rightarrow> nat \<Rightarrow> bytes" where
  "pkcs7Pad data blockSize =
     (let padLen = blockSize - length data mod blockSize in data @ replicate padLen (word_of_nat padLen))"

definition pkcs7Unpad :: "bytes \<Rightarrow> nat \<Rightarrow> token_error + bytes" where
  "pkcs7Unpad data blockSize =
     (if data = [] \<or> length data mod blockSize \<noteq> 0 then Inl BadPaddedLength
      else
        (let padLen = unat (last data)
         in if padLen = 0 \<or> padLen > blockSize then Inl BadPaddingLength
            else if \<exists>b \<in> set (drop (length data - padLen) data). unat b \<noteq> padLen then Inl BadPaddingBytes
            else Inr (take (length data - padLen) data)))"

text \<open>\<open>CryptBlocks\<close> of \<open>cipher.NewCBCEncrypter\<close> and \<open>cipher.NewCBCDecrypter\<close>: each block is chained to
  the previous ciphertext block, the first to the IV.\<close>

function (sequential) cbc_encrypt :: "Primitives \<Rightarrow> bytes \<Rightarrow> bytes \<Rightarrow> bytes \<Rightarrow> bytes" where
  "cbc_encrypt C key iv [] = []"
| "cbc_encrypt C key iv data =
     (let c = aes_enc C key (xor_bytes iv (take 16 data)) in c @ cbc_encrypt C key c (drop 16 data))"
  by pat_completeness auto
termination by (relation "measure (\<lambda>(C, key, iv, data). length data)") auto

function (sequential) cbc_decrypt :: "Primitives \<Rightarrow> bytes \<Rightarrow> bytes \<Rightarrow> bytes \<Rightarrow> bytes" where
  "cbc_decrypt C key iv [] = []"
| "cbc_decrypt C key iv data =
     xor_bytes iv (aes_dec C key (take 16 data)) @ cbc_decrypt C key (take 16 data) (drop 16 data)"
  by pat_completeness auto
termination by (relation "measure (\<lambda>(C, key, iv, data). length data)") auto

text \<open>\<open>aes.NewCipher\<close> refuses keys of other lengths than AES has.\<close>

definition aes_key_len :: "nat \<Rightarrow> bool" where
  "aes_key_len n \<longleftrightarrow> n = 16 \<or> n = 24 \<or> n = 32"

definition aesCBCEncrypt :: "Primitives \<Rightarrow> bytes \<Rightarrow> bytes \<Rightarrow> bytes \<Rightarrow> token_error + bytes" where
  "aesCBCEncrypt C key iv plaintext =
     (if \<not> aes_key_len (length key) then Inl (CipherKeyLen (length key))
      else Inr (cbc_encrypt C key iv (pkcs7Pad plaintext aesBlockSize)))"

definition aesCBCDecrypt :: "Primitives \<Rightarrow> bytes \<Rightarrow> bytes \<Rightarrow> bytes \<Rightarrow> token_error + bytes" where
  "aesCBCDecrypt C key iv ciphertext =
     (if \<not> aes_key_len (length key) then Inl (CipherKeyLen (length key))
      else pkcs7Unpad (cbc_decrypt C key iv ciphertext) aesBlockSize)"

definition hmacSHA256 :: "Primitives \<Rightarrow> bytes \<Rightarrow> bytes list \<Rightarrow> bytes" where
  "hmacSHA256 C key parts = hmac C key (concat parts)"

text \<open>The signing key and the encryption key.\<close>

definition tokenDeriveKeys :: "Primitives \<Rightarrow> bytes \<Rightarrow> bytes \<Rightarrow> bytes \<times> bytes" where
  "tokenDeriveKeys C sharedSecret salt =
     (let derived = hkdf C sharedSecret salt (tokenHMACKeyLen + tokenAESKeyLen)
      in (take tokenHMACKeyLen derived, drop tokenHMACKeyLen derived))"

definition TokenEncrypt :: "Primitives \<Rightarrow> bytes option \<Rightarrow> bytes option \<Rightarrow> bytes \<Rightarrow> bytes \<Rightarrow> bytes \<Rightarrow> token_error + bytes" where
  "TokenEncrypt C ephRnd ivRnd plaintext recipientX25519Pub recipientIdentityHash =
     (if length recipientX25519Pub \<noteq> 32 then Inl RecipientKeyLen
      else if length recipientIdentityHash \<noteq> IdentityHashLen then Inl RecipientHashLen
      else case ephRnd of None \<Rightarrow> Inl Entropy | Some raw \<Rightarrow>
        (let ephPriv = clamp raw
         in case x25519 C ephPriv Basepoint of None \<Rightarrow> Inl ECDHFailed | Some ephPub \<Rightarrow>
            case x25519 C ephPriv recipientX25519Pub of None \<Rightarrow> Inl ECDHFailed | Some shared \<Rightarrow>
              (let (signingKey, encryptionKey) = tokenDeriveKeys C shared recipientIdentityHash
               in case ivRnd of None \<Rightarrow> Inl Entropy | Some iv \<Rightarrow>
                  case aesCBCEncrypt C encryptionKey iv plaintext of Inl e \<Rightarrow> Inl e
                  | Inr ciphertext \<Rightarrow> Inr (ephPub @ iv @ ciphertext @ hmacSHA256 C signingKey [iv, ciphertext]))))"

definition TokenDecrypt :: "Primitives \<Rightarrow> Identity \<Rightarrow> bytes \<Rightarrow> token_error + bytes" where
  "TokenDecrypt C ident wire =
     (if length wire < tokenOverhead + aesBlockSize then Inl (TokenTooShort (length wire))
      else if (length wire - tokenOverhead) mod aesBlockSize \<noteq> 0 then Inl NotBlockAligned
      else
        (let ephPub = take tokenEphPubLen wire;
             iv = take tokenIVLen (drop tokenEphPubLen wire);
             mac = drop (length wire - tokenHMACLen) wire;
             ciphertext = drop (tokenEphPubLen + tokenIVLen) (take (length wire - tokenHMACLen) wire)
         in case x25519 C (x25519Priv ident) ephPub of None \<Rightarrow> Inl ECDHFailed | Some shared \<Rightarrow>
            (let (signingKey, encryptionKey) = tokenDeriveKeys C shared (Hash_id C ident)
             in if mac \<noteq> hmacSHA256 C signingKey [iv, ciphertext] then Inl HMACMismatch
                else aesCBCDecrypt C encryptionKey iv ciphertext)))"

definition linkTokenEncryptWithIV :: "Primitives \<Rightarrow> bytes \<Rightarrow> bytes \<Rightarrow> bytes \<Rightarrow> bytes \<Rightarrow> token_error + bytes" where
  "linkTokenEncryptWithIV C plaintext signing encryption iv =
     (if length iv \<noteq> tokenIVLen then Inl IVLen
      else case aesCBCEncrypt C encryption iv plaintext of Inl e \<Rightarrow> Inl e
           | Inr ciphertext \<Rightarrow> Inr (iv @ ciphertext @ hmacSHA256 C signing [iv, ciphertext]))"

definition LinkTokenEncrypt :: "Primitives \<Rightarrow> bytes option \<Rightarrow> bytes \<Rightarrow> bytes \<Rightarrow> bytes \<Rightarrow> token_error + bytes" where
  "LinkTokenEncrypt C ivRnd plaintext signing encryption =
     (if length signing \<noteq> tokenHMACKeyLen then Inl SigningKeyLen
      else if length encryption \<noteq> tokenAESKeyLen then Inl EncryptionKeyLen
      else case ivRnd of None \<Rightarrow> Inl Entropy | Some iv \<Rightarrow> linkTokenEncryptWithIV C plaintext signing encryption iv)"

definition LinkTokenDecrypt :: "Primitives \<Rightarrow> bytes \<Rightarrow> bytes \<Rightarrow> bytes \<Rightarrow> token_error + bytes" where
  "LinkTokenDecrypt C wire signing encryption =
     (if length signing \<noteq> tokenHMACKeyLen then Inl SigningKeyLen
      else if length encryption \<noteq> tokenAESKeyLen then Inl EncryptionKeyLen
      else if length wire < linkTokenOverhead + aesBlockSize then Inl (TokenTooShort (length wire))
      else if (length wire - linkTokenOverhead) mod aesBlockSize \<noteq> 0 then Inl NotBlockAligned
      else
        (let iv = take tokenIVLen wire;
             mac = drop (length wire - tokenHMACLen) wire;
             ciphertext = drop tokenIVLen (take (length wire - tokenHMACLen) wire)
         in if mac \<noteq> hmacSHA256 C signing [iv, ciphertext] then Inl HMACMismatch
            else aesCBCDecrypt C encryption iv ciphertext))"

section \<open>Padding\<close>

lemma length_pkcs7Pad [wire_simps]: "0 < n \<Longrightarrow> length (pkcs7Pad d n) = n * Suc (length d div n)"
proof -
  assume n: "0 < n"
  then have "length d mod n \<le> n" by (simp add: less_imp_le)
  moreover have "length (pkcs7Pad d n) = length d + (n - length d mod n)" by (simp add: pkcs7Pad_def Let_def)
  ultimately have "length (pkcs7Pad d n) = length d div n * n + n"
    using div_mult_mod_eq [of "length d" n] by linarith
  then show ?thesis by (simp add: mult.commute)
qed

lemma pkcs7Unpad_Pad:
  assumes "0 < n" and "n < 256"
  shows "pkcs7Unpad (pkcs7Pad d n) n = Inr d"
proof -
  define k where "k = n - length d mod n"
  have k: "0 < k" "k \<le> n" using assms by (simp_all add: k_def)
  then have u: "unat (word_of_nat k :: byte) = k" using assms(2) by (simp add: unat_of_nat)
  have e: "pkcs7Pad d n = d @ replicate k (word_of_nat k)" by (simp add: pkcs7Pad_def k_def Let_def)
  have l: "length (pkcs7Pad d n) mod n = 0" using assms by (simp add: length_pkcs7Pad)
  have "last (pkcs7Pad d n) = word_of_nat k" "pkcs7Pad d n \<noteq> []"
    using k by (simp_all add: e last_append last_replicate)
  then show ?thesis using l u k by (simp add: pkcs7Unpad_def e)
qed

lemma pkcs7Unpad_D:
  assumes "pkcs7Unpad x n = Inr d" and "0 < n"
  shows "x = pkcs7Pad d n"
proof -
  define k where "k = unat (last x)"
  have x: "x \<noteq> []" "length x mod n = 0"
    using assms(1) by (auto simp only: pkcs7Unpad_def sum.simps split: if_splits)
  have k': "\<not> (k = 0 \<or> n < k)" and "\<not> (\<exists>b \<in> set (drop (length x - k) x). unat b \<noteq> k)" and d: "d = take (length x - k) x"
    using assms(1) x by (simp_all only: pkcs7Unpad_def Let_def k_def [symmetric] simp_thms if_False sum.simps split: if_splits)
  moreover from k' have k: "0 < k" "k \<le> n" by simp_all
  ultimately have all: "unat b = k" if "b \<in> set (drop (length x - k) x)" for b
    using that by blast
  have kl: "k \<le> length x" using x k(2) by (metis dvd_imp_le dvd_eq_mod_eq_0 length_greater_0_conv order_trans)
  have "b = word_of_nat k" if "b \<in> set (drop (length x - k) x)" for b
    using all [OF that] by auto
  then have "drop (length x - k) x = replicate k (word_of_nat k)"
    using kl by (intro replicate_eqI) simp_all
  then have e: "x = d @ replicate k (word_of_nat k)" by (metis append_take_drop_id d)
  obtain q where q: "length x = n * q" using x(2) by (metis dvd_def dvd_eq_mod_eq_0)
  have "length d = n * q - k" using kl by (simp add: d q)
  moreover have "0 < q" using x(1) q by (cases q) auto
  ultimately have "length d = n * (q - 1) + (n - k)" using k by (cases q) simp_all
  then have "length d mod n = (n - k) mod n" by simp
  then have "n - length d mod n = k" using k assms(2) by (cases "k = n") simp_all
  then show ?thesis by (simp add: pkcs7Pad_def Let_def e)
qed

section \<open>CBC mode\<close>

lemma cbc_encrypt_step: "data \<noteq> [] \<Longrightarrow> cbc_encrypt C key iv data =
    (let c = aes_enc C key (xor_bytes iv (take 16 data)) in c @ cbc_encrypt C key c (drop 16 data))"
  by (cases data) simp_all

lemma cbc_decrypt_step: "data \<noteq> [] \<Longrightarrow> cbc_decrypt C key iv data =
    xor_bytes iv (aes_dec C key (take 16 data)) @ cbc_decrypt C key (take 16 data) (drop 16 data)"
  by (cases data) simp_all

lemma aes_okD:
  "aes_ok C \<Longrightarrow> length k = 32 \<Longrightarrow> length b = 16 \<Longrightarrow> length (aes_enc C k b) = 16"
  "aes_ok C \<Longrightarrow> length k = 32 \<Longrightarrow> length b = 16 \<Longrightarrow> aes_dec C k (aes_enc C k b) = b"
  by (simp_all add: aes_ok_def)

lemma cbc_roundtrip:
  assumes "aes_ok C" and "length key = 32"
  shows "length iv = 16 \<Longrightarrow> length data = 16 * n \<Longrightarrow>
    length (cbc_encrypt C key iv data) = 16 * n \<and> cbc_decrypt C key iv (cbc_encrypt C key iv data) = data"
proof (induction n arbitrary: iv data)
  case 0
  then show ?case by simp
next
  case (Suc n)
  define c where "c = aes_enc C key (xor_bytes iv (take 16 data))"
  have x: "length (xor_bytes iv (take 16 data)) = 16" using Suc.prems by simp
  have c: "length c = 16" "aes_dec C key c = xor_bytes iv (take 16 data)"
    using aes_okD [OF assms x] by (simp_all add: c_def)
  have ne: "data \<noteq> []" "c \<noteq> []" using Suc.prems c(1) by auto
  have e: "cbc_encrypt C key iv data = c @ cbc_encrypt C key c (drop 16 data)"
    using ne by (simp add: cbc_encrypt_step c_def Let_def)
  have IH: "length (cbc_encrypt C key c (drop 16 data)) = 16 * n"
    "cbc_decrypt C key c (cbc_encrypt C key c (drop 16 data)) = drop 16 data"
    using Suc.IH [OF c(1), of "drop 16 data"] Suc.prems by simp_all
  have "cbc_decrypt C key iv (cbc_encrypt C key iv data) = xor_bytes iv (xor_bytes iv (take 16 data)) @ drop 16 data"
    using ne c IH(2) by (simp add: e cbc_decrypt_step)
  also have "\<dots> = data" using Suc.prems by (simp add: xor_bytes_cancel)
  finally show ?case using c IH(1) by (simp add: e)
qed

lemma aesCBC_roundtrip:
  assumes "aes_ok C" and "length key = 32" and "length iv = 16"
  obtains ct where "aesCBCEncrypt C key iv m = Inr ct" and "aesCBCDecrypt C key iv ct = Inr m"
    and "length ct = 16 * Suc (length m div 16)"
proof
  let ?ct = "cbc_encrypt C key iv (pkcs7Pad m 16)"
  have l: "length (pkcs7Pad m 16) = 16 * Suc (length m div 16)" by (simp only: length_pkcs7Pad zero_less_numeral)
  note r = cbc_roundtrip [OF assms l]
  show "aesCBCEncrypt C key iv m = Inr ?ct"
    using assms(2) by (simp add: aesCBCEncrypt_def aes_key_len_def aesBlockSize_def)
  show "aesCBCDecrypt C key iv ?ct = Inr m"
    using assms(2) r by (simp add: aesCBCDecrypt_def aes_key_len_def aesBlockSize_def pkcs7Unpad_Pad)
  show "length ?ct = 16 * Suc (length m div 16)" using r by simp
qed

section \<open>Sealing and opening\<close>

text \<open>What both ciphers promise: under good keys and entropy, sealing succeeds and opening the result
  gives the message back.\<close>

locale sealed_box =
  fixes seal :: "'k \<Rightarrow> 'r \<Rightarrow> bytes \<Rightarrow> token_error + bytes"
    and unseal :: "'k \<Rightarrow> bytes \<Rightarrow> token_error + bytes"
    and good :: "'k \<Rightarrow> 'r \<Rightarrow> bool"
    and overhead :: nat
  assumes unseal_seal: "good k r \<Longrightarrow> \<exists>w. seal k r m = Inr w \<and> unseal k w = Inr m"
    and seal_length: "good k r \<Longrightarrow> seal k r m = Inr w \<Longrightarrow> length w = overhead + 16 * Suc (length m div 16)"
begin

lemma recovered: "good k r \<Longrightarrow> seal k r m = Inr w \<Longrightarrow> unseal k w = Inr m"
  by (metis unseal_seal sum.inject(2))

lemma never_confused: "good k r \<Longrightarrow> good k r' \<Longrightarrow> seal k r m = seal k r' m' \<Longrightarrow> m = m'"
  by (metis unseal_seal sum.inject(2))

lemma sealed: "good k r \<Longrightarrow> \<exists>w. seal k r m = Inr w \<and> unseal k w = Inr m \<and> length w = overhead + 16 * Suc (length m div 16)"
  using unseal_seal [of k r m] seal_length by blast

end

lemma tokenDeriveKeys_len:
  "digests_ok C \<Longrightarrow> tokenDeriveKeys C s t = (sk, ek) \<Longrightarrow> length sk = 32 \<and> length ek = 32"
  by (auto simp: tokenDeriveKeys_def Let_def token_lens length_hkdf)

text \<open>The keys of a link are good when they have the lengths the handshake gives them.\<close>

definition link_keys_ok :: "Primitives \<times> bytes \<times> bytes \<Rightarrow> bytes option \<Rightarrow> bool" where
  "link_keys_ok k r = (case k of (C, signing, encryption) \<Rightarrow> crypto_ok C \<and> length signing = 32 \<and> length encryption = 32
     \<and> (case r of None \<Rightarrow> False | Some iv \<Rightarrow> length iv = 16))"

definition link_seal :: "Primitives \<times> bytes \<times> bytes \<Rightarrow> bytes option \<Rightarrow> bytes \<Rightarrow> token_error + bytes" where
  "link_seal k r m = (case k of (C, signing, encryption) \<Rightarrow> LinkTokenEncrypt C r m signing encryption)"

definition link_unseal :: "Primitives \<times> bytes \<times> bytes \<Rightarrow> bytes \<Rightarrow> token_error + bytes" where
  "link_unseal k w = (case k of (C, signing, encryption) \<Rightarrow> LinkTokenDecrypt C w signing encryption)"

lemma link_token_sealed:
  assumes "link_keys_ok (C, sk, ek) (Some iv)"
  obtains w where "LinkTokenEncrypt C (Some iv) m sk ek = Inr w" and "LinkTokenDecrypt C w sk ek = Inr m"
    and "length w = 48 + 16 * Suc (length m div 16)"
proof -
  from assms have ok: "crypto_ok C" "length sk = 32" "length ek = 32" "length iv = 16"
    by (simp_all add: link_keys_ok_def)
  obtain ct where ct: "aesCBCEncrypt C ek iv m = Inr ct" "aesCBCDecrypt C ek iv ct = Inr m" "length ct = 16 * Suc (length m div 16)"
    using aesCBC_roundtrip [OF crypto_okD(4) [OF ok(1)] ok(3,4)] by blast
  let ?mac = "hmac C sk (iv @ ct)"
  have mac: "length ?mac = 32" by (simp add: length_hmac crypto_okD(1) [OF ok(1)])
  show thesis
  proof
    show "LinkTokenEncrypt C (Some iv) m sk ek = Inr (iv @ ct @ ?mac)"
      using ok ct by (simp add: LinkTokenEncrypt_def linkTokenEncryptWithIV_def token_lens hmacSHA256_def)
    show "LinkTokenDecrypt C (iv @ ct @ ?mac) sk ek = Inr m"
      using ok ct mac by (simp add: LinkTokenDecrypt_def token_lens hmacSHA256_def)
    show "length (iv @ ct @ ?mac) = 48 + 16 * Suc (length m div 16)" using ok ct mac by simp
  qed
qed

interpretation link_box: sealed_box link_seal link_unseal link_keys_ok 48
proof
  fix k :: "Primitives \<times> bytes \<times> bytes" and r :: "bytes option" and m w :: bytes
  assume g: "link_keys_ok k r"
  obtain C sk ek where k: "k = (C, sk, ek)" by (cases k)
  from g k obtain iv where r: "r = Some iv" by (cases r) (auto simp: link_keys_ok_def)
  obtain w' where w': "LinkTokenEncrypt C (Some iv) m sk ek = Inr w'" "LinkTokenDecrypt C w' sk ek = Inr m"
    "length w' = 48 + 16 * Suc (length m div 16)"
    using link_token_sealed g unfolding k r by blast
  then show "\<exists>w. link_seal k r m = Inr w \<and> link_unseal k w = Inr m"
    by (simp add: link_seal_def link_unseal_def k r)
  show "link_seal k r m = Inr w \<Longrightarrow> length w = 48 + 16 * Suc (length m div 16)"
    using w' by (simp add: link_seal_def k r)
qed

text \<open>An identity as a recipient; the sender uses only its public half and its hash.\<close>

definition eph_ok :: "Primitives \<times> Identity \<Rightarrow> bytes option \<times> bytes option \<Rightarrow> bool" where
  "eph_ok k r = (case k of (C, ident) \<Rightarrow> crypto_ok C \<and> identity_ok C ident \<and>
     (case r of (Some e, Some iv) \<Rightarrow> length e = 32 \<and> length iv = 16 \<and> x25519 C (clamp e) Basepoint \<noteq> None
        \<and> x25519 C (clamp e) (x25519Pub ident) \<noteq> None
      | _ \<Rightarrow> False))"

definition eph_seal :: "Primitives \<times> Identity \<Rightarrow> bytes option \<times> bytes option \<Rightarrow> bytes \<Rightarrow> token_error + bytes" where
  "eph_seal k r m = (case k of (C, ident) \<Rightarrow> TokenEncrypt C (fst r) (snd r) m (X25519Public ident) (Hash_id C ident))"

definition eph_unseal :: "Primitives \<times> Identity \<Rightarrow> bytes \<Rightarrow> token_error + bytes" where
  "eph_unseal k w = (case k of (C, ident) \<Rightarrow> TokenDecrypt C ident w)"

lemma token_sealed:
  assumes "eph_ok (C, ident) (Some e, Some iv)"
  obtains w where "TokenEncrypt C (Some e) (Some iv) m (X25519Public ident) (Hash_id C ident) = Inr w"
    and "TokenDecrypt C ident w = Inr m" and "length w = 80 + 16 * Suc (length m div 16)"
proof -
  from assms have ok: "crypto_ok C" "identity_ok C ident" "length e = 32" "length iv = 16"
    by (simp_all add: eph_ok_def)
  from assms obtain ephPub shared where dh: "x25519 C (clamp e) Basepoint = Some ephPub" "x25519 C (clamp e) (x25519Pub ident) = Some shared"
    by (auto simp: eph_ok_def)
  have priv: "length (x25519Priv ident) = 32" "x25519 C (x25519Priv ident) Basepoint = Some (x25519Pub ident)"
    using ok(2) by (simp_all add: identity_ok_def)
  have sh: "x25519 C (x25519Priv ident) ephPub = Some shared"
    using dh_commute [OF crypto_okD(2) [OF ok(1)] _ priv(1) dh(1) priv(2)] ok(3) dh(2) by simp
  have eph: "length ephPub = 32" using dh_length [OF crypto_okD(2) [OF ok(1)] _ length_Basepoint dh(1)] ok(3) by simp
  obtain sk ek where keys: "tokenDeriveKeys C shared (Hash_id C ident) = (sk, ek)" by (meson surj_pair)
  then have kl: "length sk = 32" "length ek = 32" using tokenDeriveKeys_len crypto_okD(1) [OF ok(1)] by blast+
  obtain ct where ct: "aesCBCEncrypt C ek iv m = Inr ct" "aesCBCDecrypt C ek iv ct = Inr m" "length ct = 16 * Suc (length m div 16)"
    using aesCBC_roundtrip [OF crypto_okD(4) [OF ok(1)] kl(2) ok(4)] by blast
  let ?mac = "hmac C sk (iv @ ct)"
  have mac: "length ?mac = 32" by (simp add: length_hmac crypto_okD(1) [OF ok(1)])
  show thesis
  proof
    show "TokenEncrypt C (Some e) (Some iv) m (X25519Public ident) (Hash_id C ident) = Inr (ephPub @ iv @ ct @ ?mac)"
      using ok dh keys ct identity_keys [OF ok(1,2)] length_Hash_id [OF ok(1,2)]
      by (simp add: TokenEncrypt_def X25519Public_def token_lens key_lens hmacSHA256_def)
    show "TokenDecrypt C ident (ephPub @ iv @ ct @ ?mac) = Inr m"
      using ok eph sh keys ct mac by (simp add: TokenDecrypt_def token_lens hmacSHA256_def)
    show "length (ephPub @ iv @ ct @ ?mac) = 80 + 16 * Suc (length m div 16)" using ok eph ct mac by simp
  qed
qed

interpretation eph_box: sealed_box eph_seal eph_unseal eph_ok 80
proof
  fix k :: "Primitives \<times> Identity" and r :: "bytes option \<times> bytes option" and m w :: bytes
  assume g: "eph_ok k r"
  obtain C ident where k: "k = (C, ident)" by (cases k)
  from g k obtain e iv where r: "r = (Some e, Some iv)" by (cases r) (auto simp: eph_ok_def split: option.splits)
  obtain w' where w': "TokenEncrypt C (Some e) (Some iv) m (X25519Public ident) (Hash_id C ident) = Inr w'"
    "TokenDecrypt C ident w' = Inr m" "length w' = 80 + 16 * Suc (length m div 16)"
    using token_sealed g unfolding k r by blast
  then show "\<exists>w. eph_seal k r m = Inr w \<and> eph_unseal k w = Inr m"
    by (simp add: eph_seal_def eph_unseal_def k r)
  show "eph_seal k r m = Inr w \<Longrightarrow> length w = 80 + 16 * Suc (length m div 16)"
    using w' by (simp add: eph_seal_def k r)
qed

section \<open>The layout of a token\<close>

lemma token_layout:
  assumes "\<not> length w < 96" and "(length w - 80) mod 16 = 0"
  obtains ephPub iv ct mac where "w = ephPub @ iv @ ct @ mac" and "length ephPub = 32" and "length iv = 16" and "length mac = 32"
    and "ct \<noteq> []" and "16 dvd length ct"
proof
  let ?a = "drop 32 w"
  let ?b = "drop 16 ?a"
  show "w = take 32 w @ take 16 ?a @ take (length ?b - 32) ?b @ drop (length ?b - 32) ?b"
    by (simp only: append_take_drop_id)
  show "length (take 32 w) = 32" "length (take 16 ?a) = 16" "length (drop (length ?b - 32) ?b) = 32"
    using assms(1) by simp_all
  have "length (take (length ?b - 32) ?b) = length w - 80" by simp
  then show "take (length ?b - 32) ?b \<noteq> []" "16 dvd length (take (length ?b - 32) ?b)"
    using assms by (auto simp: mod_eq_0_iff_dvd simp del: length_take length_drop)
qed

lemma TokenDecrypt_parts:
  assumes "length ephPub = 32" and "length iv = 16" and "length mac = 32" and "ct \<noteq> []" and "16 dvd length ct"
  shows "TokenDecrypt C ident (ephPub @ iv @ ct @ mac) =
     (case x25519 C (x25519Priv ident) ephPub of None \<Rightarrow> Inl ECDHFailed | Some shared \<Rightarrow>
        (case tokenDeriveKeys C shared (Hash_id C ident) of (sk, ek) \<Rightarrow>
           if mac \<noteq> hmac C sk (iv @ ct) then Inl HMACMismatch else aesCBCDecrypt C ek iv ct))"
proof -
  have "16 \<le> length ct" using assms(4,5) by (simp add: dvd_imp_le)
  then show ?thesis using assms by (simp add: TokenDecrypt_def token_lens hmacSHA256_def mod_eq_0_iff_dvd split: option.split prod.split)
qed

definition demo_token :: bytes where
  "demo_token = (case TokenEncrypt demo_crypto (Some (replicate 32 9)) (Some (replicate 16 5)) [1, 2, 3]
     (X25519Public (demo_identity 4)) (Hash_id demo_crypto (demo_identity 4)) of Inr w \<Rightarrow> w | Inl e \<Rightarrow> [])"

lemma demo_token_opens: "TokenDecrypt demo_crypto (demo_identity 4) demo_token = Inr [1, 2, 3]"
proof -
  have "eph_ok (demo_crypto, demo_identity 4) (Some (replicate 32 9), Some (replicate 16 5))"
    using demo_crypto_ok demo_identity_ok by (simp add: eph_ok_def) (simp add: demo_crypto_def)
  from eph_box.sealed [OF this, of "[1, 2, 3]"] show ?thesis
    by (auto simp: eph_seal_def eph_unseal_def demo_token_def)
qed

section \<open>Properties\<close>

text \<open>Unpadding inverts padding and nothing else: for every block size up to 255, a padded block sequence is
  accepted with result \<open>d\<close> exactly when it is the padding of \<open>d\<close>.\<close>

theorem pkcs7_exact:
  assumes "0 < n" and "n < 256"
  shows "pkcs7Unpad x n = Inr d \<longleftrightarrow> x = pkcs7Pad d n"
  using pkcs7Unpad_Pad [OF assms] pkcs7Unpad_D assms(1) by blast

theorem pkcs7_exact_witness: "pkcs7Unpad [7, 3, 3, 3] 4 = Inr [7] \<longleftrightarrow> [7, 3, 3, 3] = pkcs7Pad [7] 4"
  by (rule pkcs7_exact) simp_all

text \<open>C23. Opportunistic encryption round trip: whatever the plaintext, and whatever key and IV the sender draws,
  encrypting to the public key and identity hash of a recipient succeeds, the recipient decrypts exactly
  that plaintext, and the token is 80 bytes plus the padded plaintext. Both Diffie-Hellman computations
  of the sender are assumed not to hit a low-order point.\<close>

theorem token_roundtrip:
  assumes "crypto_ok C" and "identity_ok C ident" and "length e = 32" and "length iv = 16"
    and "x25519 C (clamp e) Basepoint \<noteq> None" and "x25519 C (clamp e) (X25519Public ident) \<noteq> None"
  shows "\<exists>w. TokenEncrypt C (Some e) (Some iv) m (X25519Public ident) (Hash_id C ident) = Inr w
     \<and> TokenDecrypt C ident w = Inr m \<and> length w = 80 + 16 * Suc (length m div 16)"
  using eph_box.sealed [of "(C, ident)" "(Some e, Some iv)" m] assms
  by (simp add: eph_ok_def eph_seal_def eph_unseal_def X25519Public_def)

theorem token_roundtrip_witness:
  "\<exists>w. TokenEncrypt demo_crypto (Some (replicate 32 9)) (Some (replicate 16 5)) [1, 2, 3]
       (X25519Public (demo_identity 4)) (Hash_id demo_crypto (demo_identity 4)) = Inr w
     \<and> TokenDecrypt demo_crypto (demo_identity 4) w = Inr [1, 2, 3] \<and> length w = 80 + 16 * Suc (length [1, 2, 3 :: byte] div 16)"
  by (rule token_roundtrip [OF demo_crypto_ok demo_identity_ok]) (simp_all add: demo_crypto_def)

text \<open>C24. Authentication before decryption: a token that is accepted consists of an ephemeral key, an IV, a
  non-empty block-aligned ciphertext and exactly the MAC of IV and ciphertext under the derived signing key, and
  the plaintext is the one whose padding the ciphertext decrypts to. Every other MAC on the same bytes is refused
  with the MAC error, before any padding is looked at.\<close>

theorem TokenDecrypt_authentic:
  assumes "TokenDecrypt C ident w = Inr m"
  shows "\<exists>ephPub iv ct shared sk ek. w = ephPub @ iv @ ct @ hmac C sk (iv @ ct) \<and> length ephPub = 32 \<and> length iv = 16
     \<and> ct \<noteq> [] \<and> 16 dvd length ct
     \<and> x25519 C (x25519Priv ident) ephPub = Some shared \<and> tokenDeriveKeys C shared (Hash_id C ident) = (sk, ek)
     \<and> cbc_decrypt C ek iv ct = pkcs7Pad m 16
     \<and> (\<forall>mac. length mac = 32 \<longrightarrow> mac \<noteq> hmac C sk (iv @ ct) \<longrightarrow> TokenDecrypt C ident (ephPub @ iv @ ct @ mac) = Inl HMACMismatch)"
proof -
  have "\<not> length w < 96" "(length w - 80) mod 16 = 0"
    using assms by (auto simp: TokenDecrypt_def token_lens split: if_splits)
  then obtain ephPub iv ct mac where w: "w = ephPub @ iv @ ct @ mac" and len: "length ephPub = 32" "length iv = 16" "length mac = 32"
    and ct: "ct \<noteq> []" "16 dvd length ct"
    by (rule token_layout)
  note parts = TokenDecrypt_parts [OF len(1,2) _ ct, of _ C ident]
  obtain shared where sh: "x25519 C (x25519Priv ident) ephPub = Some shared"
    using assms parts [OF len(3)] by (cases "x25519 C (x25519Priv ident) ephPub") (simp_all add: w)
  obtain sk ek where keys: "tokenDeriveKeys C shared (Hash_id C ident) = (sk, ek)" by (meson surj_pair)
  have mac: "mac = hmac C sk (iv @ ct)" and "aesCBCDecrypt C ek iv ct = Inr m"
    using assms by (simp_all add: w parts [OF len(3)] sh keys split: if_splits)
  then have pad: "cbc_decrypt C ek iv ct = pkcs7Pad m 16"
    by (auto simp: aesCBCDecrypt_def aesBlockSize_def intro: pkcs7Unpad_D split: if_splits)
  have "\<forall>mac'. length mac' = 32 \<longrightarrow> mac' \<noteq> hmac C sk (iv @ ct) \<longrightarrow> TokenDecrypt C ident (ephPub @ iv @ ct @ mac') = Inl HMACMismatch"
    by (simp add: parts sh keys)
  with w len ct sh keys mac pad show ?thesis by blast
qed

theorem TokenDecrypt_authentic_witness:
  "TokenDecrypt demo_crypto (demo_identity 4) demo_token = Inr [1, 2, 3] \<and>
   (\<exists>ephPub iv ct shared sk ek. demo_token = ephPub @ iv @ ct @ hmac demo_crypto sk (iv @ ct) \<and> length ephPub = 32 \<and> length iv = 16
     \<and> ct \<noteq> [] \<and> 16 dvd length ct
     \<and> x25519 demo_crypto (x25519Priv (demo_identity 4)) ephPub = Some shared
     \<and> tokenDeriveKeys demo_crypto shared (Hash_id demo_crypto (demo_identity 4)) = (sk, ek)
     \<and> cbc_decrypt demo_crypto ek iv ct = pkcs7Pad [1, 2, 3] 16
     \<and> (\<forall>mac. length mac = 32 \<longrightarrow> mac \<noteq> hmac demo_crypto sk (iv @ ct)
         \<longrightarrow> TokenDecrypt demo_crypto (demo_identity 4) (ephPub @ iv @ ct @ mac) = Inl HMACMismatch))"
  using TokenDecrypt_authentic [OF demo_token_opens] demo_token_opens by (rule conjI [rotated])

end
