(* ===== verification/Announce.thy ===== *)
theory Announce
  imports Crypto Packet
begin

text \<open>
  Announces (\<open>internal/rns/announce.go\<close>), the proofs that acknowledge opportunistic packets (\<open>proof.go\<close>) and
  path requests (\<open>path.go\<close>). The clock and the random source are arguments. The msgpack library is a
  record of functions; only what the code reads with it is named.
\<close>

section \<open>Announces\<close>

definition randomHashLen :: nat where "randomHashLen = 10"
definition ratchetPubLen :: nat where "ratchetPubLen = 32"
definition announceSigLen :: nat where "announceSigLen = 64"
definition announceMinNoRatchet :: nat where "announceMinNoRatchet = PublicKeyLen + NameHashLen + 10 + 64"
definition announceMinWithRatch :: nat where "announceMinWithRatch = announceMinNoRatchet + 32"

lemmas announce_lens = randomHashLen_def ratchetPubLen_def announceSigLen_def announceMinNoRatchet_def
  announceMinWithRatch_def key_lens

text \<open>A nil \<open>RatchetPub\<close> or \<open>TransportID\<close> is the empty list.\<close>

record Announce =
  DestHash_a :: bytes
  PublicKey_a :: bytes
  NameHash_a :: bytes
  RandomHash :: bytes
  RatchetPub :: bytes
  Signature :: bytes
  AppData :: bytes
  ContextFlag_a :: bool
  Hops_a :: byte
  TransportID_a :: bytes

datatype announce_error =
    RatchetLen nat | RandomEntropy | NotAnnounce byte | BodyTooShort nat
  | RandomHashLen nat | MalformedLength | SignatureInvalid | DestHashMismatch | HashPanic

definition EmittedAt :: "Announce \<Rightarrow> announce_error + time" where
  "EmittedAt a =
     (if length (RandomHash a) \<noteq> randomHashLen then Inl (RandomHashLen (length (RandomHash a)))
      else case DecodeBigEndianUint40 (drop 5 (RandomHash a)) of
             Inl n \<Rightarrow> Inl (RandomHashLen n)
           | Inr secs \<Rightarrow> Inr (sint secs * second))"

definition buildAnnounceSignedData :: "bytes \<Rightarrow> bytes \<Rightarrow> bytes \<Rightarrow> bytes \<Rightarrow> bytes \<Rightarrow> bytes \<Rightarrow> bytes" where
  "buildAnnounceSignedData destHash pubKey nameHash randomHash ratchetPub appData =
     destHash @ pubKey @ nameHash @ randomHash @ ratchetPub @ appData"

text \<open>\<open>ratchetPub\<close> is \<open>None\<close> for a nil slice; \<open>rnd\<close> is the five random bytes drawn.\<close>

definition buildAnnounce ::
  "Primitives \<Rightarrow> Identity \<Rightarrow> string \<Rightarrow> bytes \<Rightarrow> bytes option \<Rightarrow> byte \<Rightarrow> time \<Rightarrow> bytes option \<Rightarrow> announce_error + Packet" where
  "buildAnnounce C ident fullName appData ratchetPub ctx now rnd =
     (if (case ratchetPub of None \<Rightarrow> False | Some r \<Rightarrow> length r \<noteq> ratchetPubLen) then Inl (RatchetLen (length (the ratchetPub)))
      else
        (let nameHash = NameHash C fullName
         in case DestinationHash C nameHash (Hash_id C ident) of None \<Rightarrow> Inl HashPanic | Some destHash \<Rightarrow>
            case rnd of None \<Rightarrow> Inl RandomEntropy | Some r5 \<Rightarrow>
              (let rh = r5 @ BigEndianUint40 (word_of_int (now div second));
                   ratchet = (case ratchetPub of None \<Rightarrow> [] | Some r \<Rightarrow> r);
                   sig = Sign C ident (buildAnnounceSignedData destHash (PublicKey ident) nameHash rh ratchet appData)
               in Inr \<lparr>HeaderType = HeaderType1, ContextFlag = (ratchetPub \<noteq> None), TransportType = BroadcastTransport,
                       DestinationType = DestinationSingle, PacketType = PacketAnnounce, Hops = 0, TransportID = [],
                       DestHash = destHash, Context = ctx,
                       Data = PublicKey ident @ nameHash @ rh @ ratchet @ sig @ appData\<rparr>)))"

definition BuildAnnounceWithContext ::
  "Primitives \<Rightarrow> time \<Rightarrow> bytes option \<Rightarrow> Identity \<Rightarrow> string \<Rightarrow> bytes \<Rightarrow> bytes option \<Rightarrow> byte \<Rightarrow> announce_error + Packet" where
  "BuildAnnounceWithContext C now rnd ident fullName appData ratchetPub ctx =
     buildAnnounce C ident fullName appData ratchetPub ctx now rnd"

definition BuildAnnounce ::
  "Primitives \<Rightarrow> time \<Rightarrow> bytes option \<Rightarrow> Identity \<Rightarrow> string \<Rightarrow> bytes \<Rightarrow> bytes option \<Rightarrow> announce_error + Packet" where
  "BuildAnnounce C now rnd ident fullName appData ratchetPub =
     BuildAnnounceWithContext C now rnd ident fullName appData ratchetPub ContextNone"

definition ParseAnnounce :: "Packet \<Rightarrow> announce_error + Announce" where
  "ParseAnnounce p =
     (if PacketType p \<noteq> PacketAnnounce then Inl (NotAnnounce (PacketType p))
      else
        (let body = Data p;
             ratchetLen = (if ContextFlag p then ratchetPubLen else 0);
             keysLen = PublicKeyLen + NameHashLen + randomHashLen;
             sigStart = keysLen + ratchetLen
         in if length body < (if ContextFlag p then announceMinWithRatch else announceMinNoRatchet)
            then Inl (BodyTooShort (length body))
            else Inr \<lparr>DestHash_a = DestHash p,
                      PublicKey_a = take PublicKeyLen body,
                      NameHash_a = take NameHashLen (drop PublicKeyLen body),
                      RandomHash = take randomHashLen (drop (PublicKeyLen + NameHashLen) body),
                      RatchetPub = take ratchetLen (drop keysLen body),
                      Signature = take announceSigLen (drop sigStart body),
                      AppData = drop (sigStart + announceSigLen) body,
                      ContextFlag_a = ContextFlag p, Hops_a = Hops p, TransportID_a = TransportID p\<rparr>))"

fun bytesEqual :: "bytes \<Rightarrow> bytes \<Rightarrow> bool" where
  "bytesEqual a b = (if length a \<noteq> length b then False else list_all2 (=) a b)"

text \<open>\<open>None\<close> is the nil error.\<close>

definition Verify :: "Primitives \<Rightarrow> Announce \<Rightarrow> announce_error option" where
  "Verify C a =
     (if length (PublicKey_a a) \<noteq> PublicKeyLen \<or> length (Signature a) \<noteq> announceSigLen then Some MalformedLength
      else
        (let signed = buildAnnounceSignedData (DestHash_a a) (PublicKey_a a) (NameHash_a a) (RandomHash a) (RatchetPub a) (AppData a)
         in if \<not> Validate C (drop 32 (PublicKey_a a)) signed (Signature a) then Some SignatureInvalid
            else case DestinationHash C (NameHash_a a) (take IdentityHashLen (sha256 C (PublicKey_a a))) of
                   None \<Rightarrow> Some HashPanic
                 | Some expected \<Rightarrow> if \<not> bytesEqual expected (DestHash_a a) then Some DestHashMismatch else None))"

section \<open>Application data of LXMF announces\<close>

text \<open>The msgpack calls: marshalling \<open>[]any{displayName, stampField}\<close>, and unmarshalling into a slice of raw
  messages, into a byte slice and into a string.\<close>

record Msgpack =
  marshal_app_data :: "bytes \<Rightarrow> int option \<Rightarrow> bytes option"
  unmarshal_array :: "bytes \<Rightarrow> bytes list option"
  unmarshal_bin :: "bytes \<Rightarrow> bytes option"
  unmarshal_str :: "bytes \<Rightarrow> bytes option"

definition EncodeLXMFAppData :: "Msgpack \<Rightarrow> bytes \<Rightarrow> int option \<Rightarrow> bytes option" where
  "EncodeLXMFAppData M displayName stampCost = marshal_app_data M displayName stampCost"

text \<open>The outer \<open>None\<close> is the error; the empty slice stands for nil.\<close>

definition DecodeLXMFAppDataDisplayName :: "Msgpack \<Rightarrow> bytes \<Rightarrow> bytes option" where
  "DecodeLXMFAppDataDisplayName M data =
     (if data = [] then Some []
      else case unmarshal_array M data of
             Some (x # xs) \<Rightarrow>
               (case unmarshal_bin M x of Some name \<Rightarrow> Some name | None \<Rightarrow> unmarshal_str M x)
           | _ \<Rightarrow> Some data)"

section \<open>Proofs of opportunistic packets\<close>

definition ProofBodyImplicitLen :: nat where "ProofBodyImplicitLen = 64"
definition ProofBodyExplicitLen :: nat where "ProofBodyExplicitLen = 32 + 64"

datatype proof_error = HashableFailed packet_error | SignatureLen nat

definition ProveOpportunistic :: "Primitives \<Rightarrow> Identity \<Rightarrow> Packet \<Rightarrow> proof_error + Packet" where
  "ProveOpportunistic C receiver original =
     (case HashablePart original of Inl e \<Rightarrow> Inl (HashableFailed e) | Inr hashable \<Rightarrow>
        (let digest = sha256 C hashable; sig = Sign C receiver digest
         in if length sig \<noteq> ProofBodyImplicitLen then Inl (SignatureLen (length sig))
            else Inr \<lparr>HeaderType = HeaderType1, ContextFlag = False, TransportType = BroadcastTransport,
                      DestinationType = DestinationSingle, PacketType = PacketProof, Hops = 0, TransportID = [],
                      DestHash = take IdentityHashLen digest, Context = ContextNone, Data = sig\<rparr>))"

section \<open>Path requests\<close>

definition PathRequestDestHashHex :: string where
  "PathRequestDestHashHex = ''6b9f66014d9853faab220fba47d02761''"

definition PathRequestPayloadLen :: nat where "PathRequestPayloadLen = 32"

datatype path_error = TargetLen nat | BadHexConstant | TagEntropy | PayloadTooShort

definition BuildPathRequest :: "bytes option \<Rightarrow> bytes \<Rightarrow> path_error + Packet" where
  "BuildPathRequest rnd targetDestHash =
     (if length targetDestHash \<noteq> IdentityHashLen then Inl (TargetLen (length targetDestHash))
      else case hex_decode PathRequestDestHashHex of None \<Rightarrow> Inl BadHexConstant | Some wellKnown \<Rightarrow>
        (case rnd of None \<Rightarrow> Inl TagEntropy | Some tag \<Rightarrow>
           Inr \<lparr>HeaderType = HeaderType1, ContextFlag = False, TransportType = BroadcastTransport,
                DestinationType = DestinationPlain, PacketType = PacketData, Hops = 0, TransportID = [],
                DestHash = wellKnown, Context = ContextNone, Data = targetDestHash @ tag\<rparr>))"

definition PathRequestTarget :: "bytes \<Rightarrow> path_error + bytes" where
  "PathRequestTarget payload =
     (if length payload < IdentityHashLen then Inl PayloadTooShort else Inr (take IdentityHashLen payload))"

section \<open>Lemmas\<close>

lemma bytesEqual_iff [simp]: "bytesEqual a b \<longleftrightarrow> a = b"
  by (auto simp: list.rel_eq)

declare bytesEqual.simps [simp del]

text \<open>What a packet holds that \<open>buildAnnounce\<close> returns.\<close>

definition announce_body :: "Primitives \<Rightarrow> Identity \<Rightarrow> bytes \<Rightarrow> bytes \<Rightarrow> bytes \<Rightarrow> bytes \<Rightarrow> bytes \<Rightarrow> bytes" where
  "announce_body C ident dest nameHash rh ratchet appData =
     PublicKey ident @ nameHash @ rh @ ratchet
       @ Sign C ident (buildAnnounceSignedData dest (PublicKey ident) nameHash rh ratchet appData) @ appData"

lemma buildAnnounceE:
  assumes "buildAnnounce C ident name app ratchet ctx now (Some r5) = Inr p"
  obtains dest where "DestinationHashFor C ident name = Some dest"
    and "\<And>r. ratchet = Some r \<Longrightarrow> length r = 32"
    and "p = \<lparr>HeaderType = 0, ContextFlag = (ratchet \<noteq> None), TransportType = 0, DestinationType = 0, PacketType = 1, Hops = 0,
        TransportID = [], DestHash = dest, Context = ctx,
        Data = announce_body C ident dest (NameHash C name) (r5 @ BigEndianUint40 (word_of_int (now div second)))
          (case ratchet of None \<Rightarrow> [] | Some r \<Rightarrow> r) app\<rparr>"
  using assms
  by (auto simp: buildAnnounce_def Let_def DestinationHashFor_def announce_body_def ratchetPubLen_def split: if_splits option.splits)

lemma buildAnnounce_total:
  assumes "crypto_ok C" and "identity_ok C ident" and "\<And>r. ratchet = Some r \<Longrightarrow> length r = 32"
  shows "\<exists>p. buildAnnounce C ident name app ratchet ctx now (Some r5) = Inr p"
proof -
  obtain h where "DestinationHashFor C ident name = Some h" using DestinationHashFor_Some [OF assms(1,2)] by blast
  then show ?thesis
    using assms(3) by (auto simp: buildAnnounce_def Let_def DestinationHashFor_def ratchetPubLen_def split: option.splits)
qed

lemma announce_parse:
  assumes "length pub = 64" and "length nameHash = 10" and "length rh = 10" and "length sig = 64"
    and "length ratchet = (if ContextFlag p then 32 else 0)"
    and "PacketType p = PacketAnnounce" and "Data p = pub @ nameHash @ rh @ ratchet @ sig @ app"
  shows "ParseAnnounce p = Inr \<lparr>DestHash_a = DestHash p, PublicKey_a = pub, NameHash_a = nameHash, RandomHash = rh, RatchetPub = ratchet,
     Signature = sig, AppData = app, ContextFlag_a = ContextFlag p, Hops_a = Hops p, TransportID_a = TransportID p\<rparr>"
  using assms by (cases "ContextFlag p") (simp_all add: ParseAnnounce_def announce_lens)

lemma Verify_signed:
  assumes ok: "crypto_ok C" "identity_ok C ident" and dest: "DestinationHashFor C ident name = Some dest"
  shows "Verify C \<lparr>DestHash_a = dest, PublicKey_a = PublicKey ident, NameHash_a = NameHash C name, RandomHash = rh, RatchetPub = ratchet,
     Signature = Sign C ident (buildAnnounceSignedData dest (PublicKey ident) (NameHash C name) rh ratchet app),
     AppData = app, ContextFlag_a = cf, Hops_a = h, TransportID_a = tid\<rparr> = None"
proof -
  have k: "length (PublicKey ident) = 64" "drop 32 (PublicKey ident) = ed25519Pub ident"
    using identity_keys [OF ok] by (simp_all add: PublicKey_def)
  then have "Hash_id C ident = take IdentityHashLen (sha256 C (PublicKey ident))"
    by (simp add: Hash_id_def IdentityHashFromPublicKey_def key_lens)
  then show ?thesis
    using k dest Sign_Validate [OF ok] length_Sign [OF ok]
    by (simp add: Verify_def announce_lens DestinationHashFor_def)
qed

lemma Verify_None:
  assumes "Verify C a = None"
  shows "Validate C (drop 32 (PublicKey_a a))
      (buildAnnounceSignedData (DestHash_a a) (PublicKey_a a) (NameHash_a a) (RandomHash a) (RatchetPub a) (AppData a)) (Signature a)"
    and "DestinationHash C (NameHash_a a) (take IdentityHashLen (sha256 C (PublicKey_a a))) = Some (DestHash_a a)"
    and "length (PublicKey_a a) = 64"
  using assms by (auto simp: Verify_def Let_def key_lens split: if_splits option.splits)

lemma secs40:
  assumes "0 \<le> s" and "s < 2 ^ 40"
  shows "sint ((word_of_int s :: 64 word) AND mask 40) = s"
proof -
  have "(word_of_int s :: 64 word) AND mask 40 = word_of_int (take_bit 40 s)"
    by (rule bit_word_eqI) (auto simp: bit_simps)
  also have "take_bit 40 s = s" using assms by (simp add: take_bit_int_eq_self)
  finally show ?thesis using assms by (simp add: sint_word_ariths signed_of_int signed_take_bit_int_eq_self)
qed

lemma take_pieces:
  assumes "(a :: nat) \<le> b" "b \<le> c" "c \<le> d"
  shows "take a xs @ take (b - a) (drop a xs) @ take (c - b) (drop b xs) @ drop c (take d xs) = take d xs"
proof -
  have "drop c (take d xs) = take (d - c) (drop c xs)" by (simp add: drop_take)
  moreover have "take a xs @ take (b - a) (drop a xs) = take b xs" using assms by (simp add: take_add [symmetric])
  moreover have "take b xs @ take (c - b) (drop b xs) = take c xs" using assms by (simp add: take_add [symmetric])
  moreover have "take c xs @ take (d - c) (drop c xs) = take d xs" using assms by (simp add: take_add [symmetric])
  ultimately show ?thesis by (metis append.assoc)
qed

text \<open>What a receiver reads from an announce that came through relays.\<close>

definition received ::
  "Primitives \<Rightarrow> Identity \<Rightarrow> bytes \<Rightarrow> string \<Rightarrow> bytes \<Rightarrow> bytes option \<Rightarrow> time \<Rightarrow> bytes \<Rightarrow> byte \<Rightarrow> bytes \<Rightarrow> Announce" where
  "received C ident dest name app ratchet now rnd h tid =
     (let rh = rnd @ BigEndianUint40 (word_of_int (now div second)); ra = (case ratchet of None \<Rightarrow> [] | Some x \<Rightarrow> x)
      in \<lparr>DestHash_a = dest, PublicKey_a = PublicKey ident, NameHash_a = NameHash C name, RandomHash = rh, RatchetPub = ra,
          Signature = Sign C ident (buildAnnounceSignedData dest (PublicKey ident) (NameHash C name) rh ra app),
          AppData = app, ContextFlag_a = (ratchet \<noteq> None), Hops_a = h, TransportID_a = tid\<rparr>)"

lemma announce_received:
  assumes ok: "crypto_ok C" "identity_ok C ident"
    and p: "buildAnnounce C ident name app ratchet ctx now (Some rnd) = Inr p" and d: "DestinationHashFor C ident name = Some dest"
    and r: "\<And>r. ratchet = Some r \<Longrightarrow> length r = 32" and rnd: "length rnd = 5"
  shows "ParseAnnounce (p\<lparr>HeaderType := ht, TransportType := tt, TransportID := tid, Hops := h\<rparr>) =
      Inr (received C ident dest name app ratchet now rnd h tid)" (is "ParseAnnounce ?q = Inr ?a")
    and "Verify C (received C ident dest name app ratchet now rnd h tid) = None"
    and "0 \<le> now div second \<Longrightarrow> now div second < 2 ^ 40
      \<Longrightarrow> EmittedAt (received C ident dest name app ratchet now rnd h tid) = Inr (now div second * second)"
proof -
  let ?rh = "rnd @ BigEndianUint40 (word_of_int (now div second))" and ?ra = "case ratchet of None \<Rightarrow> [] | Some x \<Rightarrow> x"
  have pe: "p = \<lparr>HeaderType = 0, ContextFlag = (ratchet \<noteq> None), TransportType = 0, DestinationType = 0, PacketType = 1, Hops = 0,
        TransportID = [], DestHash = dest, Context = ctx, Data = announce_body C ident dest (NameHash C name) ?rh ?ra app\<rparr>"
    using p d by (elim buildAnnounceE) simp
  have ral: "length ?ra = (if ratchet \<noteq> None then 32 else 0)" using r by (auto split: option.split)
  show "ParseAnnounce ?q = Inr ?a"
    using identity_keys [OF ok] length_NameHash [OF ok(1)] rnd length_Sign [OF ok] ral
      announce_parse [of "PublicKey ident" "NameHash C name" ?rh "Signature ?a" ?ra ?q app]
    by (simp add: pe announce_body_def received_def Let_def)
  show "Verify C ?a = None" unfolding received_def Let_def by (rule Verify_signed [OF ok d])
  show "0 \<le> now div second \<Longrightarrow> now div second < 2 ^ 40 \<Longrightarrow> EmittedAt ?a = Inr (now div second * second)"
    using rnd secs40 [of "now div second"] by (simp add: received_def Let_def EmittedAt_def announce_lens Decode_BigEndianUint40)
qed

section \<open>Properties\<close>

text \<open>C25. Announces survive the network: for every identity, name, application data, ratchet key, clock and random
  bytes, the built announce packs to bytes that parse back to the same packet; a receiver that gets it through any
  relays (with another header type, transport type, transport id or hop count) parses and verifies it, and
  reads the sender's destination hash, public key, name hash, ratchet and application data. While the clock is within
  40 bits of seconds, the emission time is the clock in whole seconds.\<close>

theorem announce_roundtrip:
  assumes ok: "crypto_ok C" "identity_ok C ident" and r: "\<And>r. ratchet = Some r \<Longrightarrow> length r = 32" and rnd: "length rnd = 5"
  shows "\<exists>p raw dest. buildAnnounce C ident name app ratchet ctx now (Some rnd) = Inr p
     \<and> DestinationHashFor C ident name = Some dest \<and> Pack p = Inr raw \<and> ParsePacket raw = Inr p
     \<and> (\<forall>ht tt tid h. \<exists>a. ParseAnnounce (p\<lparr>HeaderType := ht, TransportType := tt, TransportID := tid, Hops := h\<rparr>) = Inr a
          \<and> Verify C a = None \<and> DestHash_a a = dest \<and> PublicKey_a a = PublicKey ident \<and> NameHash_a a = NameHash C name
          \<and> RatchetPub a = (case ratchet of None \<Rightarrow> [] | Some x \<Rightarrow> x) \<and> AppData a = app \<and> Hops_a a = h \<and> TransportID_a a = tid
          \<and> (0 \<le> now div second \<and> now div second < 2 ^ 40 \<longrightarrow> EmittedAt a = Inr (now div second * second)))"
proof -
  obtain p where p: "buildAnnounce C ident name app ratchet ctx now (Some rnd) = Inr p"
    using buildAnnounce_total [OF ok] r by blast
  then obtain dest where d: "DestinationHashFor C ident name = Some dest"
    and pe: "p = \<lparr>HeaderType = 0, ContextFlag = (ratchet \<noteq> None), TransportType = 0, DestinationType = 0, PacketType = 1, Hops = 0,
        TransportID = [], DestHash = dest, Context = ctx, Data = announce_body C ident dest (NameHash C name)
          (rnd @ BigEndianUint40 (word_of_int (now div second))) (case ratchet of None \<Rightarrow> [] | Some x \<Rightarrow> x) app\<rparr>"
    by (rule buildAnnounceE)
  have dl: "length dest = 16" using d length_DestinationHash [OF ok(1)] unfolding DestinationHashFor_def by blast
  have "packet_ok p" using dl by (simp add: pe packet_ok_def flags_ok_def)
  then obtain raw where raw: "Pack p = Inr raw" "ParsePacket raw = Inr p" using packet.parse_pack by blast
  show ?thesis
  proof (intro exI conjI allI)
    fix ht tt tid h
    let ?q = "p\<lparr>HeaderType := ht, TransportType := tt, TransportID := tid, Hops := h\<rparr>"
    note a = announce_received [OF ok p d r rnd]
    show "ParseAnnounce ?q = Inr (received C ident dest name app ratchet now rnd h tid)" by (rule a(1))
    show "Verify C (received C ident dest name app ratchet now rnd h tid) = None" by (rule a(2))
    show "0 \<le> now div second \<and> now div second < 2 ^ 40
        \<longrightarrow> EmittedAt (received C ident dest name app ratchet now rnd h tid) = Inr (now div second * second)"
      using a(3) by blast
  qed (use p d raw in \<open>simp_all add: received_def Let_def\<close>)
qed

theorem announce_roundtrip_witness:
  "\<exists>p raw dest. buildAnnounce demo_crypto (demo_identity 4) ''lxmf.delivery'' [1, 2] None 0 (1700000000 * second + 7) (Some [1, 2, 3, 4, 5]) = Inr p
     \<and> DestinationHashFor demo_crypto (demo_identity 4) ''lxmf.delivery'' = Some dest \<and> Pack p = Inr raw \<and> ParsePacket raw = Inr p
     \<and> (\<exists>a. ParseAnnounce (p\<lparr>HeaderType := 1, TransportType := 1, TransportID := replicate 16 7, Hops := 3\<rparr>) = Inr a
          \<and> Verify demo_crypto a = None \<and> AppData a = [1, 2] \<and> EmittedAt a = Inr (1700000000 * second))"
proof -
  have sec: "(1700000000 * second + 7) div second = 1700000000" by simp
  from announce_roundtrip [where C = demo_crypto and ident = "demo_identity 4" and ratchet = None and rnd = "[1, 2, 3, 4, 5]" and name = "''lxmf.delivery''"
      and app = "[1, 2]" and ctx = 0 and now = "1700000000 * second + 7", OF demo_crypto_ok demo_identity_ok]
  obtain p raw dest where *: "buildAnnounce demo_crypto (demo_identity 4) ''lxmf.delivery'' [1, 2] None 0 (1700000000 * second + 7) (Some [1, 2, 3, 4, 5]) = Inr p"
    "DestinationHashFor demo_crypto (demo_identity 4) ''lxmf.delivery'' = Some dest" "Pack p = Inr raw" "ParsePacket raw = Inr p"
    and all: "\<And>ht tt tid h. \<exists>a. ParseAnnounce (p\<lparr>HeaderType := ht, TransportType := tt, TransportID := tid, Hops := h\<rparr>) = Inr a
          \<and> Verify demo_crypto a = None \<and> AppData a = [1, 2]
          \<and> (0 \<le> (1700000000 * second + 7) div second \<and> (1700000000 * second + 7) div second < 2 ^ 40
              \<longrightarrow> EmittedAt a = Inr ((1700000000 * second + 7) div second * second))"
    by fastforce
  from all [where ht = 1 and tt = 1 and tid = "replicate 16 7" and h = 3] have "\<exists>a. ParseAnnounce (p\<lparr>HeaderType := 1, TransportType := 1, TransportID := replicate 16 7, Hops := 3\<rparr>) = Inr a
          \<and> Verify demo_crypto a = None \<and> AppData a = [1, 2] \<and> EmittedAt a = Inr (1700000000 * second)"
    unfolding sec by simp
  with * show ?thesis by blast
qed

text \<open>C26. What a verified announce proves: its destination hash is the hash of the announced name and of the announced
  public key, and the key's Ed25519 half signed every byte of it: the destination hash from the packet header and the
  whole body but the signature itself. So no relay can alter the key, the name, the random hash, the ratchet or the
  application data of an announce that still verifies, unless it forges a signature.\<close>

theorem announce_binding:
  assumes "ParseAnnounce p = Inr a" and "Verify C a = None"
  shows "PacketType p = PacketAnnounce
    \<and> DestHash p = take 16 (sha256 C (NameHash_a a @ take 16 (sha256 C (PublicKey_a a))))
    \<and> (\<exists>s. s = (if ContextFlag p then 116 else 84) \<and> s + 64 \<le> length (Data p)
        \<and> ed_verify C (drop 32 (PublicKey_a a)) (DestHash p @ take s (Data p) @ drop (s + 64) (Data p)) (take 64 (drop s (Data p)))
        \<and> PublicKey_a a = take 64 (Data p) \<and> NameHash_a a = take 10 (drop 64 (Data p)) \<and> AppData a = drop (s + 64) (Data p))"
proof -
  let ?s = "if ContextFlag p then 116 else 84 :: nat"
  from assms(1) have t: "PacketType p = PacketAnnounce" and len: "?s + 64 \<le> length (Data p)"
    by (auto simp: ParseAnnounce_def announce_lens Let_def split: if_splits)
  have e: "take (if ContextFlag p then 32 else 0) (drop 84 (Data p)) = drop 84 (take ?s (Data p))"
    by (simp add: drop_take)
  have a: "a = \<lparr>DestHash_a = DestHash p, PublicKey_a = take 64 (Data p), NameHash_a = take 10 (drop 64 (Data p)),
      RandomHash = take 10 (drop 74 (Data p)), RatchetPub = drop 84 (take ?s (Data p)),
      Signature = take 64 (drop ?s (Data p)), AppData = drop (?s + 64) (Data p),
      ContextFlag_a = ContextFlag p, Hops_a = Hops p, TransportID_a = TransportID p\<rparr>"
    using assms(1) t len e by (cases "ContextFlag p") (auto simp: ParseAnnounce_def announce_lens Let_def drop_take)
  have body: "take 64 (Data p) @ take 10 (drop 64 (Data p)) @ take 10 (drop 74 (Data p)) @ drop 84 (take ?s (Data p)) = take ?s (Data p)"
    using take_pieces [of 64 74 84 ?s "Data p"] by (cases "ContextFlag p") simp_all
  have "buildAnnounceSignedData (DestHash_a a) (PublicKey_a a) (NameHash_a a) (RandomHash a) (RatchetPub a) (AppData a) =
      DestHash p @ (take 64 (Data p) @ take 10 (drop 64 (Data p)) @ take 10 (drop 74 (Data p)) @ drop 84 (take ?s (Data p))) @ drop (?s + 64) (Data p)"
    by (simp add: a buildAnnounceSignedData_def)
  then have v: "Validate C (drop 32 (PublicKey_a a)) (DestHash p @ take ?s (Data p) @ drop (?s + 64) (Data p)) (Signature a)"
    using Verify_None(1) [OF assms(2)] unfolding body by simp
  have "DestHash_a a = DestHash p" by (simp add: a)
  then have d: "DestinationHash C (NameHash_a a) (take IdentityHashLen (sha256 C (PublicKey_a a))) = Some (DestHash p)"
    using Verify_None(2) [OF assms(2)] by simp
  from d have "DestHash p = take 16 (sha256 C (NameHash_a a @ take 16 (sha256 C (PublicKey_a a))))"
    by (auto simp: DestinationHash_def key_lens split: if_splits)
  moreover have "PublicKey_a a = take 64 (Data p)" "NameHash_a a = take 10 (drop 64 (Data p))" "AppData a = drop (?s + 64) (Data p)"
    "Signature a = take 64 (drop ?s (Data p))" by (simp_all add: a)
  moreover have "ed_verify C (drop 32 (PublicKey_a a)) (DestHash p @ take ?s (Data p) @ drop (?s + 64) (Data p)) (Signature a)"
    using Validate_D [OF v] ..
  ultimately show ?thesis using t len by (intro conjI exI [of _ ?s]) simp_all
qed

definition demo_announce :: Packet where
  "demo_announce = (case buildAnnounce demo_crypto (demo_identity 4) ''a'' [1, 2] None 0 0 (Some [1, 2, 3, 4, 5]) of
     Inr p \<Rightarrow> p | Inl e \<Rightarrow> \<lparr>HeaderType = 0, ContextFlag = False, TransportType = 0, DestinationType = 0, PacketType = 0, Hops = 0,
       TransportID = [], DestHash = [], Context = 0, Data = []\<rparr>)"

lemma demo_announce_ok: "\<exists>a. ParseAnnounce demo_announce = Inr a \<and> Verify demo_crypto a = None"
proof -
  obtain p where p: "buildAnnounce demo_crypto (demo_identity 4) ''a'' [1, 2] None 0 0 (Some [1, 2, 3, 4, 5]) = Inr p"
    using buildAnnounce_total [OF demo_crypto_ok demo_identity_ok, where ratchet = None] by blast
  obtain dest where d: "DestinationHashFor demo_crypto (demo_identity 4) ''a'' = Some dest"
    using DestinationHashFor_Some [OF demo_crypto_ok demo_identity_ok] by blast
  from announce_received(1) [OF demo_crypto_ok demo_identity_ok p d, where h = "Hops p" and ht = "HeaderType p"
      and tt = "TransportType p" and tid = "TransportID p"] announce_received(2) [OF demo_crypto_ok demo_identity_ok p d]
  have "\<exists>a. ParseAnnounce p = Inr a \<and> Verify demo_crypto a = None" by simp
  then show ?thesis by (simp add: demo_announce_def p)
qed

theorem announce_binding_witness:
  "\<exists>a. ParseAnnounce demo_announce = Inr a \<and> Verify demo_crypto a = None
     \<and> DestHash demo_announce = take 16 (sha256 demo_crypto (NameHash_a a @ take 16 (sha256 demo_crypto (PublicKey_a a))))"
  using demo_announce_ok announce_binding [of demo_announce _ demo_crypto] by blast

text \<open>Acknowledgements reach the sender: the proof that a receiver returns for a packet is addressed to the truncated hash of
  the packet as it was sent and carries a signature of its full hash that verifies under the receiver's key, even when
  relays changed header type, transport type, transport id, context flag and hop count on the way; and the proof is
  itself a packet that can be sent.\<close>

theorem proof_acknowledges:
  assumes ok: "crypto_ok C" "identity_ok C ident" and p: "packet_ok sent" "packet_ok got"
    and same: "DestinationType got = DestinationType sent" "PacketType got = PacketType sent" "DestHash got = DestHash sent"
      "Context got = Context sent" "Data got = Data sent"
  shows "\<exists>hp pr. HashablePart sent = Inr hp \<and> ProveOpportunistic C ident got = Inr pr \<and> packet_ok pr
    \<and> PacketType pr = PacketProof \<and> DestHash pr = take 16 (sha256 C hp)
    \<and> Validate C (ed25519Pub ident) (sha256 C hp) (Data pr)"
proof -
  obtain hp where hp: "HashablePart sent = Inr hp" "HashablePart got = Inr hp"
    using p same by (simp add: HashablePart_eq)
  let ?pr = "\<lparr>HeaderType = HeaderType1, ContextFlag = False, TransportType = BroadcastTransport,
    DestinationType = DestinationSingle, PacketType = PacketProof, Hops = 0, TransportID = [],
    DestHash = take 16 (sha256 C hp), Context = ContextNone, Data = Sign C ident (sha256 C hp)\<rparr>"
  have "ProveOpportunistic C ident got = Inr ?pr"
    using hp length_Sign [OF ok] by (simp add: ProveOpportunistic_def ProofBodyImplicitLen_def key_lens Let_def)
  moreover have "packet_ok ?pr"
    using length_sha256 [OF crypto_okD(1) [OF ok(1)]] by (simp add: packet_ok_def flags_ok_def)
  ultimately show ?thesis using hp Sign_Validate [OF ok] by (intro exI conjI) (assumption, assumption, assumption, simp_all)
qed

theorem proof_acknowledges_witness:
  "\<exists>hp pr. HashablePart demo_packet = Inr hp \<and> ProveOpportunistic demo_crypto (demo_identity 4) (demo_packet\<lparr>Hops := 9\<rparr>) = Inr pr
     \<and> packet_ok pr \<and> PacketType pr = PacketProof \<and> DestHash pr = take 16 (sha256 demo_crypto hp)
     \<and> Validate demo_crypto (ed25519Pub (demo_identity 4)) (sha256 demo_crypto hp) (Data pr)"
  by (rule proof_acknowledges [OF demo_crypto_ok demo_identity_ok]) (simp_all add: demo_packet_def packet_ok_def flags_ok_def)

end
