(* ===== verification/Link.thy ===== *)
theory Link
  imports Token Announce
begin

text \<open>
  Links: the wire formats and key agreement of \<open>internal/rns/link.go\<close> and \<open>link_data.go\<close>, and the link manager of
  \<open>link_state.go\<close>. A method that holds the manager's or the link's mutex is one function on the
  manager's state. Links are stored by value under their hexadecimal id; resource transfers, which the
  manager only indexes, are addresses. Entropy and the clock are arguments.
\<close>

section \<open>Constants and errors\<close>

definition LinkSignallingLen :: nat where "LinkSignallingLen = 3"
definition LinkRequestBodyLen :: nat where "LinkRequestBodyLen = 32 + 32"
definition LinkRequestBodyLenSignalled :: nat where "LinkRequestBodyLenSignalled = LinkRequestBodyLen + LinkSignallingLen"
definition LRProofBodyLen :: nat where "LRProofBodyLen = 64 + 32"
definition LRProofBodyLenSignalled :: nat where "LRProofBodyLenSignalled = LRProofBodyLen + LinkSignallingLen"
definition LinkSessionKeyLen :: nat where "LinkSessionKeyLen = 64"

lemmas link_lens = LinkSignallingLen_def LinkRequestBodyLen_def LinkRequestBodyLenSignalled_def LRProofBodyLen_def
  LRProofBodyLenSignalled_def LinkSessionKeyLen_def key_lens

abbreviation (input) ContextKeepalive :: byte where "ContextKeepalive \<equiv> 250"
abbreviation (input) ContextLRRTT :: byte where "ContextLRRTT \<equiv> 254"
abbreviation (input) keepalivePing :: byte where "keepalivePing \<equiv> 255"
abbreviation (input) keepalivePong :: byte where "keepalivePong \<equiv> 254"

datatype LinkState = LinkPending | LinkActive | LinkClosed

datatype link_error =
    XPubLen nat | EdPubLen nat | DestLen nat | BadSignalling nat
  | WrongPacketType byte | WrongDestType byte | WrongContext byte | WrongBodyLen nat
  | BadHashable packet_error | PrivLen nat | LinkIDLen nat | NoSecret
  | PeerKeyLen nat | BadSignature | BadSignLen nat | TokenFailed token_error
  | EntropyFailed | BadIdentity identity_error | UnknownLink bytes | WrongState LinkState
  | DuplicateResource

section \<open>Signalling\<close>

record LinkSignalling =
  MTU :: "32 word"
  Mode :: byte

definition mtuByteMask :: "32 word" where "mtuByteMask = 0x1FFFFF"
definition modeByteMask :: "32 word" where "modeByteMask = 0xE0"

definition Encode :: "LinkSignalling \<Rightarrow> bytes" where
  "Encode s =
     (let v = (MTU s AND mtuByteMask) OR push_bit 16 (ucast (push_bit 5 (Mode s)) AND modeByteMask)
      in [ucast (drop_bit 16 v), ucast (drop_bit 8 v), ucast v])"

definition DecodeLinkSignalling :: "bytes \<Rightarrow> link_error + LinkSignalling" where
  "DecodeLinkSignalling b =
     (if length b \<noteq> LinkSignallingLen then Inl (BadSignalling (length b))
      else
        (let v = push_bit 16 (ucast (b ! 0)) OR push_bit 8 (ucast (b ! 1)) OR ucast (b ! 2) :: 32 word
         in Inr \<lparr>MTU = v AND mtuByteMask, Mode = ucast (drop_bit 5 (drop_bit 16 v))\<rparr>))"

fun sig_bytes :: "LinkSignalling option \<Rightarrow> bytes" where
  "sig_bytes None = []"
| "sig_bytes (Some s) = Encode s"

section \<open>Link requests\<close>

definition BuildLinkRequest :: "bytes \<Rightarrow> bytes \<Rightarrow> bytes \<Rightarrow> LinkSignalling option \<Rightarrow> link_error + Packet" where
  "BuildLinkRequest initiatorX25519Pub initiatorEd25519Pub responderDestHash sig =
     (if length initiatorX25519Pub \<noteq> 32 then Inl (XPubLen (length initiatorX25519Pub))
      else if length initiatorEd25519Pub \<noteq> 32 then Inl (EdPubLen (length initiatorEd25519Pub))
      else if length responderDestHash \<noteq> IdentityHashLen then Inl (DestLen (length responderDestHash))
      else Inr \<lparr>HeaderType = HeaderType1, ContextFlag = False, TransportType = BroadcastTransport,
                DestinationType = DestinationSingle, PacketType = PacketLinkRequest, Hops = 0, TransportID = [],
                DestHash = responderDestHash, Context = ContextNone,
                Data = initiatorX25519Pub @ initiatorEd25519Pub @ sig_bytes sig\<rparr>)"

record LinkRequest =
  InitiatorX25519Pub :: bytes
  InitiatorEd25519Pub :: bytes
  Signalling :: "LinkSignalling option"

definition ParseLinkRequest :: "Packet \<Rightarrow> link_error + LinkRequest" where
  "ParseLinkRequest p =
     (if PacketType p \<noteq> PacketLinkRequest then Inl (WrongPacketType (PacketType p))
      else if length (Data p) = LinkRequestBodyLen then
        Inr \<lparr>InitiatorX25519Pub = take 32 (Data p), InitiatorEd25519Pub = take 32 (drop 32 (Data p)), Signalling = None\<rparr>
      else if length (Data p) = LinkRequestBodyLenSignalled then
        (case DecodeLinkSignalling (take 3 (drop 64 (Data p))) of Inl e \<Rightarrow> Inl e
         | Inr s \<Rightarrow> Inr \<lparr>InitiatorX25519Pub = take 32 (Data p), InitiatorEd25519Pub = take 32 (drop 32 (Data p)), Signalling = Some s\<rparr>)
      else Inl (WrongBodyLen (length (Data p))))"

definition LinkID :: "Primitives \<Rightarrow> Packet \<Rightarrow> link_error + bytes" where
  "LinkID C linkRequest =
     (if PacketType linkRequest \<noteq> PacketLinkRequest then Inl (WrongPacketType (PacketType linkRequest))
      else case HashablePart linkRequest of Inl e \<Rightarrow> Inl (BadHashable e)
           | Inr hp \<Rightarrow>
               (let hp' = (if length (Data linkRequest) > LinkRequestBodyLen then take (length hp - LinkSignallingLen) hp else hp)
                in Inr (take IdentityHashLen (sha256 C hp'))))"

definition DeriveLinkSessionKeys :: "Primitives \<Rightarrow> bytes \<Rightarrow> bytes \<Rightarrow> bytes \<Rightarrow> link_error + bytes \<times> bytes" where
  "DeriveLinkSessionKeys C myEphPriv peerEphPub linkID =
     (if length myEphPriv \<noteq> 32 then Inl (PrivLen (length myEphPriv))
      else if length peerEphPub \<noteq> 32 then Inl (XPubLen (length peerEphPub))
      else if length linkID \<noteq> IdentityHashLen then Inl (LinkIDLen (length linkID))
      else case x25519 C myEphPriv peerEphPub of None \<Rightarrow> Inl NoSecret
           | Some shared \<Rightarrow>
               (let derived = hkdf C shared linkID LinkSessionKeyLen in Inr (take 32 derived, drop 32 derived)))"

section \<open>The proof of a link request\<close>

definition buildLRProofSignedData :: "bytes \<Rightarrow> bytes \<Rightarrow> bytes \<Rightarrow> LinkSignalling option \<Rightarrow> bytes" where
  "buildLRProofSignedData linkID responderX25519Pub responderEd25519Pub sig =
     linkID @ responderX25519Pub @ responderEd25519Pub @ sig_bytes sig"

definition BuildLRProof :: "Primitives \<Rightarrow> Identity \<Rightarrow> bytes \<Rightarrow> bytes \<Rightarrow> LinkSignalling option \<Rightarrow> link_error + Packet" where
  "BuildLRProof C responderID linkID responderX25519Pub sig =
     (if length linkID \<noteq> IdentityHashLen then Inl (LinkIDLen (length linkID))
      else if length responderX25519Pub \<noteq> 32 then Inl (XPubLen (length responderX25519Pub))
      else
        (let ed25519Pub = drop 32 (PublicKey responderID);
             signature = Sign C responderID (buildLRProofSignedData linkID responderX25519Pub ed25519Pub sig)
         in Inr \<lparr>HeaderType = HeaderType1, ContextFlag = False, TransportType = BroadcastTransport,
                 DestinationType = DestinationLink, PacketType = PacketProof, Hops = 0, TransportID = [],
                 DestHash = linkID, Context = ContextLRProof,
                 Data = signature @ responderX25519Pub @ sig_bytes sig\<rparr>))"

record LRProof =
  LinkID_p :: bytes
  Signature_p :: bytes
  ResponderX25519Pub :: bytes
  Signalling_p :: "LinkSignalling option"

definition ParseLRProof :: "Packet \<Rightarrow> link_error + LRProof" where
  "ParseLRProof p =
     (if PacketType p \<noteq> PacketProof \<or> Context p \<noteq> ContextLRProof then Inl (WrongPacketType (PacketType p))
      else if DestinationType p \<noteq> DestinationLink then Inl (WrongDestType (DestinationType p))
      else if length (Data p) = LRProofBodyLen then
        Inr \<lparr>LinkID_p = DestHash p, Signature_p = take 64 (Data p), ResponderX25519Pub = take 32 (drop 64 (Data p)), Signalling_p = None\<rparr>
      else if length (Data p) = LRProofBodyLenSignalled then
        (case DecodeLinkSignalling (take 3 (drop 96 (Data p))) of Inl e \<Rightarrow> Inl e
         | Inr s \<Rightarrow> Inr \<lparr>LinkID_p = DestHash p, Signature_p = take 64 (Data p), ResponderX25519Pub = take 32 (drop 64 (Data p)),
                          Signalling_p = Some s\<rparr>)
      else Inl (WrongBodyLen (length (Data p))))"

definition Verify_lr :: "Primitives \<Rightarrow> LRProof \<Rightarrow> bytes \<Rightarrow> link_error option" where
  "Verify_lr C lr responderEd25519Pub =
     (if length responderEd25519Pub \<noteq> 32 then Some (EdPubLen (length responderEd25519Pub))
      else if \<not> Validate C responderEd25519Pub
           (buildLRProofSignedData (LinkID_p lr) (ResponderX25519Pub lr) responderEd25519Pub (Signalling_p lr)) (Signature_p lr)
      then Some BadSignature else None)"

section \<open>Packets on a link\<close>

text \<open>The packet all builders of this section make.\<close>

definition link_packet :: "bytes \<Rightarrow> byte \<Rightarrow> byte \<Rightarrow> bytes \<Rightarrow> Packet" where
  "link_packet linkID packetType ctx body =
     \<lparr>HeaderType = HeaderType1, ContextFlag = False, TransportType = BroadcastTransport,
      DestinationType = DestinationLink, PacketType = packetType, Hops = 0, TransportID = [],
      DestHash = linkID, Context = ctx, Data = body\<rparr>"

definition BuildLinkDataPacket :: "Primitives \<Rightarrow> bytes option \<Rightarrow> bytes \<Rightarrow> bytes \<Rightarrow> bytes \<Rightarrow> bytes \<Rightarrow> link_error + Packet" where
  "BuildLinkDataPacket C ivRnd linkID signing encryption plaintext =
     (if length linkID \<noteq> IdentityHashLen then Inl (LinkIDLen (length linkID))
      else case LinkTokenEncrypt C ivRnd plaintext signing encryption of Inl e \<Rightarrow> Inl (TokenFailed e)
           | Inr ciphertext \<Rightarrow> Inr (link_packet linkID PacketData ContextNone ciphertext))"

definition ParseLinkDataPacket :: "Primitives \<Rightarrow> Packet \<Rightarrow> bytes \<Rightarrow> bytes \<Rightarrow> link_error + bytes" where
  "ParseLinkDataPacket C p signing encryption =
     (if PacketType p \<noteq> PacketData then Inl (WrongPacketType (PacketType p))
      else if DestinationType p \<noteq> DestinationLink then Inl (WrongDestType (DestinationType p))
      else if Context p \<noteq> ContextNone then Inl (WrongContext (Context p))
      else case LinkTokenDecrypt C (Data p) signing encryption of Inl e \<Rightarrow> Inl (TokenFailed e) | Inr m \<Rightarrow> Inr m)"

definition BuildLinkProof :: "Primitives \<Rightarrow> bytes \<Rightarrow> (bytes \<Rightarrow> bytes) \<Rightarrow> Packet \<Rightarrow> link_error + Packet" where
  "BuildLinkProof C linkID sign original =
     (if length linkID \<noteq> IdentityHashLen then Inl (LinkIDLen (length linkID))
      else case HashablePart original of Inl e \<Rightarrow> Inl (BadHashable e)
           | Inr hashable \<Rightarrow>
               (let digest = sha256 C hashable; sig = sign digest
                in if length sig \<noteq> 64 then Inl (BadSignLen (length sig))
                   else Inr (link_packet linkID PacketProof ContextNone (digest @ sig))))"

definition ValidateLinkProof :: "Primitives \<Rightarrow> Packet \<Rightarrow> bytes \<Rightarrow> link_error + bytes" where
  "ValidateLinkProof C p peerEd25519Pub =
     (if PacketType p \<noteq> PacketProof then Inl (WrongPacketType (PacketType p))
      else if DestinationType p \<noteq> DestinationLink then Inl (WrongDestType (DestinationType p))
      else if Context p \<noteq> ContextNone then Inl (WrongContext (Context p))
      else if length (Data p) \<noteq> ProofBodyExplicitLen then Inl (WrongBodyLen (length (Data p)))
      else if length peerEd25519Pub \<noteq> 32 then Inl (PeerKeyLen (length peerEd25519Pub))
      else if \<not> ed_verify C peerEd25519Pub (take 32 (Data p)) (drop 32 (Data p)) then Inl BadSignature
      else Inr (take 32 (Data p)))"

definition buildKeepalivePacket :: "bytes \<Rightarrow> byte \<Rightarrow> link_error + Packet" where
  "buildKeepalivePacket linkID sentinel =
     (if length linkID \<noteq> IdentityHashLen then Inl (LinkIDLen (length linkID))
      else Inr (link_packet linkID PacketData ContextKeepalive [sentinel]))"

definition BuildLinkKeepalive :: "bytes \<Rightarrow> link_error + Packet" where
  "BuildLinkKeepalive linkID = buildKeepalivePacket linkID keepalivePing"

definition BuildLinkKeepalivePong :: "bytes \<Rightarrow> link_error + Packet" where
  "BuildLinkKeepalivePong linkID = buildKeepalivePacket linkID keepalivePong"

text \<open>The argument is \<open>math.Float64bits(v)\<close>.\<close>

definition msgpackMarshalFloat64 :: "64 word \<Rightarrow> bytes" where
  "msgpackMarshalFloat64 bits =
     [0xCB, ucast (drop_bit 56 bits), ucast (drop_bit 48 bits), ucast (drop_bit 40 bits), ucast (drop_bit 32 bits),
      ucast (drop_bit 24 bits), ucast (drop_bit 16 bits), ucast (drop_bit 8 bits), ucast bits]"

definition BuildLinkRTT :: "Primitives \<Rightarrow> bytes option \<Rightarrow> bytes \<Rightarrow> bytes \<Rightarrow> bytes \<Rightarrow> 64 word \<Rightarrow> link_error + Packet" where
  "BuildLinkRTT C ivRnd linkID signing encryption rttSeconds =
     (if length linkID \<noteq> IdentityHashLen then Inl (LinkIDLen (length linkID))
      else case LinkTokenEncrypt C ivRnd (msgpackMarshalFloat64 rttSeconds) signing encryption of Inl e \<Rightarrow> Inl (TokenFailed e)
           | Inr ciphertext \<Rightarrow> Inr (link_packet linkID PacketData ContextLRRTT ciphertext))"

definition BuildLinkIdentify :: "Primitives \<Rightarrow> bytes option \<Rightarrow> bytes \<Rightarrow> bytes \<Rightarrow> bytes \<Rightarrow> Identity \<Rightarrow> link_error + Packet" where
  "BuildLinkIdentify C ivRnd linkID signing encryption ident =
     (if length linkID \<noteq> IdentityHashLen then Inl (LinkIDLen (length linkID))
      else
        (let pubkey = PublicKey ident; sig = Sign C ident (linkID @ pubkey)
         in if length sig \<noteq> 64 then Inl (BadSignLen (length sig))
            else case LinkTokenEncrypt C ivRnd (pubkey @ sig) signing encryption of Inl e \<Rightarrow> Inl (TokenFailed e)
                 | Inr ciphertext \<Rightarrow> Inr (link_packet linkID PacketData ContextLinkIdentify ciphertext)))"

section \<open>Signalling survives the wire\<close>

text \<open>21 bits of MTU and three of mode.\<close>

definition signalling_ok :: "LinkSignalling option \<Rightarrow> bool" where
  "signalling_ok sig = (case sig of None \<Rightarrow> True | Some s \<Rightarrow> MTU s < 2 ^ 21 \<and> Mode s < 2 ^ 3)"

lemma small_bits: "(x :: 'a :: len word) < 2 ^ k \<Longrightarrow> bit x n \<Longrightarrow> n < k"
  by (metis bit_and_iff bit_mask_iff less_mask_eq)

lemma mask_consts: "mtuByteMask = mask 21" "modeByteMask = push_bit 5 (mask 3)"
  by (simp_all add: mtuByteMask_def modeByteMask_def mask_eq_exp_minus_1)

lemma Decode_Encode:
  assumes "signalling_ok (Some s)"
  shows "DecodeLinkSignalling (Encode s) = Inr s"
proof -
  from assms have m: "bit (MTU s) n \<Longrightarrow> n < 21" "bit (Mode s) n \<Longrightarrow> n < 3" for n
    using small_bits [of "MTU s" 21] small_bits [of "Mode s" 3] by (auto simp: signalling_ok_def)
  define v where "v = (MTU s AND mask 21) OR push_bit 16 (ucast (push_bit 5 (Mode s)) AND push_bit 5 (mask 3))"
  define w :: "32 word" where "w = push_bit 16 (ucast (ucast (drop_bit 16 v) :: byte)) OR push_bit 8 (ucast (ucast (drop_bit 8 v) :: byte))
    OR ucast (ucast v :: byte)"
  have v: "bit v n \<longleftrightarrow> bit (MTU s) n \<or> 21 \<le> n \<and> bit (Mode s) (n - 21)" if "n < 32" for n
    using that m(1) [of n] m(2) [of "n - 21"] by (auto simp: v_def bit_simps)
  have w: "bit w n \<longleftrightarrow> n < 24 \<and> bit v n" if "n < 32" for n
  proof -
    consider "n < 8" | "8 \<le> n" "n < 16" | "16 \<le> n" "n < 24" | "24 \<le> n" by linarith
    then show ?thesis using that by cases (auto simp: w_def bit_simps)
  qed
  have "w AND mask 21 = MTU s"
  proof (rule bit_word_eqI)
    fix n :: nat
    assume "n < LENGTH(32)"
    then show "bit (w AND mask 21) n = bit (MTU s) n"
      using v [of n] w [of n] m(1) [of n] by (auto simp: bit_and_iff bit_mask_iff)
  qed
  moreover have "ucast (drop_bit 5 (drop_bit 16 w)) = Mode s"
  proof (rule bit_word_eqI)
    fix n :: nat
    assume "n < LENGTH(8)"
    then have "bit (ucast (drop_bit 5 (drop_bit 16 w)) :: byte) n \<longleftrightarrow> bit w (21 + n)" by (simp add: bit_simps add.commute add.left_commute)
    also have "\<dots> \<longleftrightarrow> bit (Mode s) n"
      using w [of "21 + n"] v [of "21 + n"] m(1) [of "21 + n"] m(2) [of n] \<open>n < LENGTH(8)\<close> by auto
    finally show "bit (ucast (drop_bit 5 (drop_bit 16 w)) :: byte) n = bit (Mode s) n" .
  qed
  ultimately show ?thesis
    by (simp add: w_def v_def DecodeLinkSignalling_def Encode_def mask_consts LinkSignallingLen_def Let_def)
qed

section \<open>The handshake packets\<close>

lemma length_sig_bytes [wire_simps]: "length (sig_bytes sig) = (case sig of None \<Rightarrow> 0 | Some _ \<Rightarrow> 3)"
  by (cases sig) (simp_all add: Encode_def Let_def)

lemma ParseLinkRequest_parts:
  assumes "PacketType p = PacketLinkRequest" and "Data p = x @ e @ sig_bytes sig" and "length x = 32" and "length e = 32"
    and "signalling_ok sig"
  shows "ParseLinkRequest p = Inr \<lparr>InitiatorX25519Pub = x, InitiatorEd25519Pub = e, Signalling = sig\<rparr>"
  using assms length_sig_bytes [of sig] by (cases sig) (simp_all add: ParseLinkRequest_def link_lens Decode_Encode)

text \<open>The link id depends on the destination and the two keys only: not on the signalling, nor on anything a relay rewrites.\<close>

lemma LinkID_parts:
  assumes "packet_ok p" and "PacketType p = PacketLinkRequest" and "DestinationType p = DestinationSingle"
    and "Data p = x @ e @ sig_bytes sig" and "length x = 32" and "length e = 32"
  shows "LinkID C p = Inr (take 16 (sha256 C (2 # DestHash p @ Context p # x @ e)))"
proof -
  let ?pre = "2 # DestHash p @ Context p # x @ e"
  have hp: "HashablePart p = Inr (?pre @ sig_bytes sig)" using assms by (simp add: HashablePart_eq)
  have "(if 64 < length (Data p) then take (length (?pre @ sig_bytes sig) - 3) (?pre @ sig_bytes sig) else ?pre @ sig_bytes sig) = ?pre"
    using assms(4-6) length_sig_bytes [of sig] by (cases sig) (simp_all add: take_Cons')
  moreover have "LinkID C p = Inr (take 16 (sha256 C (if 64 < length (Data p)
      then take (length (?pre @ sig_bytes sig) - 3) (?pre @ sig_bytes sig) else ?pre @ sig_bytes sig)))"
    using assms(2) hp by (simp add: LinkID_def link_lens Let_def)
  ultimately show ?thesis by simp
qed

lemma ParseLRProof_parts:
  assumes "PacketType p = PacketProof" and "Context p = ContextLRProof" and "DestinationType p = DestinationLink"
    and "Data p = g @ x @ sig_bytes sig" and "length g = 64" and "length x = 32" and "signalling_ok sig"
  shows "ParseLRProof p = Inr \<lparr>LinkID_p = DestHash p, Signature_p = g, ResponderX25519Pub = x, Signalling_p = sig\<rparr>"
  using assms length_sig_bytes [of sig] by (cases sig) (simp_all add: ParseLRProof_def link_lens Decode_Encode)

lemma Verify_lr_signed:
  assumes "crypto_ok C" and "identity_ok C ident"
  shows "Verify_lr C \<lparr>LinkID_p = lid, Signature_p = Sign C ident (buildLRProofSignedData lid x (ed25519Pub ident) sig),
     ResponderX25519Pub = x, Signalling_p = sig\<rparr> (ed25519Pub ident) = None"
  using identity_keys [OF assms] Sign_Validate [OF assms] by (simp add: Verify_lr_def)

lemma PublicKey_ed: "crypto_ok C \<Longrightarrow> identity_ok C ident \<Longrightarrow> drop 32 (PublicKey ident) = ed25519Pub ident"
  using identity_keys [of C ident] by (simp add: PublicKey_def)

text \<open>Both ends of a handshake derive the same keys.\<close>

lemma session_keys_agree:
  assumes ok: "crypto_ok C" and len: "length a = 32" "length b = 32" "length lid = 16"
    and dh: "x25519 C a Basepoint = Some pa" "x25519 C b Basepoint = Some pb" "x25519 C a pb = Some s"
  obtains sk ek where "DeriveLinkSessionKeys C a pb lid = Inr (sk, ek)" and "DeriveLinkSessionKeys C b pa lid = Inr (sk, ek)"
    and "length sk = 32" and "length ek = 32"
proof -
  have p: "length pa = 32" "length pb = 32"
    using dh_length [OF crypto_okD(2) [OF ok] _ length_Basepoint] len dh by blast+
  have "x25519 C b pa = Some s"
    using dh_commute [OF crypto_okD(2) [OF ok] len(1,2) dh(1,2)] dh(3) by simp
  then show thesis
    using that p len dh(3) length_hkdf [OF crypto_okD(1) [OF ok]] by (simp add: DeriveLinkSessionKeys_def link_lens Let_def)
qed

end
