(* ===== verification/Link_State.thy ===== *)
theory Link_State
  imports Link Runs
begin

text \<open>
  The link state machine, \<open>internal/rns/link_state.go\<close>. A method that takes the manager's or a link's mutex is one
  function on the manager. A link is stored by value under its hexadecimal id: once it is closed it is no
  longer stored. Channels, callbacks and the resource transfers the manager indexes are addresses (naturals);
  entropy and the clock are arguments.
\<close>

section \<open>State\<close>

text \<open>\<open>responderIdentity\<close> is nil on the initiator's side; a nil slice is the empty list. \<open>activatedCh\<close> is whether the channel
  exists and whether it is closed.\<close>

record Link =
  ID :: bytes
  State :: LinkState
  Signing :: bytes
  Encryption :: bytes
  myEphemeralX25519Priv :: bytes
  peerDestHash :: bytes
  initiatorEd25519Priv :: bytes
  peerEd25519Pub :: bytes
  pendingProofs :: "(string, nat) gomap"
  activatedCh :: "bool option"
  myResponderEphPriv :: bytes
  responderIdentity :: "Identity option"
  CreatedAt :: time
  LastActivity :: time
  OnInboundData :: "nat option"

record LinkManager =
  links :: "(string, Link) gomap"
  defaultOnInboundData :: "nat option"
  senders :: "(string, nat) gomap"
  receivers :: "(string, nat) gomap"

definition NewLinkManager :: LinkManager where
  "NewLinkManager = \<lparr>links = [], defaultOnInboundData = None, senders = [], receivers = []\<rparr>"

section \<open>Links\<close>

definition IsInitiator :: "Link \<Rightarrow> bool" where
  "IsInitiator l \<longleftrightarrow> responderIdentity l = None \<and> peerDestHash l \<noteq> []"

definition IsActive :: "Link \<Rightarrow> bool" where
  "IsActive l \<longleftrightarrow> State l = LinkActive"

definition registerProofWaiter :: "nat \<Rightarrow> string \<Rightarrow> Link \<Rightarrow> Link" where
  "registerProofWaiter ch packetHashHex l = l\<lparr>pendingProofs := AList.update packetHashHex ch (pendingProofs l)\<rparr>"

definition clearProofWaiter :: "string \<Rightarrow> Link \<Rightarrow> Link" where
  "clearProofWaiter packetHashHex l = l\<lparr>pendingProofs := AList.delete packetHashHex (pendingProofs l)\<rparr>"

text \<open>The result is the channel that is signalled, \<open>None\<close> when nobody waits.\<close>

definition signalProof :: "string \<Rightarrow> Link \<Rightarrow> Link \<times> nat option" where
  "signalProof packetHashHex l =
     (case map_of (pendingProofs l) packetHashHex of
        None \<Rightarrow> (l, None)
      | Some ch \<Rightarrow> (l\<lparr>pendingProofs := AList.delete packetHashHex (pendingProofs l)\<rparr>, Some ch))"

section \<open>The resource index\<close>

definition resourceKey :: "bytes \<Rightarrow> bytes \<Rightarrow> string" where
  "resourceKey linkID resourceHash = hex_encode linkID @ '':'' @ hex_encode resourceHash"

definition registerResourceSender :: "bytes \<Rightarrow> bytes \<Rightarrow> nat \<Rightarrow> LinkManager \<Rightarrow> LinkManager \<times> link_error option" where
  "registerResourceSender linkID resourceHash rs lm =
     (let key = resourceKey linkID resourceHash
      in case map_of (senders lm) key of
           Some _ \<Rightarrow> (lm, Some DuplicateResource)
         | None \<Rightarrow> (lm\<lparr>senders := AList.update key rs (senders lm)\<rparr>, None))"

definition registerResourceReceiver :: "bytes \<Rightarrow> bytes \<Rightarrow> nat \<Rightarrow> LinkManager \<Rightarrow> LinkManager \<times> link_error option" where
  "registerResourceReceiver linkID resourceHash rr lm =
     (let key = resourceKey linkID resourceHash
      in case map_of (receivers lm) key of
           Some _ \<Rightarrow> (lm, Some DuplicateResource)
         | None \<Rightarrow> (lm\<lparr>receivers := AList.update key rr (receivers lm)\<rparr>, None))"

definition unregisterResource :: "bytes \<Rightarrow> bytes \<Rightarrow> LinkManager \<Rightarrow> LinkManager" where
  "unregisterResource linkID resourceHash lm =
     (let key = resourceKey linkID resourceHash
      in lm\<lparr>senders := AList.delete key (senders lm), receivers := AList.delete key (receivers lm)\<rparr>)"

definition lookupResourceSender :: "bytes \<Rightarrow> bytes \<Rightarrow> LinkManager \<Rightarrow> nat option" where
  "lookupResourceSender linkID resourceHash lm = map_of (senders lm) (resourceKey linkID resourceHash)"

definition lookupResourceReceiver :: "bytes \<Rightarrow> bytes \<Rightarrow> LinkManager \<Rightarrow> nat option" where
  "lookupResourceReceiver linkID resourceHash lm = map_of (receivers lm) (resourceKey linkID resourceHash)"

definition key_of_link :: "bytes \<Rightarrow> string \<Rightarrow> bool" where
  "key_of_link linkID k \<longleftrightarrow>
     (let prefix = hex_encode linkID @ '':'' in length k \<ge> length prefix \<and> take (length prefix) k = prefix)"

definition countReceiversForLink :: "bytes \<Rightarrow> LinkManager \<Rightarrow> nat" where
  "countReceiversForLink linkID lm = length (filter (\<lambda>(k, _). key_of_link linkID k) (receivers lm))"

text \<open>The result lists the senders and the receivers that get \<open>HandleCancel\<close>.\<close>

definition closeResourcesForLink :: "bytes \<Rightarrow> LinkManager \<Rightarrow> LinkManager \<times> nat list \<times> nat list" where
  "closeResourcesForLink linkID lm =
     (lm\<lparr>senders := filter (\<lambda>(k, _). \<not> key_of_link linkID k) (senders lm),
         receivers := filter (\<lambda>(k, _). \<not> key_of_link linkID k) (receivers lm)\<rparr>,
      map snd (filter (\<lambda>(k, _). key_of_link linkID k) (senders lm)),
      map snd (filter (\<lambda>(k, _). key_of_link linkID k) (receivers lm)))"

section \<open>The link table\<close>

definition SetDefaultInboundDataHandler :: "nat option \<Rightarrow> LinkManager \<Rightarrow> LinkManager" where
  "SetDefaultInboundDataHandler cb lm = lm\<lparr>defaultOnInboundData := cb\<rparr>"

definition Get_link :: "bytes \<Rightarrow> LinkManager \<Rightarrow> Link option" where
  "Get_link linkID lm = map_of (links lm) (hex_encode linkID)"

definition put_link :: "Link \<Rightarrow> LinkManager \<Rightarrow> LinkManager" where
  "put_link l lm = lm\<lparr>links := AList.update (hex_encode (ID l)) l (links lm)\<rparr>"

definition active_to :: "bytes \<Rightarrow> Link \<Rightarrow> bool" where
  "active_to dest l \<longleftrightarrow> State l = LinkActive \<and> length (peerDestHash l) = length dest \<and> bytesEqual (peerDestHash l) dest"

definition ActiveTo :: "bytes \<Rightarrow> LinkManager \<Rightarrow> Link option" where
  "ActiveTo dest lm = map_option snd (find (\<lambda>(_, l). active_to dest l) (links lm))"

definition ActiveCount :: "LinkManager \<Rightarrow> nat" where
  "ActiveCount lm = length (filter (\<lambda>(_, l). State l = LinkActive) (links lm))"

definition newClampedX25519 :: "Primitives \<Rightarrow> bytes option \<Rightarrow> link_error + bytes \<times> bytes" where
  "newClampedX25519 C rnd =
     (case rnd of None \<Rightarrow> Inl EntropyFailed | Some raw \<Rightarrow>
        (let priv = clamp raw
         in case x25519 C priv Basepoint of None \<Rightarrow> Inl NoSecret | Some pub \<Rightarrow> Inr (priv, pub)))"

definition new_link :: "bytes \<Rightarrow> time \<Rightarrow> Link" where
  "new_link lid now = \<lparr>ID = lid, State = LinkPending, Signing = [], Encryption = [], myEphemeralX25519Priv = [], peerDestHash = [],
     initiatorEd25519Priv = [], peerEd25519Pub = [], pendingProofs = [], activatedCh = None, myResponderEphPriv = [],
     responderIdentity = None, CreatedAt = now, LastActivity = now, OnInboundData = None\<rparr>"

text \<open>The Ed25519 private key is its seed. The two random arguments are the X25519 scalar and the seed.\<close>

definition StartLinkAsInitiator ::
  "Primitives \<Rightarrow> bytes option \<Rightarrow> bytes option \<Rightarrow> time \<Rightarrow> bytes \<Rightarrow> LinkSignalling option \<Rightarrow> LinkManager
     \<Rightarrow> link_error + LinkManager \<times> Link \<times> Packet" where
  "StartLinkAsInitiator C xRnd edRnd now responderDestHash sig lm =
     (if length responderDestHash \<noteq> IdentityHashLen then Inl (DestLen (length responderDestHash))
      else case newClampedX25519 C xRnd of Inl e \<Rightarrow> Inl e | Inr (ephPriv, ephPub) \<Rightarrow>
        case edRnd of None \<Rightarrow> Inl EntropyFailed | Some seed \<Rightarrow>
        case identityFromHalves C ephPriv seed of Inl e \<Rightarrow> Inl (BadIdentity e) | Inr ephID \<Rightarrow>
        case BuildLinkRequest ephPub (drop 32 (PublicKey ephID)) responderDestHash sig of Inl e \<Rightarrow> Inl e | Inr pkt \<Rightarrow>
        case LinkID C pkt of Inl e \<Rightarrow> Inl e | Inr lid \<Rightarrow>
          (let l = (new_link lid now)\<lparr>myEphemeralX25519Priv := ephPriv, initiatorEd25519Priv := seed,
                     peerDestHash := responderDestHash, activatedCh := Some False\<rparr>
           in Inr (put_link l lm, l, pkt)))"

definition HandleLRProof :: "Primitives \<Rightarrow> time \<Rightarrow> Packet \<Rightarrow> bytes \<Rightarrow> LinkManager \<Rightarrow> link_error + LinkManager \<times> Link" where
  "HandleLRProof C now p responderEd25519Pub lm =
     (case ParseLRProof p of Inl e \<Rightarrow> Inl e | Inr parsed \<Rightarrow>
      case Verify_lr C parsed responderEd25519Pub of Some e \<Rightarrow> Inl e | None \<Rightarrow>
      case Get_link (LinkID_p parsed) lm of None \<Rightarrow> Inl (UnknownLink (LinkID_p parsed)) | Some l \<Rightarrow>
        if State l \<noteq> LinkPending then Inl (WrongState (State l))
        else case DeriveLinkSessionKeys C (myEphemeralX25519Priv l) (ResponderX25519Pub parsed) (LinkID_p parsed) of Inl e \<Rightarrow> Inl e
             | Inr (signing, encryption) \<Rightarrow>
                 (let l' = l\<lparr>Signing := signing, Encryption := encryption, State := LinkActive, LastActivity := now,
                            myEphemeralX25519Priv := [], peerEd25519Pub := responderEd25519Pub,
                            activatedCh := map_option (\<lambda>_. True) (activatedCh l)\<rparr>
                  in Inr (put_link l' lm, l')))"

definition AcceptIncomingLinkRequest ::
  "Primitives \<Rightarrow> bytes option \<Rightarrow> time \<Rightarrow> Packet \<Rightarrow> Identity \<Rightarrow> LinkSignalling option \<Rightarrow> LinkManager
     \<Rightarrow> link_error + LinkManager \<times> Link \<times> Packet" where
  "AcceptIncomingLinkRequest C xRnd now reqPkt localID sig lm =
     (case ParseLinkRequest reqPkt of Inl e \<Rightarrow> Inl e | Inr req \<Rightarrow>
      case LinkID C reqPkt of Inl e \<Rightarrow> Inl e | Inr lid \<Rightarrow>
      case newClampedX25519 C xRnd of Inl e \<Rightarrow> Inl e | Inr (respEphPriv, respEphPub) \<Rightarrow>
      case DeriveLinkSessionKeys C respEphPriv (InitiatorX25519Pub req) lid of Inl e \<Rightarrow> Inl e | Inr (signing, encryption) \<Rightarrow>
        (let sig' = (case sig of None \<Rightarrow> Signalling req | Some s \<Rightarrow> Some s)
         in case BuildLRProof C localID lid respEphPub sig' of Inl e \<Rightarrow> Inl e | Inr proofPkt \<Rightarrow>
              (let l = (new_link lid now)\<lparr>State := LinkActive, Signing := signing, Encryption := encryption,
                         myResponderEphPriv := respEphPriv, responderIdentity := Some localID\<rparr>
               in Inr (put_link l lm, l, proofPkt))))"

text \<open>Who gets the plaintext: the link's own callback, the manager's default with the link id, or nobody.\<close>

datatype delivery = ToLink nat bytes | ToDefault nat bytes bytes | Undelivered

text \<open>The activity time is updated even when decryption fails.\<close>

definition HandleLinkData :: "Primitives \<Rightarrow> time \<Rightarrow> Packet \<Rightarrow> LinkManager \<Rightarrow> LinkManager \<times> (link_error + bytes \<times> Link \<times> delivery)" where
  "HandleLinkData C now p lm =
     (case Get_link (DestHash p) lm of None \<Rightarrow> (lm, Inl (UnknownLink (DestHash p))) | Some l \<Rightarrow>
        if State l \<noteq> LinkActive then (lm, Inl (WrongState (State l)))
        else
          (let l' = l\<lparr>LastActivity := now\<rparr>; lm' = put_link l' lm
           in case ParseLinkDataPacket C p (Signing l) (Encryption l) of Inl e \<Rightarrow> (lm', Inl e)
              | Inr plaintext \<Rightarrow>
                  (lm', Inr (plaintext, l',
                     case OnInboundData l of Some cb \<Rightarrow> ToLink cb plaintext
                     | None \<Rightarrow> (case defaultOnInboundData lm of Some cb \<Rightarrow> ToDefault cb (ID l) plaintext | None \<Rightarrow> Undelivered)))))"

definition CloseLink :: "bytes \<Rightarrow> LinkManager \<Rightarrow> LinkManager \<times> nat list \<times> nat list" where
  "CloseLink linkID lm =
     closeResourcesForLink linkID (lm\<lparr>links := AList.delete (hex_encode linkID) (links lm)\<rparr>)"

section \<open>Table lemmas\<close>

lemma Get_put [simp]: "Get_link i (put_link l lm) = (if i = ID l then Some l else Get_link i lm)"
  by (simp add: Get_link_def put_link_def)

lemma new_link_simps [simp]:
  "ID (new_link i t) = i" "State (new_link i t) = LinkPending" "responderIdentity (new_link i t) = None" "Signing (new_link i t) = []"
  "peerDestHash (new_link i t) = []" "myEphemeralX25519Priv (new_link i t) = []" "pendingProofs (new_link i t) = []"
  by (simp_all add: new_link_def)

lemma newClamped_Some:
  "x25519 C (clamp r) Basepoint = Some q \<Longrightarrow> newClampedX25519 C (Some r) = Inr (clamp r, q)"
  by (simp add: newClampedX25519_def)

section \<open>The handshake\<close>

text \<open>What \<open>StartLinkAsInitiator\<close> returns.\<close>

lemma StartLink_eq:
  assumes ok: "crypto_ok C" and len: "length xi = 32" "length seed = 32" "length dest = 16"
    and pub: "x25519 C (clamp xi) Basepoint = Some pi"
  obtains lid where
    "StartLinkAsInitiator C (Some xi) (Some seed) now dest sig lm =
      (let l = (new_link lid now)\<lparr>myEphemeralX25519Priv := clamp xi, initiatorEd25519Priv := seed, peerDestHash := dest, activatedCh := Some False\<rparr>
       in Inr (put_link l lm, l, \<lparr>HeaderType = 0, ContextFlag = False, TransportType = 0, DestinationType = 0, PacketType = 2, Hops = 0,
            TransportID = [], DestHash = dest, Context = 0, Data = pi @ ed_pub C seed @ sig_bytes sig\<rparr>))"
    and "lid = take 16 (sha256 C (2 # dest @ 0 # pi @ ed_pub C seed))" and "length lid = 16"
    and "length pi = 32" and "length (ed_pub C seed) = 32"
proof -
  have pi: "length pi = 32" using dh_length [OF crypto_okD(2) [OF ok] _ length_Basepoint pub] len by simp
  have ed: "length (ed_pub C seed) = 32" using ok len by (simp add: crypto_ok_def sig_ok_def)
  let ?p = "\<lparr>HeaderType = 0, ContextFlag = False, TransportType = 0, DestinationType = 0, PacketType = 2, Hops = 0,
            TransportID = [], DestHash = dest, Context = 0, Data = pi @ ed_pub C seed @ sig_bytes sig\<rparr>"
  have "packet_ok ?p" using len by (simp add: packet_ok_def flags_ok_def)
  then have lid: "LinkID C ?p = Inr (take 16 (sha256 C (2 # dest @ 0 # pi @ ed_pub C seed)))"
    using LinkID_parts [of ?p pi "ed_pub C seed" sig C] pi ed by simp
  show thesis
    by (rule that [where lid = "take 16 (sha256 C (2 # dest @ 0 # pi @ ed_pub C seed))"])
      (use pi ed len lid length_sha256 [OF crypto_okD(1) [OF ok]] in
        \<open>simp_all add: StartLinkAsInitiator_def newClamped_Some [OF pub] identityFromHalves_def pub PublicKey_def BuildLinkRequest_def key_lens\<close>)
qed

text \<open>What the responder's \<open>AcceptIncomingLinkRequest\<close> makes of it, when it mirrors the signalling.\<close>

lemma Accept_eq:
  assumes ok: "crypto_ok C" "identity_ok C ident" and len: "length xr = 32" "length x = 32" "length e = 32" "length (DestHash got) = 16"
    and got: "packet_ok got" "PacketType got = 2" "DestinationType got = 0" "Context got = 0" "Data got = x @ e @ sig_bytes sig" "signalling_ok sig"
    and pub: "x25519 C (clamp xr) Basepoint = Some pr" and lid: "lid = take 16 (sha256 C (2 # DestHash got @ 0 # x @ e))"
    and keys: "DeriveLinkSessionKeys C (clamp xr) x lid = Inr (sk, ek)"
  shows "AcceptIncomingLinkRequest C (Some xr) now got ident None lm =
      (let l = (new_link lid now)\<lparr>State := LinkActive, Signing := sk, Encryption := ek, myResponderEphPriv := clamp xr, responderIdentity := Some ident\<rparr>
       in Inr (put_link l lm, l, \<lparr>HeaderType = 0, ContextFlag = False, TransportType = 0, DestinationType = 3, PacketType = 3, Hops = 0,
            TransportID = [], DestHash = lid, Context = 255,
            Data = Sign C ident (buildLRProofSignedData lid pr (ed25519Pub ident) sig) @ pr @ sig_bytes sig\<rparr>))"
proof -
  have pr: "length pr = 32" using dh_length [OF crypto_okD(2) [OF ok(1)] _ length_Basepoint pub] len by simp
  have ll: "length lid = 16" using length_sha256 [OF crypto_okD(1) [OF ok(1)]] by (simp add: lid)
  show ?thesis
    using ParseLinkRequest_parts [OF got(2,5) len(2,3) got(6)] LinkID_parts [OF got(1,2,3,5) len(2,3), of C] pr ll keys got(4)
    by (simp add: AcceptIncomingLinkRequest_def newClamped_Some [OF pub] lid [symmetric] BuildLRProof_def key_lens PublicKey_ed [OF ok] Let_def)
qed

text \<open>C11. The link handshake agrees: an initiator that starts a link to a responder whose identity it knows, and a
  responder that accepts the request, with whatever relays between them (which may rewrite header type, transport type, transport
  id, context flag and hop count of both packets), end with a link of the same 16-byte id, active on both
  sides, under the same two 32-byte session keys, whatever the entropy and with or without signalling. The scalars
  are assumed not to hit a low-order point.\<close>

theorem handshake_agrees:
  assumes ok: "crypto_ok C" "identity_ok C ident" and sig: "signalling_ok sig" and dest: "length dest = 16"
    and rnd: "length xi = 32" "length seed = 32" "length xr = 32"
    and dh: "x25519 C (clamp xi) Basepoint = Some pi" "x25519 C (clamp xr) Basepoint = Some pr" "x25519 C (clamp xi) pr \<noteq> None"
    and start: "StartLinkAsInitiator C (Some xi) (Some seed) t1 dest sig lmI = Inr (lmI', l, req)"
    and relay: "packet_ok (req\<lparr>HeaderType := ht, TransportType := tt, TransportID := tid, Hops := h, ContextFlag := cf\<rparr>)"
  shows "\<exists>lmR r lrp lmI'' l'.
      AcceptIncomingLinkRequest C (Some xr) t2 (req\<lparr>HeaderType := ht, TransportType := tt, TransportID := tid, Hops := h, ContextFlag := cf\<rparr>) ident None lm
        = Inr (lmR, r, lrp)
    \<and> HandleLRProof C t3 (lrp\<lparr>HeaderType := ht', TransportType := tt', TransportID := tid', Hops := h', ContextFlag := cf'\<rparr>) (ed25519Pub ident) lmI'
        = Inr (lmI'', l')
    \<and> Get_link (ID l) lmR = Some r \<and> Get_link (ID l) lmI'' = Some l' \<and> ID r = ID l \<and> ID l' = ID l \<and> length (ID l) = 16
    \<and> State l = LinkPending \<and> State l' = LinkActive \<and> State r = LinkActive
    \<and> Signing l' = Signing r \<and> Encryption l' = Encryption r \<and> length (Signing r) = 32 \<and> length (Encryption r) = 32
    \<and> peerEd25519Pub l' = ed25519Pub ident \<and> responderIdentity r = Some ident"
proof -
  obtain lid where st: "StartLinkAsInitiator C (Some xi) (Some seed) t1 dest sig lmI =
      (let l = (new_link lid t1)\<lparr>myEphemeralX25519Priv := clamp xi, initiatorEd25519Priv := seed, peerDestHash := dest, activatedCh := Some False\<rparr>
       in Inr (put_link l lmI, l, \<lparr>HeaderType = 0, ContextFlag = False, TransportType = 0, DestinationType = 0, PacketType = 2, Hops = 0,
            TransportID = [], DestHash = dest, Context = 0, Data = pi @ ed_pub C seed @ sig_bytes sig\<rparr>))"
    and lid: "lid = take 16 (sha256 C (2 # dest @ 0 # pi @ ed_pub C seed))" "length lid = 16"
    and pl: "length pi = 32" "length (ed_pub C seed) = 32"
    using StartLink_eq [OF ok(1) rnd(1,2) dest dh(1)] by blast
  from dh(3) obtain shared where sh: "x25519 C (clamp xi) pr = Some shared" by blast
  obtain sk ek where keys: "DeriveLinkSessionKeys C (clamp xi) pr lid = Inr (sk, ek)" "DeriveLinkSessionKeys C (clamp xr) pi lid = Inr (sk, ek)"
    "length sk = 32" "length ek = 32"
    using session_keys_agree [OF ok(1) _ _ lid(2) dh(1,2) sh] rnd by (metis length_clamp)
  have prl: "length pr = 32" using dh_length [OF crypto_okD(2) [OF ok(1)] _ length_Basepoint dh(2)] rnd by simp
  let ?got = "req\<lparr>HeaderType := ht, TransportType := tt, TransportID := tid, Hops := h, ContextFlag := cf\<rparr>"
  have l: "l = (new_link lid t1)\<lparr>myEphemeralX25519Priv := clamp xi, initiatorEd25519Priv := seed, peerDestHash := dest, activatedCh := Some False\<rparr>"
    and lm': "lmI' = put_link l lmI" and req: "DestHash ?got = dest" "PacketType ?got = 2" "DestinationType ?got = 0" "Context ?got = 0"
    "Data ?got = pi @ ed_pub C seed @ sig_bytes sig"
    using start st by (auto simp: Let_def)
  note acc = Accept_eq [OF ok rnd(3) pl _ relay req(2,3,4,5) sig dh(2) _ keys(2), where now = t2 and lm = lm, unfolded req(1), OF dest lid(1)]
  define r where "r = (new_link lid t2)\<lparr>State := LinkActive, Signing := sk, Encryption := ek, myResponderEphPriv := clamp xr, responderIdentity := Some ident\<rparr>"
  define lrp where "lrp = \<lparr>HeaderType = 0, ContextFlag = False, TransportType = 0, DestinationType = 3, PacketType = 3, Hops = 0,
            TransportID = [], DestHash = lid, Context = 255,
            Data = Sign C ident (buildLRProofSignedData lid pr (ed25519Pub ident) sig) @ pr @ sig_bytes sig\<rparr>"
  have parsed: "ParseLRProof (lrp\<lparr>HeaderType := ht', TransportType := tt', TransportID := tid', Hops := h', ContextFlag := cf'\<rparr>) =
      Inr \<lparr>LinkID_p = lid, Signature_p = Sign C ident (buildLRProofSignedData lid pr (ed25519Pub ident) sig), ResponderX25519Pub = pr, Signalling_p = sig\<rparr>"
    using length_Sign [OF ok] prl sig by (subst ParseLRProof_parts [where sig = sig]) (simp_all add: lrp_def)
  define l' where "l' = l\<lparr>Signing := sk, Encryption := ek, State := LinkActive, LastActivity := t3, myEphemeralX25519Priv := [],
      peerEd25519Pub := ed25519Pub ident, activatedCh := Some True\<rparr>"
  have "HandleLRProof C t3 (lrp\<lparr>HeaderType := ht', TransportType := tt', TransportID := tid', Hops := h', ContextFlag := cf'\<rparr>) (ed25519Pub ident) lmI'
      = Inr (put_link l' lmI', l')"
    using keys(1) by (simp add: HandleLRProof_def parsed Verify_lr_signed [OF ok] lm' l l'_def Let_def)
  moreover have "AcceptIncomingLinkRequest C (Some xr) t2 ?got ident None lm = Inr (put_link r lm, r, lrp)"
    using acc by (simp add: r_def lrp_def Let_def)
  ultimately show ?thesis
    using keys(3,4) lid(2) by (intro exI conjI) (assumption, assumption, simp_all add: r_def l'_def l)
qed

definition demo_dest :: bytes where "demo_dest = replicate 16 3"

theorem handshake_agrees_witness:
  "\<exists>lmI' l req lmR r lrp lmI'' l'.
      StartLinkAsInitiator demo_crypto (Some (replicate 32 7)) (Some (replicate 32 8)) 1 demo_dest None NewLinkManager = Inr (lmI', l, req)
    \<and> AcceptIncomingLinkRequest demo_crypto (Some (replicate 32 9)) 2 (req\<lparr>HeaderType := 1, TransportType := 1, TransportID := replicate 16 6, Hops := 4,
          ContextFlag := False\<rparr>) (demo_identity 4) None NewLinkManager = Inr (lmR, r, lrp)
    \<and> HandleLRProof demo_crypto 3 (lrp\<lparr>HeaderType := 0, TransportType := 0, TransportID := [], Hops := 4, ContextFlag := False\<rparr>)
        (ed25519Pub (demo_identity 4)) lmI' = Inr (lmI'', l')
    \<and> State l' = LinkActive \<and> State r = LinkActive \<and> Signing l' = Signing r"
proof -
  have pub: "x25519 demo_crypto (clamp (replicate 32 7)) Basepoint = Some (xor_bytes (clamp (replicate 32 7)) Basepoint)"
    "x25519 demo_crypto (clamp (replicate 32 9)) Basepoint = Some (xor_bytes (clamp (replicate 32 9)) Basepoint)"
    "x25519 demo_crypto (clamp (replicate 32 7)) (xor_bytes (clamp (replicate 32 9)) Basepoint) \<noteq> None"
    by (simp_all add: demo_crypto_def)
  have len: "length (replicate 32 7 :: bytes) = 32" "length (replicate 32 8 :: bytes) = 32" "length (replicate 32 9 :: bytes) = 32" "length demo_dest = 16"
    by (simp_all add: demo_dest_def)
  obtain lid where st: "StartLinkAsInitiator demo_crypto (Some (replicate 32 7)) (Some (replicate 32 8)) 1 demo_dest None NewLinkManager =
      (let l = (new_link lid 1)\<lparr>myEphemeralX25519Priv := clamp (replicate 32 7), initiatorEd25519Priv := replicate 32 8, peerDestHash := demo_dest, activatedCh := Some False\<rparr>
       in Inr (put_link l NewLinkManager, l, \<lparr>HeaderType = 0, ContextFlag = False, TransportType = 0, DestinationType = 0, PacketType = 2, Hops = 0,
            TransportID = [], DestHash = demo_dest, Context = 0, Data = xor_bytes (clamp (replicate 32 7)) Basepoint @ ed_pub demo_crypto (replicate 32 8) @ sig_bytes None\<rparr>))"
    using StartLink_eq [OF demo_crypto_ok len(1,2,4) pub(1)] by blast
  then obtain lmI' l req where r: "StartLinkAsInitiator demo_crypto (Some (replicate 32 7)) (Some (replicate 32 8)) 1 demo_dest None NewLinkManager = Inr (lmI', l, req)"
    and p: "packet_ok (req\<lparr>HeaderType := 1, TransportType := 1, TransportID := replicate 16 6, Hops := 4, ContextFlag := False\<rparr>)"
    by (auto simp: Let_def packet_ok_def flags_ok_def demo_dest_def)
  from handshake_agrees [OF demo_crypto_ok demo_identity_ok [of 4] _ len(4,1,2,3) pub r p, where ht' = 0 and tt' = 0 and tid' = "[]" and h' = 4 and cf' = False
      and lm = NewLinkManager and ?t2.0 = 2 and ?t3.0 = 3] r
  show ?thesis by (simp add: signalling_ok_def) blast
qed

section \<open>Data on a link\<close>

text \<open>Link data is delivered and acknowledged: a payload sealed under the keys of a link that is active at the
  responder is delivered there byte for byte (to the link's callback, else to the default one), the activity time is refreshed, and the
  proof the responder returns validates under its long-term key as the proof of the packet that was sent. This holds for every
  payload and IV and whatever relays rewrite in the header.\<close>

lemma link_data_acknowledged:
  assumes ok: "crypto_ok C" "identity_ok C ident" and r: "Get_link lid lm = Some r" "State r = LinkActive" "ID r = lid" "length lid = 16"
    and keys: "length (Signing r) = 32" "length (Encryption r) = 32" and iv: "length iv = 16"
    and sent: "BuildLinkDataPacket C (Some iv) lid (Signing r) (Encryption r) m = Inr p"
    and got: "packet_ok got" "DestinationType got = DestinationType p" "PacketType got = PacketType p" "DestHash got = DestHash p"
      "Context got = Context p" "Data got = Data p"
  shows "HandleLinkData C now got lm = (put_link (r\<lparr>LastActivity := now\<rparr>) lm, Inr (m, r\<lparr>LastActivity := now\<rparr>,
        case OnInboundData r of Some cb \<Rightarrow> ToLink cb m
        | None \<Rightarrow> (case defaultOnInboundData lm of Some cb \<Rightarrow> ToDefault cb lid m | None \<Rightarrow> Undelivered)))
    \<and> (\<exists>pf hp. BuildLinkProof C lid (Sign C ident) got = Inr pf \<and> HashablePart p = Inr hp
        \<and> ValidateLinkProof C pf (ed25519Pub ident) = Inr (sha256 C hp))"
proof
  have g: "link_keys_ok (C, Signing r, Encryption r) (Some iv)" using ok(1) keys iv by (simp add: link_keys_ok_def)
  from link_box.sealed [OF g, of m] obtain w where w: "LinkTokenEncrypt C (Some iv) m (Signing r) (Encryption r) = Inr w"
    "LinkTokenDecrypt C w (Signing r) (Encryption r) = Inr m"
    by (auto simp: link_seal_def link_unseal_def)
  have p: "p = link_packet lid PacketData ContextNone w" using sent w(1) r(4) by (simp add: BuildLinkDataPacket_def key_lens)
  have "ParseLinkDataPacket C got (Signing r) (Encryption r) = Inr m"
    using got w(2) by (simp add: p link_packet_def ParseLinkDataPacket_def)
  then show "HandleLinkData C now got lm = (put_link (r\<lparr>LastActivity := now\<rparr>) lm, Inr (m, r\<lparr>LastActivity := now\<rparr>,
        case OnInboundData r of Some cb \<Rightarrow> ToLink cb m
        | None \<Rightarrow> (case defaultOnInboundData lm of Some cb \<Rightarrow> ToDefault cb lid m | None \<Rightarrow> Undelivered)))"
    using r got by (simp add: HandleLinkData_def p link_packet_def Let_def split: option.split)
  have "packet_ok p" using r(4) by (simp add: p link_packet_def packet_ok_def flags_ok_def)
  then obtain hp where hp: "HashablePart p = Inr hp" "HashablePart got = Inr hp"
    using got by (simp add: HashablePart_eq)
  let ?pf = "link_packet lid PacketProof ContextNone (sha256 C hp @ Sign C ident (sha256 C hp))"
  have "BuildLinkProof C lid (Sign C ident) got = Inr ?pf"
    using hp r(4) length_Sign [OF ok] by (simp add: BuildLinkProof_def key_lens Let_def)
  moreover have "ValidateLinkProof C ?pf (ed25519Pub ident) = Inr (sha256 C hp)"
    using length_Sign [OF ok] length_sha256 [OF crypto_okD(1) [OF ok(1)]] identity_keys [OF ok] Validate_D [OF Sign_Validate [OF ok]]
    by (simp add: ValidateLinkProof_def link_packet_def ProofBodyExplicitLen_def)
  ultimately show "\<exists>pf hp. BuildLinkProof C lid (Sign C ident) got = Inr pf \<and> HashablePart p = Inr hp
        \<and> ValidateLinkProof C pf (ed25519Pub ident) = Inr (sha256 C hp)"
    using hp by blast
qed

definition demo_link :: Link where
  "demo_link = (new_link demo_dest 1)\<lparr>State := LinkActive, Signing := replicate 32 1, Encryption := replicate 32 2,
     responderIdentity := Some (demo_identity 4), OnInboundData := Some 5\<rparr>"

section \<open>The state machine\<close>

text \<open>The events of a link manager; a random source that works fills its 32-byte array. Entry and exit of resource transfers, the setting of
  callbacks and of proof waiters and the bumping of the activity time leave the links' keys and states alone.\<close>

datatype link_event = EvStart Packet | EvProof Packet | EvAccept Packet | EvData Packet | EvClose bytes | EvTouch bytes | EvResource

inductive mgr_step :: "Primitives \<Rightarrow> link_event \<Rightarrow> LinkManager \<Rightarrow> LinkManager \<Rightarrow> bool" for C where
  start: "StartLinkAsInitiator C (Some x) (Some e) now dest sig lm = Inr (lm', l, req) \<Longrightarrow> length x = 32 \<Longrightarrow> length e = 32
    \<Longrightarrow> mgr_step C (EvStart req) lm lm'"
| lrproof: "HandleLRProof C now p pub lm = Inr (lm', l) \<Longrightarrow> mgr_step C (EvProof p) lm lm'"
| accept: "AcceptIncomingLinkRequest C (Some x) now p ident sig lm = Inr (lm', l, reply) \<Longrightarrow> length x = 32 \<Longrightarrow> mgr_step C (EvAccept p) lm lm'"
| data: "HandleLinkData C now p lm = (lm', res) \<Longrightarrow> mgr_step C (EvData p) lm lm'"
| close: "CloseLink i lm = (lm', ss, rs) \<Longrightarrow> mgr_step C (EvClose i) lm lm'"
| callback: "Get_link i lm = Some l \<Longrightarrow> mgr_step C (EvTouch i) lm (put_link (l\<lparr>OnInboundData := cb\<rparr>) lm)"
| activity: "Get_link i lm = Some l \<Longrightarrow> mgr_step C (EvTouch i) lm (put_link (l\<lparr>LastActivity := now\<rparr>) lm)"
| waiter: "Get_link i lm = Some l \<Longrightarrow> mgr_step C (EvTouch i) lm (put_link (registerProofWaiter ch h l) lm)"
| unwait: "Get_link i lm = Some l \<Longrightarrow> mgr_step C (EvTouch i) lm (put_link (clearProofWaiter h l) lm)"
| signal: "Get_link i lm = Some l \<Longrightarrow> signalProof h l = (l', ch) \<Longrightarrow> mgr_step C (EvTouch i) lm (put_link l' lm)"
| sender: "registerResourceSender i h a lm = (lm', err) \<Longrightarrow> mgr_step C EvResource lm lm'"
| receiver: "registerResourceReceiver i h a lm = (lm', err) \<Longrightarrow> mgr_step C EvResource lm lm'"
| unregister: "mgr_step C EvResource lm (unregisterResource i h lm)"
| default: "mgr_step C EvResource lm (SetDefaultInboundDataHandler cb lm)"

text \<open>A well-formed link: a pending one is an initiator's and holds the scalar that will complete the handshake, an active one holds both
  keys, and the initiator's knows whose proofs to accept. No closed link stays in the table.\<close>

definition link_ok :: "Link \<Rightarrow> bool" where
  "link_ok l \<longleftrightarrow> length (ID l) = 16
     \<and> (responderIdentity l = None \<longrightarrow> length (peerDestHash l) = 16 \<and> length (initiatorEd25519Priv l) = 32)
     \<and> (case State l of
          LinkPending \<Rightarrow> responderIdentity l = None \<and> length (myEphemeralX25519Priv l) = 32 \<and> Signing l = [] \<and> Encryption l = []
        | LinkActive \<Rightarrow> length (Signing l) = 32 \<and> length (Encryption l) = 32 \<and> myEphemeralX25519Priv l = []
            \<and> (responderIdentity l = None \<longrightarrow> length (peerEd25519Pub l) = 32)
        | LinkClosed \<Rightarrow> False)"

definition mgr_ok :: "LinkManager \<Rightarrow> bool" where
  "mgr_ok lm \<longleftrightarrow> gm_ok (links lm) \<and> gm_ok (senders lm) \<and> gm_ok (receivers lm)
     \<and> (\<forall>i l. map_of (links lm) i = Some l \<longrightarrow> i = hex_encode (ID l) \<and> link_ok l)"

lemma mgr_ok_new [simp]: "mgr_ok NewLinkManager"
  by (simp add: mgr_ok_def NewLinkManager_def)

lemma mgr_ok_put [inv_intros]: "mgr_ok lm \<Longrightarrow> link_ok l \<Longrightarrow> mgr_ok (put_link l lm)"
  by (auto simp: mgr_ok_def put_link_def)

lemma mgr_ok_Get: "mgr_ok lm \<Longrightarrow> Get_link i lm = Some l \<Longrightarrow> ID l = i \<and> link_ok l"
  unfolding mgr_ok_def Get_link_def by (metis hex_encode_inject)

lemma link_ok_touch [simp]:
  "link_ok (l\<lparr>LastActivity := t\<rparr>) = link_ok l" "link_ok (l\<lparr>OnInboundData := cb\<rparr>) = link_ok l" "link_ok (l\<lparr>pendingProofs := m\<rparr>) = link_ok l"
  by (cases "State l"; simp add: link_ok_def)+

lemma mgr_ok_touch: "mgr_ok lm \<Longrightarrow> Get_link i lm = Some l \<Longrightarrow> (link_ok l \<Longrightarrow> link_ok l') \<Longrightarrow> mgr_ok (put_link l' lm)"
  by (rule mgr_ok_put) (use mgr_ok_Get in blast)+

lemma mgr_ok_index:
  "mgr_ok lm \<Longrightarrow> links lm' = links lm \<Longrightarrow> gm_ok (senders lm') \<Longrightarrow> gm_ok (receivers lm') \<Longrightarrow> mgr_ok lm'"
  "mgr_ok lm \<Longrightarrow> gm_ok (senders lm)" "mgr_ok lm \<Longrightarrow> gm_ok (receivers lm)"
  by (simp_all add: mgr_ok_def)

lemma LinkID_length: "crypto_ok C \<Longrightarrow> LinkID C p = Inr i \<Longrightarrow> length i = 16"
  using length_sha256 [OF crypto_okD(1), of C]
  by (simp add: LinkID_def Let_def key_lens split: if_splits sum.splits) (metis length_take min.absorb2 numeral_le_iff semiring_norm(68,69,71,72))+

lemma DeriveLinkSessionKeys_len:
  "crypto_ok C \<Longrightarrow> DeriveLinkSessionKeys C a p i = Inr (sk, ek) \<Longrightarrow> length sk = 32 \<and> length ek = 32 \<and> length i = 16"
  using length_hkdf [OF crypto_okD(1), of C]
  by (auto simp: DeriveLinkSessionKeys_def link_lens Let_def split: if_splits option.splits)

lemma Start_Inr:
  assumes "StartLinkAsInitiator C (Some x) (Some e) now dest sig lm = Inr (lm', l, req)"
  shows "lm' = put_link l lm" "LinkID C req = Inr (ID l)" "State l = LinkPending" "responderIdentity l = None" "Signing l = []" "Encryption l = []"
    "peerDestHash l = dest" "length dest = 16" "initiatorEd25519Priv l = e" "myEphemeralX25519Priv l = clamp x"
  using assms by (auto simp: StartLinkAsInitiator_def newClampedX25519_def Let_def new_link_def key_lens split: if_splits sum.splits option.splits)

lemma Accept_Inr:
  assumes "AcceptIncomingLinkRequest C (Some x) now p ident sig lm = Inr (lm', l, reply)"
  obtains req where "lm' = put_link l lm" and "LinkID C p = Inr (ID l)" and "ParseLinkRequest p = Inr req"
    and "DeriveLinkSessionKeys C (clamp x) (InitiatorX25519Pub req) (ID l) = Inr (Signing l, Encryption l)"
    and "State l = LinkActive" and "responderIdentity l = Some ident" and "myEphemeralX25519Priv l = []"
  using assms
  by (auto simp: AcceptIncomingLinkRequest_def newClampedX25519_def Let_def new_link_def split: sum.splits option.splits prod.splits)

lemma LRProof_Inr:
  assumes "HandleLRProof C now p pub lm = Inr (lm', l')"
  obtains pr l where "lm' = put_link l' lm" and "ParseLRProof p = Inr pr" and "Verify_lr C pr pub = None" and "length pub = 32"
    and "Get_link (LinkID_p pr) lm = Some l" and "State l = LinkPending"
    and "DeriveLinkSessionKeys C (myEphemeralX25519Priv l) (ResponderX25519Pub pr) (LinkID_p pr) = Inr (Signing l', Encryption l')"
    and "l' = l\<lparr>Signing := Signing l', Encryption := Encryption l', State := LinkActive, LastActivity := now, myEphemeralX25519Priv := [],
          peerEd25519Pub := pub, activatedCh := map_option (\<lambda>_. True) (activatedCh l)\<rparr>"
  using assms
  by (auto simp: HandleLRProof_def Let_def Verify_lr_def split: sum.splits option.splits prod.splits if_splits)

lemma Data_cases:
  assumes "HandleLinkData C now p lm = (lm', res)"
  obtains "lm' = lm" | l where "Get_link (DestHash p) lm = Some l" and "lm' = put_link (l\<lparr>LastActivity := now\<rparr>) lm"
  using assms by (auto simp: HandleLinkData_def Let_def split: option.splits if_splits sum.splits)

lemmas touch_defs = registerProofWaiter_def clearProofWaiter_def signalProof_def

lemmas resource_defs = registerResourceSender_def registerResourceReceiver_def unregisterResource_def SetDefaultInboundDataHandler_def Let_def

lemma mgr_step_kept:
  assumes "mgr_step C ev lm lm'" and ok: "crypto_ok C" and inv: "mgr_ok lm"
  shows "mgr_ok lm'"
  using assms(1)
proof cases
  case (start x e now dest sig l req)
  note s = Start_Inr [OF start(2)]
  have "length (ID l) = 16"
    by (rule LinkID_length [OF ok s(2)])
  then show ?thesis using s start inv by (simp add: mgr_ok_put link_ok_def)
next
  case (lrproof now p pub l')
  from lrproof(2) obtain pr l where h: "lm' = put_link l' lm" "ParseLRProof p = Inr pr" "Verify_lr C pr pub = None" "length pub = 32" "Get_link (LinkID_p pr) lm = Some l" "State l = LinkPending"
    "DeriveLinkSessionKeys C (myEphemeralX25519Priv l) (ResponderX25519Pub pr) (LinkID_p pr) = Inr (Signing l', Encryption l')"
    "l' = l\<lparr>Signing := Signing l', Encryption := Encryption l', State := LinkActive, LastActivity := now, myEphemeralX25519Priv := [],
          peerEd25519Pub := pub, activatedCh := map_option (\<lambda>_. True) (activatedCh l)\<rparr>"
    by (rule LRProof_Inr)
  have "link_ok l" using mgr_ok_Get [OF inv h(5)] by simp
  then have "link_ok (l\<lparr>Signing := Signing l', Encryption := Encryption l', State := LinkActive, LastActivity := now, myEphemeralX25519Priv := [],
          peerEd25519Pub := pub, activatedCh := map_option (\<lambda>_. True) (activatedCh l)\<rparr>)"
    using h(4,6) DeriveLinkSessionKeys_len [OF ok h(7)] by (simp add: link_ok_def)
  then have "link_ok l'" by (simp only: h(8) [symmetric])
  then show ?thesis using h(1) inv by (simp add: mgr_ok_put)
next
  case (accept x now p ident sig l reply)
  from accept(2) obtain req where a: "lm' = put_link l lm" "LinkID C p = Inr (ID l)" "ParseLinkRequest p = Inr req"
    "DeriveLinkSessionKeys C (clamp x) (InitiatorX25519Pub req) (ID l) = Inr (Signing l, Encryption l)"
    "State l = LinkActive" "responderIdentity l = Some ident" "myEphemeralX25519Priv l = []"
    by (rule Accept_Inr)
  then show ?thesis using DeriveLinkSessionKeys_len [OF ok a(4)] inv by (simp add: mgr_ok_put link_ok_def)
next
  case (data now p res)
  from data(2) show ?thesis
    by (rule Data_cases) (use inv in \<open>auto intro: mgr_ok_touch\<close>)
next
  case (close i ss rs)
  then show ?thesis
    using inv by (auto simp: CloseLink_def closeResourcesForLink_def mgr_ok_def split: if_splits)
next
  case (signal i l h l' ch)
  then have "link_ok l \<Longrightarrow> link_ok l'" by (auto simp: signalProof_def split: option.splits)
  with signal inv show ?thesis by (simp add: mgr_ok_touch)
qed (use inv in \<open>auto intro: mgr_ok_touch mgr_ok_index(1) simp: touch_defs resource_defs mgr_ok_index(2,3) split: option.splits\<close>)

definition mgr_run :: "Primitives \<Rightarrow> LinkManager \<Rightarrow> LinkManager \<Rightarrow> bool" where
  "mgr_run C = rtranclp (\<lambda>lm lm'. \<exists>ev. mgr_step C ev lm lm')"

interpretation manager: invariant_system "\<lambda>lm lm'. \<exists>ev. mgr_step C ev lm lm'" "\<lambda>lm. crypto_ok C \<and> mgr_ok lm" for C
  by unfold_locales (auto intro: mgr_step_kept)

text \<open>C17. Every link the manager ever holds is well formed: after any sequence of handshakes, proofs, data packets,
  closings and resource registrations on a new manager, a link found under an id has that 16-byte id and is pending or active, never
  closed; a pending one is the initiator's with its 32-byte scalar and no keys yet; an active one has both 32-byte keys and has
  forgotten the scalar, and the initiator's holds the 32-byte key that proofs are checked with.\<close>

theorem manager_links_ok:
  assumes "crypto_ok C" and "mgr_run C NewLinkManager lm"
  shows "gm_ok (links lm) \<and> (\<forall>i l. Get_link i lm = Some l \<longrightarrow> ID l = i \<and> link_ok l)"
proof -
  have inv: "mgr_ok lm" using manager.along_run [of C NewLinkManager lm] assms by (simp add: mgr_run_def)
  then have "gm_ok (links lm)" unfolding mgr_ok_def by (rule conjunct1)
  with mgr_ok_Get [OF inv] show ?thesis by blast
qed

theorem manager_links_ok_witness:
  "\<exists>lm l. mgr_run demo_crypto NewLinkManager lm \<and> Get_link (ID l) lm = Some l \<and> State l = LinkPending \<and> link_ok l"
proof -
  have pub: "x25519 demo_crypto (clamp (replicate 32 7)) Basepoint = Some (xor_bytes (clamp (replicate 32 7)) Basepoint)"
    by (simp add: demo_crypto_def)
  have len: "length (replicate 32 7 :: bytes) = 32" "length (replicate 32 8 :: bytes) = 32" "length demo_dest = 16"
    by (simp_all add: demo_dest_def)
  obtain lm' l req where st: "StartLinkAsInitiator demo_crypto (Some (replicate 32 7)) (Some (replicate 32 8)) 1 demo_dest None NewLinkManager = Inr (lm', l, req)"
    using StartLink_eq [OF demo_crypto_ok len pub] by (metis (no_types))
  have "mgr_step demo_crypto (EvStart req) NewLinkManager lm'" by (rule mgr_step.start [OF st]) simp_all
  then have r: "mgr_run demo_crypto NewLinkManager lm'" unfolding mgr_run_def by blast
  have "Get_link (ID l) lm' = Some l" "State l = LinkPending" using Start_Inr [OF st] by simp_all
  with manager_links_ok [OF demo_crypto_ok r] r show ?thesis by blast
qed

text \<open>C18. Session keys are never replaced behind a peer's back: whatever packets arrive, an active link that is still in the
  table after a step is still active under the same keys and with the same peer, unless the step was itself a link request, sent
  or received, that hashes to this link's id. In particular a repeated or forged proof of the handshake changes nothing.\<close>

theorem keys_never_replaced:
  assumes "crypto_ok C" and "mgr_run C NewLinkManager lm" and "mgr_step C ev lm lm'"
    and "Get_link i lm = Some l" and "State l = LinkActive" and "Get_link i lm' = Some l'"
    and "\<And>p. ev = EvStart p \<or> ev = EvAccept p \<Longrightarrow> LinkID C p \<noteq> Inr i"
  shows "State l' = LinkActive \<and> Signing l' = Signing l \<and> Encryption l' = Encryption l \<and> peerEd25519Pub l' = peerEd25519Pub l
     \<and> responderIdentity l' = responderIdentity l \<and> peerDestHash l' = peerDestHash l"
proof -
  have inv: "mgr_ok lm" using manager.along_run [of C NewLinkManager lm] assms(1,2) by (simp add: mgr_run_def)
  note old = mgr_ok_Get [OF inv]
  from assms(3) show ?thesis
  proof cases
    case (start x e now dest sig m req)
    then have "ID m \<noteq> i" using Start_Inr(2) [OF start(2)] assms(7) by blast
    then show ?thesis using Start_Inr(1) [OF start(2)] assms(4-6) by simp
  next
    case (lrproof now p pub m)
    from lrproof(2) obtain pr k where h: "lm' = put_link m lm" "ParseLRProof p = Inr pr" "Verify_lr C pr pub = None" "length pub = 32"
      "Get_link (LinkID_p pr) lm = Some k" "State k = LinkPending"
      "DeriveLinkSessionKeys C (myEphemeralX25519Priv k) (ResponderX25519Pub pr) (LinkID_p pr) = Inr (Signing m, Encryption m)"
      "m = k\<lparr>Signing := Signing m, Encryption := Encryption m, State := LinkActive, LastActivity := now, myEphemeralX25519Priv := [],
          peerEd25519Pub := pub, activatedCh := map_option (\<lambda>_. True) (activatedCh k)\<rparr>"
      by (rule LRProof_Inr)
    have "ID m = LinkID_p pr" using old [OF h(5)] arg_cong [OF h(8), of ID] by simp
    moreover have "LinkID_p pr \<noteq> i" using h(5,6) assms(4,5) by auto
    ultimately show ?thesis using h(1) assms(4-6) by simp
  next
    case (accept x now p ident sig m reply)
    from accept(2) have "lm' = put_link m lm" "LinkID C p = Inr (ID m)" by (rule Accept_Inr, simp)+
    then show ?thesis using assms(4-6) assms(7) [of p] accept(1) by (auto split: if_splits)
  next
    case (data now p res)
    from data(2) show ?thesis
      by (rule Data_cases) (use assms(4-6) old in \<open>auto split: if_splits\<close>)
  next
    case (close j ss rs)
    then have "lm' = fst (CloseLink j lm)" by simp
    then show ?thesis
      using assms(4-6) by (auto simp: CloseLink_def closeResourcesForLink_def Get_link_def split: if_splits)
  qed (use assms(4-6) old in \<open>auto simp: touch_defs resource_defs Get_link_def put_link_def split: option.splits if_splits\<close>)
qed

definition demo_request :: Packet where
  "demo_request = \<lparr>HeaderType = 0, ContextFlag = False, TransportType = 0, DestinationType = 0, PacketType = 2, Hops = 0, TransportID = [],
     DestHash = demo_dest, Context = 0, Data = replicate 32 1 @ replicate 32 2 @ sig_bytes None\<rparr>"

lemma demo_accept:
  "\<exists>lm r lrp. AcceptIncomingLinkRequest demo_crypto (Some (replicate 32 9)) 2 demo_request (demo_identity 4) None NewLinkManager = Inr (lm, r, lrp)
     \<and> Get_link (ID r) lm = Some r \<and> State r = LinkActive"
proof -
  let ?lid = "take 16 (sha256 demo_crypto (2 # DestHash demo_request @ 0 # replicate 32 1 @ replicate 32 2))"
  have pub: "x25519 demo_crypto (clamp (replicate 32 9)) Basepoint = Some (xor_bytes (clamp (replicate 32 9)) Basepoint)"
    and sh: "\<exists>q. x25519 demo_crypto (clamp (replicate 32 9)) (replicate 32 1) = Some q"
    by (simp_all add: demo_crypto_def)
  have "length ?lid = 16" using length_sha256 [OF crypto_okD(1) [OF demo_crypto_ok]] by simp
  with sh obtain sk ek where k: "DeriveLinkSessionKeys demo_crypto (clamp (replicate 32 9)) (replicate 32 1) ?lid = Inr (sk, ek)"
    by (auto simp: DeriveLinkSessionKeys_def link_lens Let_def)
  show ?thesis
    by (subst Accept_eq [OF demo_crypto_ok demo_identity_ok, where sig = None and x = "replicate 32 1" and e = "replicate 32 2" and lid = ?lid, OF _ _ _ _ _ _ _ _ _ _ pub refl k])
      (simp_all add: demo_request_def demo_dest_def packet_ok_def flags_ok_def signalling_ok_def Let_def)
qed

theorem keys_never_replaced_witness:
  "\<exists>lm lm' p l l'. mgr_run demo_crypto NewLinkManager lm \<and> mgr_step demo_crypto (EvData p) lm lm' \<and> Get_link (ID l) lm = Some l
     \<and> State l = LinkActive \<and> Get_link (ID l) lm' = Some l' \<and> State l' = LinkActive \<and> Signing l' = Signing l"
proof -
  obtain lm r lrp where a: "AcceptIncomingLinkRequest demo_crypto (Some (replicate 32 9)) 2 demo_request (demo_identity 4) None NewLinkManager = Inr (lm, r, lrp)"
    and g: "Get_link (ID r) lm = Some r" "State r = LinkActive"
    using demo_accept by blast
  have run: "mgr_run demo_crypto NewLinkManager lm"
    unfolding mgr_run_def using mgr_step.accept [OF a] by auto
  let ?p = "link_packet (ID r) 0 0 []"
  let ?lm' = "fst (HandleLinkData demo_crypto 9 ?p lm)"
  have s: "mgr_step demo_crypto (EvData ?p) lm ?lm'" by (rule mgr_step.data [OF prod.collapse [symmetric]])
  have g': "Get_link (ID r) ?lm' = Some (r\<lparr>LastActivity := 9\<rparr>)"
    using g by (auto simp: HandleLinkData_def link_packet_def Let_def split: sum.split)
  from keys_never_replaced [OF demo_crypto_ok run s g g'] have "State (r\<lparr>LastActivity := 9\<rparr>) = LinkActive \<and> Signing (r\<lparr>LastActivity := 9\<rparr>) = Signing r"
    by blast
  with run s g g' show ?thesis by blast
qed

section \<open>The resource index\<close>

lemma hex_colon_inject: "hex_encode a @ '':'' @ xs = hex_encode b @ '':'' @ ys \<longleftrightarrow> a = b \<and> xs = ys"
proof
  assume e: "hex_encode a @ '':'' @ xs = hex_encode b @ '':'' @ ys"
  have n: "CHR '':'' \<notin> set (hex_encode c)" for c using hex_encode_chars [of "CHR '':''" c] by (auto simp: hex_char_def)
  have "hex_encode a = takeWhile (\<lambda>c. c \<noteq> CHR '':'') (hex_encode a @ '':'' @ xs)"
    "hex_encode b = takeWhile (\<lambda>c. c \<noteq> CHR '':'') (hex_encode b @ '':'' @ ys)"
    using n by (auto simp: takeWhile_append)
  with e show "a = b \<and> xs = ys" by (metis append_same_eq hex_encode_inject same_append_eq)
qed simp

lemma resourceKey_inject: "resourceKey i h = resourceKey j g \<longleftrightarrow> i = j \<and> h = g"
  by (simp add: resourceKey_def hex_colon_inject [where xs = "hex_encode _" and ys = "hex_encode _", simplified])

lemma key_of_link_resourceKey: "key_of_link i (resourceKey j g) \<longleftrightarrow> i = j"
proof
  assume "key_of_link i (resourceKey j g)"
  then obtain r where "resourceKey j g = (hex_encode i @ '':'') @ r"
    unfolding key_of_link_def Let_def by (metis append_take_drop_id)
  then show "i = j" using hex_colon_inject [of i r j "hex_encode g"] by (simp add: resourceKey_def)
next
  assume "i = j"
  then show "key_of_link i (resourceKey j g)" by (simp add: key_of_link_def resourceKey_def)
qed

lemma map_of_filter_key: "map_of (filter (\<lambda>(k, _). P k) m) k = (if P k then map_of m k else None)"
  by (induction m) auto

text \<open>Transfers are kept apart: two transfers share a key only when they are the same resource on the same link, the count of a
  link's inbound transfers counts exactly the keys of that link, and closing a link cancels and forgets exactly its own transfers.\<close>

theorem resource_index_exact:
  "(resourceKey i h = resourceKey j g \<longleftrightarrow> i = j \<and> h = g)
   \<and> (key_of_link i (resourceKey j g) \<longleftrightarrow> i = j)
   \<and> (case CloseLink i lm of (lm', ss, rs) \<Rightarrow>
        countReceiversForLink i lm' = 0
      \<and> lookupResourceReceiver j g lm' = (if j = i then None else lookupResourceReceiver j g lm)
      \<and> lookupResourceSender j g lm' = (if j = i then None else lookupResourceSender j g lm)
      \<and> length rs = countReceiversForLink i lm \<and> Get_link i lm' = None)"
proof -
  have "Get_link i (fst (CloseLink i lm)) = None" by (simp add: CloseLink_def closeResourcesForLink_def Get_link_def)
  then show ?thesis
    by (simp add: resourceKey_inject key_of_link_resourceKey CloseLink_def closeResourcesForLink_def countReceiversForLink_def lookupResourceReceiver_def
        lookupResourceSender_def map_of_filter_key filter_empty_conv split_beta)
qed

end
