(* ===== verification/Resource.thy ===== *)
theory Resource
  imports Token Announce
begin

text \<open>
  The formats of the resource protocol, which carries payloads too large for one link packet: \<open>internal/rns/resource.go\<close> (limits),
  \<open>resource_hash.go\<close> (hashes, parts, hashmap), \<open>resource_wire.go\<close> (requests, hashmap updates, proofs, cancellations) and
  \<open>resource_adv.go\<close> (advertisements and the checks a receiver applies to them). The msgpack library is a record of functions.
\<close>

section \<open>Limits\<close>

definition ReticulumMTU :: nat where "ReticulumMTU = 500"
definition ReticulumHeaderMaxSize :: nat where "ReticulumHeaderMaxSize = 35"
definition ReticulumHeaderMinSize :: nat where "ReticulumHeaderMinSize = 19"
definition ReticulumIFACMinSize :: nat where "ReticulumIFACMinSize = 1"
definition ReticulumTokenOverhead :: nat where "ReticulumTokenOverhead = 48"
definition ReticulumAES128BlockSize :: nat where "ReticulumAES128BlockSize = 16"

definition LinkMDU :: nat where
  "LinkMDU = ((ReticulumMTU - ReticulumIFACMinSize - ReticulumHeaderMinSize - ReticulumTokenOverhead)
     div ReticulumAES128BlockSize) * ReticulumAES128BlockSize - 1"

definition ResourceSDU :: nat where "ResourceSDU = ReticulumMTU - ReticulumHeaderMaxSize - ReticulumIFACMinSize"
definition ResourceRandomHashSize :: nat where "ResourceRandomHashSize = 4"
definition ResourceMapHashLen :: nat where "ResourceMapHashLen = 4"
definition HashmapMaxLen :: nat where "HashmapMaxLen = (LinkMDU - 134) div ResourceMapHashLen"
definition WindowMaxSlow :: nat where "WindowMaxSlow = 10"
definition WindowMaxFast :: nat where "WindowMaxFast = 75"
definition CollisionGuardSize :: nat where "CollisionGuardSize = 2 * WindowMaxFast + HashmapMaxLen"
definition MaxAdvRetries :: nat where "MaxAdvRetries = 4"
definition MaxEfficientSize :: nat where "MaxEfficientSize = 2 ^ 20 - 1"
definition MaxAcceptedResourceSize :: nat where "MaxAcceptedResourceSize = MaxEfficientSize + 8 * 1024"
definition MaxAcceptedResourceParts :: nat where "MaxAcceptedResourceParts = MaxAcceptedResourceSize div ResourceSDU + 4"
definition MaxConcurrentInboundResourcesPerLink :: nat where "MaxConcurrentInboundResourcesPerLink = 4"

lemma limits [simp]:
  "LinkMDU = 431" "ResourceSDU = 464" "ResourceRandomHashSize = 4" "ResourceMapHashLen = 4" "HashmapMaxLen = 74"
  "CollisionGuardSize = 224" "MaxAcceptedResourceSize = 1056767" "MaxAcceptedResourceParts = 2281"
  by (simp_all add: LinkMDU_def ReticulumMTU_def ReticulumIFACMinSize_def ReticulumHeaderMinSize_def ReticulumTokenOverhead_def
      ReticulumAES128BlockSize_def ResourceSDU_def ReticulumHeaderMaxSize_def ResourceRandomHashSize_def ResourceMapHashLen_def
      HashmapMaxLen_def WindowMaxFast_def CollisionGuardSize_def MaxAcceptedResourceSize_def MaxEfficientSize_def MaxAcceptedResourceParts_def)

abbreviation (input) ContextResource :: byte where "ContextResource \<equiv> 1"
abbreviation (input) ContextResourceADV :: byte where "ContextResourceADV \<equiv> 2"
abbreviation (input) ContextResourceREQ :: byte where "ContextResourceREQ \<equiv> 3"
abbreviation (input) ContextResourceHMU :: byte where "ContextResourceHMU \<equiv> 4"
abbreviation (input) ContextResourcePRF :: byte where "ContextResourcePRF \<equiv> 5"
abbreviation (input) ContextResourceICL :: byte where "ContextResourceICL \<equiv> 6"
abbreviation (input) ContextResourceRCL :: byte where "ContextResourceRCL \<equiv> 7"
abbreviation (input) HashmapNotExhausted :: byte where "HashmapNotExhausted \<equiv> 0"
abbreviation (input) HashmapExhausted :: byte where "HashmapExhausted \<equiv> 255"
abbreviation (input) ResourceFlagEncrypted :: int where "ResourceFlagEncrypted \<equiv> 1"
abbreviation (input) ResourceFlagCompressed :: int where "ResourceFlagCompressed \<equiv> 2"
abbreviation (input) ResourceFlagHasMetadata :: int where "ResourceFlagHasMetadata \<equiv> 32"

datatype ResourceState =
    ResourceStateQueued | ResourceStateAdvertised | ResourceStateTransferring | ResourceStateAwaitingProof
  | ResourceStateAssembling | ResourceStateComplete | ResourceStateCorrupt | ResourceStateFailed | ResourceStateCancelled

datatype resource_error =
    ErrResourceTooLarge | ErrResourceTooManyParts | ErrResourceADVMalformed | ErrResourceHashMismatch
  | ErrResourceProofMismatch | ErrResourceCancelled | ErrResourceTimeout | ErrResourceCollisionGuard
  | BadRandomHash | BadBody nat | BadFlag byte | BadMsgpack | BadField | SealFailed token_error | SequencingError
  | WrongResource | UnknownMapHash | DuplicatePart | NotInWindow | SendFailed | ContextDone | LinkNotActive

section \<open>Hashes\<close>

definition ResourceHash :: "Primitives \<Rightarrow> bytes \<Rightarrow> bytes \<Rightarrow> bytes" where
  "ResourceHash C plaintextBody r =
     (if length r \<noteq> ResourceRandomHashSize then replicate 32 0 else sha256 C (plaintextBody @ r))"

definition ResourceExpectedProof :: "Primitives \<Rightarrow> bytes \<Rightarrow> bytes \<Rightarrow> bytes" where
  "ResourceExpectedProof C plaintextBody h =
     (if length h \<noteq> 32 then replicate 32 0 else sha256 C (plaintextBody @ h))"

definition ResourceMapHash :: "Primitives \<Rightarrow> bytes \<Rightarrow> bytes \<Rightarrow> bytes" where
  "ResourceMapHash C part r =
     (if length r \<noteq> ResourceRandomHashSize then replicate ResourceMapHashLen 0 else take ResourceMapHashLen (sha256 C (part @ r)))"

function SplitParts :: "bytes \<Rightarrow> bytes list" where
  "SplitParts wireBlob = (if wireBlob = [] then [] else take ResourceSDU wireBlob # SplitParts (drop ResourceSDU wireBlob))"
  by pat_completeness auto
termination by (relation "measure length") auto

declare SplitParts.simps [simp del]

fun hashmap_loop :: "Primitives \<Rightarrow> bytes \<Rightarrow> bytes list \<Rightarrow> bytes \<Rightarrow> bytes list \<Rightarrow> resource_error + bytes" where
  "hashmap_loop C r guard out [] = Inr out"
| "hashmap_loop C r guard out (p # ps) =
     (let mh = ResourceMapHash C p r
      in if list_ex (\<lambda>prev. bytesEqual prev mh) guard then Inl ErrResourceCollisionGuard
         else
           (let guard' = guard @ [mh]
            in hashmap_loop C r (if length guard' > CollisionGuardSize then tl guard' else guard') (out @ mh) ps))"

definition BuildHashmap :: "Primitives \<Rightarrow> bytes list \<Rightarrow> bytes \<Rightarrow> resource_error + bytes" where
  "BuildHashmap C parts r =
     (if length r \<noteq> ResourceRandomHashSize then Inl BadRandomHash else hashmap_loop C r [] [] parts)"

section \<open>Requests\<close>

record ResourceRequest =
  Exhausted :: bool
  LastMapHash :: bytes
  ResourceHash_q :: bytes
  RequestedMap :: "bytes list"

definition BuildResourceReq :: "ResourceRequest \<Rightarrow> resource_error + bytes" where
  "BuildResourceReq req =
     (if length (ResourceHash_q req) \<noteq> 32 then Inl (BadBody (length (ResourceHash_q req)))
      else if Exhausted req \<and> length (LastMapHash req) \<noteq> ResourceMapHashLen then Inl (BadBody (length (LastMapHash req)))
      else if list_ex (\<lambda>mh. length mh \<noteq> ResourceMapHashLen) (RequestedMap req) then Inl BadField
      else Inr ((if Exhausted req then HashmapExhausted # LastMapHash req else [HashmapNotExhausted])
                  @ ResourceHash_q req @ concat (RequestedMap req)))"

function chunks :: "nat \<Rightarrow> 'a list \<Rightarrow> 'a list list" where
  "chunks n xs = (if xs = [] \<or> n = 0 then [] else take n xs # chunks n (drop n xs))"
  by pat_completeness auto
termination by (relation "measure (\<lambda>(n, xs). length xs)") auto

declare chunks.simps [simp del]

definition req_tail :: "bool \<Rightarrow> bytes \<Rightarrow> bytes \<Rightarrow> resource_error + ResourceRequest" where
  "req_tail exhausted lastMapHash rest =
     (let tail = drop 32 rest
      in if length tail mod ResourceMapHashLen \<noteq> 0 then Inl (BadBody (length tail))
         else Inr \<lparr>Exhausted = exhausted, LastMapHash = lastMapHash, ResourceHash_q = take 32 rest,
                   RequestedMap = chunks ResourceMapHashLen tail\<rparr>)"

definition ParseResourceReq :: "bytes \<Rightarrow> resource_error + ResourceRequest" where
  "ParseResourceReq body =
     (if length body < 1 + 32 then Inl (BadBody (length body))
      else if body ! 0 = HashmapExhausted then
        (if length body < 1 + ResourceMapHashLen + 32 then Inl (BadBody (length body))
         else req_tail True (take ResourceMapHashLen (drop 1 body)) (drop (1 + ResourceMapHashLen) body))
      else if body ! 0 = HashmapNotExhausted then req_tail False [] (drop 1 body)
      else Inl (BadFlag (body ! 0)))"

section \<open>Hashmap updates, proofs and cancellations\<close>

datatype mval = MInt int | MBytes bytes | MOther

record ResourceHmu =
  ResourceHash_h :: bytes
  SegmentIndex :: int
  HashmapBytes :: bytes

record ResourceProof =
  ResourceHash_p :: bytes
  FullProof :: bytes

text \<open>An absent \<open>RequestID\<close> (nil) is \<open>None\<close>.\<close>

record ResourceAdvertisement =
  TransferSize :: int
  DataSize :: int
  NumParts :: int
  Hash :: bytes
  RandomHash_r :: bytes
  OriginalHash :: bytes
  SegmentIndex_i :: int
  TotalSegments :: int
  RequestID :: "bytes option"
  Flags :: int
  Hashmap :: bytes

text \<open>The msgpack calls of the resource code.\<close>

record Resource_Msgpack =
  marshal_adv :: "ResourceAdvertisement \<Rightarrow> bytes option"
  unmarshal_adv :: "bytes \<Rightarrow> ResourceAdvertisement option"
  marshal_pair :: "int \<Rightarrow> bytes \<Rightarrow> bytes option"
  unmarshal_list :: "bytes \<Rightarrow> mval list option"

definition BuildResourceHmu :: "Resource_Msgpack \<Rightarrow> ResourceHmu \<Rightarrow> resource_error + bytes" where
  "BuildResourceHmu M h =
     (if length (ResourceHash_h h) \<noteq> 32 then Inl (BadBody (length (ResourceHash_h h)))
      else if SegmentIndex h < 1 then Inl BadField
      else if HashmapBytes h = [] \<or> length (HashmapBytes h) mod ResourceMapHashLen \<noteq> 0 then Inl (BadBody (length (HashmapBytes h)))
      else case marshal_pair M (SegmentIndex h) (HashmapBytes h) of None \<Rightarrow> Inl BadMsgpack
           | Some tail \<Rightarrow> Inr (ResourceHash_h h @ tail))"

definition ParseResourceHmu :: "Resource_Msgpack \<Rightarrow> bytes \<Rightarrow> resource_error + ResourceHmu" where
  "ParseResourceHmu M body =
     (if length body < 32 then Inl (BadBody (length body))
      else case unmarshal_list M (drop 32 body) of
             Some [MInt seg, MBytes hm] \<Rightarrow>
               (if seg < 1 then Inl BadField
                else if hm = [] \<or> length hm mod ResourceMapHashLen \<noteq> 0 then Inl (BadBody (length hm))
                else Inr \<lparr>ResourceHash_h = take 32 body, SegmentIndex = seg, HashmapBytes = hm\<rparr>)
           | Some _ \<Rightarrow> Inl BadField
           | None \<Rightarrow> Inl BadMsgpack)"

definition BuildResourceProof :: "ResourceProof \<Rightarrow> resource_error + bytes" where
  "BuildResourceProof p =
     (if length (ResourceHash_p p) \<noteq> 32 \<or> length (FullProof p) \<noteq> 32 then Inl BadField
      else Inr (ResourceHash_p p @ FullProof p))"

definition ParseResourceProof :: "bytes \<Rightarrow> resource_error + ResourceProof" where
  "ParseResourceProof body =
     (if length body \<noteq> 64 then Inl (BadBody (length body))
      else Inr \<lparr>ResourceHash_p = take 32 body, FullProof = drop 32 body\<rparr>)"

definition BuildResourceCancel :: "bytes \<Rightarrow> resource_error + bytes" where
  "BuildResourceCancel resourceHash =
     (if length resourceHash \<noteq> 32 then Inl (BadBody (length resourceHash)) else Inr resourceHash)"

definition ParseResourceCancel :: "bytes \<Rightarrow> resource_error + bytes" where
  "ParseResourceCancel body = (if length body \<noteq> 32 then Inl (BadBody (length body)) else Inr body)"

fun xor_diff :: "bytes \<Rightarrow> bytes \<Rightarrow> byte \<Rightarrow> byte" where
  "xor_diff (a # as) (b # bs) d = xor_diff as bs (d OR (a XOR b))"
| "xor_diff _ _ d = d"

definition proofEqualsConstantTime :: "bytes \<Rightarrow> bytes \<Rightarrow> bool" where
  "proofEqualsConstantTime a b = (if length a \<noteq> length b then False else xor_diff a b 0 = 0)"

section \<open>Advertisements\<close>

definition HasFlag :: "ResourceAdvertisement \<Rightarrow> int \<Rightarrow> bool" where
  "HasFlag a b \<longleftrightarrow> Flags a AND b \<noteq> 0"

definition PackResourceAdv :: "Resource_Msgpack \<Rightarrow> ResourceAdvertisement \<Rightarrow> resource_error + bytes" where
  "PackResourceAdv M adv =
     (if length (Hash adv) \<noteq> 32 \<or> length (RandomHash_r adv) \<noteq> ResourceRandomHashSize \<or> length (OriginalHash adv) \<noteq> 32
         \<or> NumParts adv \<le> 0 \<or> int (length (Hashmap adv)) \<noteq> wrap64 (NumParts adv * int ResourceMapHashLen)
         \<or> SegmentIndex_i adv \<le> 0 \<or> SegmentIndex_i adv > TotalSegments adv
      then Inl BadField
      else
        (let seg0Parts = min (nat (NumParts adv)) HashmapMaxLen
         in case marshal_adv M (adv\<lparr>Hashmap := take (seg0Parts * ResourceMapHashLen) (Hashmap adv)\<rparr>) of
              None \<Rightarrow> Inl BadMsgpack | Some b \<Rightarrow> Inr b))"

definition ParseResourceAdv :: "Resource_Msgpack \<Rightarrow> bytes \<Rightarrow> resource_error + ResourceAdvertisement" where
  "ParseResourceAdv M body =
     (case unmarshal_adv M body of None \<Rightarrow> Inl ErrResourceADVMalformed | Some adv \<Rightarrow>
        (let expectedHashmapBytes = wrap64 (NumParts adv * int ResourceMapHashLen)
         in if length (Hash adv) \<noteq> 32 then Inl ErrResourceADVMalformed
            else if length (RandomHash_r adv) \<noteq> ResourceRandomHashSize then Inl ErrResourceADVMalformed
            else if length (OriginalHash adv) \<noteq> 32 then Inl ErrResourceADVMalformed
            else if NumParts adv \<le> 0 then Inl ErrResourceADVMalformed
            else if SegmentIndex_i adv \<le> 0 \<or> SegmentIndex_i adv > TotalSegments adv \<or> TotalSegments adv \<le> 0 then Inl ErrResourceADVMalformed
            else if TransferSize adv \<le> 0 \<or> DataSize adv \<le> 0 then Inl ErrResourceADVMalformed
            else if int (length (Hashmap adv)) \<noteq> expectedHashmapBytes \<and>
                    (Hashmap adv = [] \<or> int (length (Hashmap adv)) > expectedHashmapBytes \<or> length (Hashmap adv) mod ResourceMapHashLen \<noteq> 0)
                 then Inl ErrResourceADVMalformed
            else if (case RequestID adv of None \<Rightarrow> False | Some q \<Rightarrow> length q \<noteq> 16) then Inl ErrResourceADVMalformed
            else if TotalSegments adv > 1 then Inl ErrResourceTooLarge
            else if TransferSize adv > int MaxAcceptedResourceSize \<or> DataSize adv > int MaxAcceptedResourceSize then Inl ErrResourceTooLarge
            else if NumParts adv > int MaxAcceptedResourceParts then Inl ErrResourceTooManyParts
            else if Flags adv AND ResourceFlagCompressed \<noteq> 0 then Inl ErrResourceTooLarge
            else if Flags adv AND ResourceFlagHasMetadata \<noteq> 0 then Inl ErrResourceADVMalformed
            else Inr adv))"

section \<open>Parts\<close>

lemma SplitParts_Nil [simp]: "SplitParts [] = []"
  by (simp add: SplitParts.simps)

lemma SplitParts_step: "b \<noteq> [] \<Longrightarrow> SplitParts b = take 464 b # SplitParts (drop 464 b)"
  by (subst SplitParts.simps) simp

lemma concat_SplitParts [simp]: "concat (SplitParts b) = b"
  by (induction b rule: SplitParts.induct) (subst SplitParts.simps, simp)

lemma SplitParts_bounds: "p \<in> set (SplitParts b) \<Longrightarrow> p \<noteq> [] \<and> length p \<le> 464"
  by (induction b rule: SplitParts.induct) (subst (asm) SplitParts.simps, auto split: if_splits)

lemma length_SplitParts: "length (SplitParts b) = (length b + 463) div 464"
proof (induction b rule: SplitParts.induct)
  case (1 b)
  show ?case
  proof (cases "b = []")
    case False
    with 1 have IH: "length (SplitParts (drop 464 b)) = (length b - 464 + 463) div 464" by simp
    have "Suc ((n - 464 + 463) div 464) = (n + 463) div 464" if "0 < n" for n :: nat
      using that by (cases "n < 464") (simp_all add: div_if [of "n + 463"])
    with False IH show ?thesis by (simp add: SplitParts_step)
  qed simp
qed

lemma chunks_concat:
  assumes "0 < n" and "\<And>x. x \<in> set xss \<Longrightarrow> length x = n"
  shows "chunks n (concat xss) = xss"
  using assms(2)
proof (induction xss)
  case Nil
  then show ?case by (simp add: chunks.simps)
next
  case (Cons x xss)
  then have l: "length x = n" "x \<noteq> []" using assms(1) by auto
  then show ?case using Cons assms(1) by (subst chunks.simps) simp
qed

lemma concat_chunks: "0 < n \<Longrightarrow> concat (chunks n xs) = xs"
  by (induction n xs rule: chunks.induct) (subst chunks.simps, simp)

lemma chunks_lengths: "length xs mod n = 0 \<Longrightarrow> c \<in> set (chunks n xs) \<Longrightarrow> length c = n"
proof (induction n xs rule: chunks.induct)
  case (1 n xs)
  show ?case
  proof (cases "xs = [] \<or> n = 0")
    case True
    then show ?thesis using 1(3) by (subst (asm) chunks.simps) simp
  next
    case False
    then have n: "n \<le> length xs" using 1(2) by (metis length_greater_0_conv mod_less not_less_iff_gr_or_eq linorder_not_le)
    then have "length (drop n xs) mod n = 0" using 1(2) by (simp add: le_mod_geq)
    then show ?thesis using False n 1(1) 1(3) by (subst (asm) chunks.simps) auto
  qed
qed

section \<open>The hashmap\<close>

lemma hashmap_loop_Inr:
  "hashmap_loop C r guard out ps = Inr hm \<Longrightarrow> length guard \<le> 224 \<Longrightarrow>
     hm = out @ concat (map (\<lambda>p. ResourceMapHash C p r) ps)
   \<and> (\<forall>i j. i < j \<longrightarrow> length guard \<le> j \<longrightarrow> j < length guard + length ps \<longrightarrow> j - i \<le> 224 \<longrightarrow>
        (guard @ map (\<lambda>p. ResourceMapHash C p r) ps) ! i \<noteq> (guard @ map (\<lambda>p. ResourceMapHash C p r) ps) ! j)"
proof (induction ps arbitrary: guard out)
  case Nil
  then show ?case by simp
next
  case (Cons p ps)
  let ?f = "\<lambda>p. ResourceMapHash C p r"
  let ?g = "guard @ [?f p]"
  let ?g' = "if length ?g > 224 then tl ?g else ?g"
  have new: "?f p \<notin> set guard" and loop: "hashmap_loop C r ?g' (out @ ?f p) ps = Inr hm"
    using Cons.prems(1) by (auto simp: list_ex_iff Let_def split: if_splits)
  have len: "length ?g' \<le> 224" using Cons.prems(2) by simp
  note IH = Cons.IH [OF loop len]
  have "(guard @ map ?f (p # ps)) ! i \<noteq> (guard @ map ?f (p # ps)) ! j"
    if ij: "i < j" "length guard \<le> j" "j < length guard + length (p # ps)" "j - i \<le> 224" for i j
  proof (cases "j = length guard")
    case True
    with ij(1) new show ?thesis by (auto simp: nth_append dest: nth_mem)
  next
    case False
    have e: "guard @ map ?f (p # ps) = ?g @ map ?f ps" by simp
    show ?thesis
    proof (cases "length ?g > 224")
      case True
      then have i: "0 < i" and g: "length (tl ?g) = 224" using ij False Cons.prems(2) by auto
      have sh: "(?g @ map ?f ps) ! k = (tl ?g @ map ?f ps) ! (k - 1)" if "0 < k" for k
        using that by (cases guard) (auto simp: nth_Cons')
      have "(tl ?g @ map ?f ps) ! (i - 1) \<noteq> (tl ?g @ map ?f ps) ! (j - 1)"
        using IH [THEN conjunct2, rule_format, of "i - 1" "j - 1"] True i g ij False by auto
      then show ?thesis unfolding e using sh [of i] sh [of j] i ij(1) by simp
    next
      case False2: False
      then show ?thesis unfolding e using IH [THEN conjunct2, rule_format, of i j] ij False by auto
    qed
  qed
  then show ?case using IH by (auto simp del: append_Cons)
qed

lemma length_ResourceMapHash [simp]: "digests_ok C \<Longrightarrow> length (ResourceMapHash C p r) = 4"
  by (simp add: ResourceMapHash_def length_sha256)

text \<open>A hashmap that was built is the concatenation of the parts' hashes, and no two parts at most 224 apart share one.\<close>

lemma BuildHashmap_Inr:
  assumes "BuildHashmap C parts r = Inr hm"
  shows "hm = concat (map (\<lambda>p. ResourceMapHash C p r) parts)" "length r = 4"
    and "i < j \<Longrightarrow> j < length parts \<Longrightarrow> j - i \<le> 224 \<Longrightarrow> ResourceMapHash C (parts ! i) r \<noteq> ResourceMapHash C (parts ! j) r"
  using assms hashmap_loop_Inr [of C r "[]" "[]" parts hm] by (auto simp: BuildHashmap_def split: if_splits)

section \<open>Wire codecs\<close>

definition req_ok :: "ResourceRequest \<Rightarrow> bool" where
  "req_ok q \<longleftrightarrow> length (ResourceHash_q q) = 32 \<and> (if Exhausted q then length (LastMapHash q) = 4 else LastMapHash q = [])
     \<and> (\<forall>mh \<in> set (RequestedMap q). length mh = 4)"

lemma length_concat4: "(\<And>x. x \<in> set xss \<Longrightarrow> length x = 4) \<Longrightarrow> length (concat xss) mod 4 = 0"
  by (induction xss) auto

lemma req_tail_eq:
  assumes "length h = 32" and "\<And>x. x \<in> set xss \<Longrightarrow> length x = 4"
  shows "req_tail b l (h @ concat xss) = Inr \<lparr>Exhausted = b, LastMapHash = l, ResourceHash_q = h, RequestedMap = xss\<rparr>"
  using assms length_concat4 [of xss] chunks_concat [of 4 xss] by (simp add: req_tail_def)

lemma req_tail_Inr:
  "req_tail b l rest = Inr q \<Longrightarrow> 32 \<le> length rest \<Longrightarrow>
     Exhausted q = b \<and> LastMapHash q = l \<and> length (ResourceHash_q q) = 32 \<and> (\<forall>mh \<in> set (RequestedMap q). length mh = 4)
     \<and> rest = ResourceHash_q q @ concat (RequestedMap q)"
proof -
  assume t: "req_tail b l rest = Inr q" and len: "32 \<le> length rest"
  have m: "length (drop 32 rest) mod 4 = 0" and q: "q = \<lparr>Exhausted = b, LastMapHash = l, ResourceHash_q = take 32 rest, RequestedMap = chunks 4 (drop 32 rest)\<rparr>"
    using t by (simp_all add: req_tail_def Let_def split: if_splits)
  have "\<forall>mh \<in> set (RequestedMap q). length mh = 4" using chunks_lengths [OF m] by (simp add: q)
  moreover have "rest = ResourceHash_q q @ concat (RequestedMap q)" by (simp add: q concat_chunks)
  moreover have "Exhausted q = b" "LastMapHash q = l" "length (ResourceHash_q q) = 32" using len by (simp_all add: q)
  ultimately show ?thesis by blast
qed

lemma BuildResourceReq_ok:
  "req_ok q \<Longrightarrow> BuildResourceReq q =
     Inr ((if Exhausted q then HashmapExhausted # LastMapHash q else [HashmapNotExhausted]) @ ResourceHash_q q @ concat (RequestedMap q))"
  by (auto simp: BuildResourceReq_def req_ok_def list_ex_iff)

interpretation request: wire_codec BuildResourceReq ParseResourceReq req_ok
proof
  fix q
  assume ok: "req_ok q"
  let ?raw = "(if Exhausted q then HashmapExhausted # LastMapHash q else [HashmapNotExhausted]) @ ResourceHash_q q @ concat (RequestedMap q)"
  have b: "BuildResourceReq q = Inr ?raw" using ok by (rule BuildResourceReq_ok)
  have "ParseResourceReq ?raw = Inr q"
    using ok req_tail_eq [of "ResourceHash_q q" "RequestedMap q"] by (cases q) (auto simp: ParseResourceReq_def req_ok_def)
  with b show "\<exists>raw. BuildResourceReq q = Inr raw \<and> ParseResourceReq raw = Inr q" by blast
next
  fix raw q
  assume p: "ParseResourceReq raw = Inr q"
  then have len: "33 \<le> length raw" and f: "raw ! 0 = 255 \<and> 37 \<le> length raw \<or> raw ! 0 = 0"
    by (auto simp: ParseResourceReq_def split: if_splits)
  have raw: "raw = raw ! 0 # drop 1 raw" using len by (cases raw) auto
  show "req_ok q \<and> BuildResourceReq q = Inr raw"
  proof (cases "raw ! 0 = 255")
    case True
    with p f have t: "req_tail True (take 4 (drop 1 raw)) (drop 5 raw) = Inr q" by (auto simp: ParseResourceReq_def split: if_splits)
    have "32 \<le> length (drop 5 raw)" "length (take 4 (drop 1 raw)) = 4" using f True by auto
    note r = req_tail_Inr [OF t this(1)] and l = this(2)
    have "drop 1 raw = take 4 (drop 1 raw) @ drop 5 raw" using append_take_drop_id [of 4 "drop 1 raw"] by simp
    with raw True have e: "raw = 255 # take 4 (drop 1 raw) @ drop 5 raw" by metis
    have q: "req_ok q" using r l by (simp add: req_ok_def)
    have "255 # LastMapHash q @ ResourceHash_q q @ concat (RequestedMap q) = raw" using r e by metis
    with q r show ?thesis by (simp add: BuildResourceReq_ok)
  next
    case False
    with p f have t: "req_tail False [] (drop 1 raw) = Inr q" by (auto simp: ParseResourceReq_def split: if_splits)
    have "32 \<le> length (drop 1 raw)" using len by simp
    note r = req_tail_Inr [OF t this]
    have q: "req_ok q" using r by (simp add: req_ok_def)
    have "0 # ResourceHash_q q @ concat (RequestedMap q) = raw" using r raw f False by metis
    with q r show ?thesis by (simp add: BuildResourceReq_ok)
  qed
qed

definition prf_ok :: "ResourceProof \<Rightarrow> bool" where
  "prf_ok p \<longleftrightarrow> length (ResourceHash_p p) = 32 \<and> length (FullProof p) = 32"

interpretation proof_body: wire_codec BuildResourceProof ParseResourceProof prf_ok
  by unfold_locales (auto simp: BuildResourceProof_def ParseResourceProof_def prf_ok_def split: if_splits)

interpretation cancellation: wire_codec BuildResourceCancel ParseResourceCancel "\<lambda>h. length h = 32"
  by unfold_locales (auto simp: BuildResourceCancel_def ParseResourceCancel_def split: if_splits)

lemma xor_diff_0: "length a = length b \<Longrightarrow> xor_diff a b d = 0 \<longleftrightarrow> d = 0 \<and> a = b"
proof (induction a b d rule: xor_diff.induct)
  case (1 a as b bs d)
  have "a XOR b = 0 \<longleftrightarrow> a = b" by (metis xor.left_neutral xor.assoc xor_self_eq)
  then have "d OR (a XOR b) = 0 \<longleftrightarrow> d = 0 \<and> a = b" by (simp add: or_eq_0_iff)
  with 1 show ?case by auto
qed auto

lemma proofEqualsConstantTime_iff [simp]: "proofEqualsConstantTime a b \<longleftrightarrow> a = b"
  using xor_diff_0 [of a b 0] by (auto simp: proofEqualsConstantTime_def)

section \<open>What an accepted advertisement guarantees\<close>

lemma ParseResourceAdv_Inr:
  assumes "ParseResourceAdv M body = Inr adv"
  shows "unmarshal_adv M body = Some adv" "length (Hash adv) = 32" "length (RandomHash_r adv) = 4" "0 < NumParts adv" "NumParts adv \<le> 2281"
    "0 < TransferSize adv" "TransferSize adv \<le> 1056767" "0 < DataSize adv" "DataSize adv \<le> 1056767"
    "SegmentIndex_i adv = 1" "TotalSegments adv = 1" "Flags adv AND 2 = 0" "Flags adv AND 32 = 0"
    "Hashmap adv \<noteq> []" "length (Hashmap adv) mod 4 = 0" "length (Hashmap adv) \<le> 4 * nat (NumParts adv)"
proof -
  have a: "unmarshal_adv M body = Some adv \<and> length (Hash adv) = 32 \<and> length (RandomHash_r adv) = 4 \<and> 0 < NumParts adv \<and> NumParts adv \<le> 2281
    \<and> 0 < TransferSize adv \<and> TransferSize adv \<le> 1056767 \<and> 0 < DataSize adv \<and> DataSize adv \<le> 1056767
    \<and> SegmentIndex_i adv = 1 \<and> TotalSegments adv = 1 \<and> Flags adv AND 2 = 0 \<and> Flags adv AND 32 = 0"
    using assms by (auto simp: ParseResourceAdv_def Let_def split: option.splits if_splits)
  have h: "int (length (Hashmap adv)) \<noteq> wrap64 (NumParts adv * 4) \<longrightarrow>
      Hashmap adv \<noteq> [] \<and> int (length (Hashmap adv)) \<le> wrap64 (NumParts adv * 4) \<and> length (Hashmap adv) mod 4 = 0"
    using assms by (auto simp: ParseResourceAdv_def Let_def split: option.splits if_splits)
  have w: "wrap64 (NumParts adv * 4) = NumParts adv * 4" using a by (intro wrap64_id) auto
  have "Hashmap adv \<noteq> [] \<and> length (Hashmap adv) mod 4 = 0 \<and> length (Hashmap adv) \<le> 4 * nat (NumParts adv)"
  proof (cases "int (length (Hashmap adv)) = NumParts adv * 4")
    case True
    then have "length (Hashmap adv) = 4 * nat (NumParts adv)" using a by linarith
    then show ?thesis using a by auto
  next
    case False
    then show ?thesis using h w a by auto
  qed
  with a show "unmarshal_adv M body = Some adv" "length (Hash adv) = 32" "length (RandomHash_r adv) = 4" "0 < NumParts adv" "NumParts adv \<le> 2281"
    "0 < TransferSize adv" "TransferSize adv \<le> 1056767" "0 < DataSize adv" "DataSize adv \<le> 1056767"
    "SegmentIndex_i adv = 1" "TotalSegments adv = 1" "Flags adv AND 2 = 0" "Flags adv AND 32 = 0"
    "Hashmap adv \<noteq> []" "length (Hashmap adv) mod 4 = 0" "length (Hashmap adv) \<le> 4 * nat (NumParts adv)"
    by blast+
qed

text \<open>C22. No advertisement makes a receiver allocate more than it planned for: whatever bytes arrive, an accepted advertisement announces one
  segment, uncompressed and without metadata, of between 1 and 2281 parts and at most 1056767 bytes, with a 32-byte hash, a
  4-byte salt, and a hashmap of whole 4-byte entries, at least one and at most one per part. The count that is multiplied
  by four wraps around at 64 bits in the code; the later cap makes that harmless.\<close>

theorem advertisement_bounded:
  assumes "ParseResourceAdv M body = Inr adv"
  shows "1 \<le> NumParts adv \<and> NumParts adv \<le> 2281 \<and> 1 \<le> TransferSize adv \<and> TransferSize adv \<le> 1056767
     \<and> 1 \<le> DataSize adv \<and> DataSize adv \<le> 1056767 \<and> TotalSegments adv = 1 \<and> \<not> HasFlag adv 2 \<and> \<not> HasFlag adv 32
     \<and> length (Hash adv) = 32 \<and> length (RandomHash_r adv) = 4
     \<and> (\<exists>k. length (Hashmap adv) = 4 * k \<and> 1 \<le> k \<and> k \<le> nat (NumParts adv))"
proof -
  note a = ParseResourceAdv_Inr [OF assms]
  obtain k where k: "length (Hashmap adv) = 4 * k" using a(15) by (metis mod_0_imp_dvd dvdE)
  moreover have "1 \<le> k" using k a(14) by (cases k) auto
  ultimately show ?thesis using a by (auto simp: HasFlag_def)
qed

definition demo_adv :: ResourceAdvertisement where
  "demo_adv = \<lparr>TransferSize = 500, DataSize = 440, NumParts = 2, Hash = replicate 32 1, RandomHash_r = [1, 2, 3, 4], OriginalHash = replicate 32 1,
     SegmentIndex_i = 1, TotalSegments = 1, RequestID = None, Flags = 1, Hashmap = replicate 8 7\<rparr>"

definition demo_msgpack :: Resource_Msgpack where
  "demo_msgpack = \<lparr>marshal_adv = (\<lambda>a. Some (Hashmap a)), unmarshal_adv = (\<lambda>b. Some demo_adv),
     marshal_pair = (\<lambda>i b. Some (word_of_int i # b)), unmarshal_list = (\<lambda>b. case b of [] \<Rightarrow> None | x # xs \<Rightarrow> Some [MInt (uint x), MBytes xs])\<rparr>"

theorem advertisement_bounded_witness:
  "ParseResourceAdv demo_msgpack [9] = Inr demo_adv \<and> 1 \<le> NumParts demo_adv \<and> NumParts demo_adv \<le> 2281"
proof -
  have "ParseResourceAdv demo_msgpack [9] = Inr demo_adv"
    by (simp add: ParseResourceAdv_def demo_msgpack_def demo_adv_def Let_def wrap64_def)
  with advertisement_bounded [OF this] show ?thesis by blast
qed

end
