(* ===== verification/Resource_Transfer.thy ===== *)
theory Resource_Transfer
  imports Resource Link_State
begin

text \<open>
  Resource transfers, \<open>internal/rns/resource_sender.go\<close> and \<open>resource_receiver.go\<close>. The goroutine of each end is a step function: its state
  holds the fields of the struct and the local variables of \<open>Run\<close>, an event is what its \<open>select\<close> takes (a message from one of its channels, a
  timer, the end of its context), and a step returns the packets it broadcasts and whether \<open>Run\<close> returns. \<open>bc\<close> tells whether
  a broadcast succeeds.
\<close>

section \<open>The sender\<close>

record ResourceSender =
  linkID_s :: bytes
  resourceHash :: bytes
  randomR :: bytes
  bodyPrefix :: bytes
  expectedProof :: bytes
  originalLen :: nat
  transferLen :: nat
  parts :: "bytes list"
  hashmap :: bytes
  advBody :: bytes
  linkSigning :: bytes
  linkEncryption :: bytes
  state :: ResourceState
  gotFirstReq :: bool
  advRetries :: nat
  deliveredParts :: nat

definition map_slot :: "bytes \<Rightarrow> nat \<Rightarrow> bytes" where
  "map_slot hm i = take ResourceMapHashLen (drop (i * ResourceMapHashLen) hm)"

definition buildResourceCtxPacket :: "bytes \<Rightarrow> bytes \<Rightarrow> byte \<Rightarrow> bool \<Rightarrow> resource_error + Packet" where
  "buildResourceCtxPacket linkID body ctx isProof =
     (if length linkID \<noteq> IdentityHashLen then Inl BadField
      else Inr (link_packet linkID (if isProof then PacketProof else PacketData) ctx body))"

text \<open>The salts tried in turn; \<open>None\<close> is a failure of the random source.\<close>

fun pick_salt :: "Primitives \<Rightarrow> bytes list \<Rightarrow> bytes option list \<Rightarrow> resource_error + bytes \<times> bytes" where
  "pick_salt C ps [] = Inl ErrResourceCollisionGuard"
| "pick_salt C ps (None # cs) = Inl BadRandomHash"
| "pick_salt C ps (Some r # cs) =
     (case BuildHashmap C ps r of
        Inr hm \<Rightarrow> Inr (r, hm)
      | Inl ErrResourceCollisionGuard \<Rightarrow> pick_salt C ps cs
      | Inl e \<Rightarrow> Inl e)"

definition NewResourceSender ::
  "Primitives \<Rightarrow> Resource_Msgpack \<Rightarrow> bytes option \<Rightarrow> bytes option \<Rightarrow> bytes option list \<Rightarrow> Link \<Rightarrow> bytes \<Rightarrow> resource_error + ResourceSender" where
  "NewResourceSender C M prefixRnd ivRnd saltRnds link body =
     (if body = [] then Inl (BadBody 0)
      else if State link \<noteq> LinkActive then Inl LinkNotActive
      else case prefixRnd of None \<Rightarrow> Inl BadRandomHash | Some prefix \<Rightarrow>
        case LinkTokenEncrypt C ivRnd (prefix @ body) (Signing link) (Encryption link) of Inl e \<Rightarrow> Inl (SealFailed e) | Inr wireBlob \<Rightarrow>
          (let ps = SplitParts wireBlob
           in if ps = [] then Inl (BadBody 0)
              else if length ps > MaxAcceptedResourceParts then Inl ErrResourceTooManyParts
              else case pick_salt C ps (take 4 saltRnds) of Inl e \<Rightarrow> Inl e | Inr (r, hm) \<Rightarrow>
                (let h = ResourceHash C body r
                 in case PackResourceAdv M \<lparr>TransferSize = int (length wireBlob), DataSize = int (length body), NumParts = int (length ps), Hash = h,
                          RandomHash_r = r, OriginalHash = h, SegmentIndex_i = 1, TotalSegments = 1, RequestID = None,
                          Flags = ResourceFlagEncrypted, Hashmap = hm\<rparr> of Inl e \<Rightarrow> Inl e
                    | Inr adv \<Rightarrow>
                        Inr \<lparr>linkID_s = ID link, resourceHash = h, randomR = r, bodyPrefix = prefix, expectedProof = ResourceExpectedProof C body h,
                             originalLen = length body, transferLen = length wireBlob, parts = ps, hashmap = hm, advBody = adv,
                             linkSigning = Signing link, linkEncryption = Encryption link, state = ResourceStateQueued,
                             gotFirstReq = False, advRetries = 0, deliveredParts = 0\<rparr>)))"

text \<open>The packets sent and the error.\<close>

definition broadcastAdv :: "Primitives \<Rightarrow> (Packet \<Rightarrow> bool) \<Rightarrow> bytes option \<Rightarrow> ResourceSender \<Rightarrow> Packet list \<times> resource_error option" where
  "broadcastAdv C bc ivRnd rs =
     (case LinkTokenEncrypt C ivRnd (advBody rs) (linkSigning rs) (linkEncryption rs) of Inl e \<Rightarrow> ([], Some (SealFailed e)) | Inr ciphertext \<Rightarrow>
      case buildResourceCtxPacket (linkID_s rs) ciphertext ContextResourceADV False of Inl e \<Rightarrow> ([], Some e)
      | Inr pkt \<Rightarrow> if bc pkt then ([pkt], None) else ([], Some SendFailed))"

definition findPartByMapHash :: "ResourceSender \<Rightarrow> bytes \<Rightarrow> nat option" where
  "findPartByMapHash rs mh = find (\<lambda>i. bytesEqual (map_slot (hashmap rs) i) mh) [0..<length (parts rs)]"

fun fulfill_loop :: "(Packet \<Rightarrow> bool) \<Rightarrow> ResourceSender \<Rightarrow> bytes list \<Rightarrow> nat \<times> Packet list \<times> resource_error option" where
  "fulfill_loop bc rs [] = (0, [], None)"
| "fulfill_loop bc rs (mh # ms) =
     (case findPartByMapHash rs mh of
        None \<Rightarrow> fulfill_loop bc rs ms
      | Some idx \<Rightarrow>
          (case buildResourceCtxPacket (linkID_s rs) (parts rs ! idx) ContextResource False of
             Inl e \<Rightarrow> (0, [], Some e)
           | Inr pkt \<Rightarrow>
               if \<not> bc pkt then (0, [], Some SendFailed)
               else (case fulfill_loop bc rs ms of (n, pkts, err) \<Rightarrow> (Suc n, pkt # pkts, err))))"

definition fulfillRequest :: "(Packet \<Rightarrow> bool) \<Rightarrow> ResourceSender \<Rightarrow> ResourceRequest \<Rightarrow> nat \<times> Packet list \<times> resource_error option" where
  "fulfillRequest bc rs req =
     (if \<not> bytesEqual (ResourceHash_q req) (resourceHash rs) then (0, [], Some WrongResource)
      else fulfill_loop bc rs (RequestedMap req))"

definition hmu_for :: "ResourceSender \<Rightarrow> ResourceRequest \<Rightarrow> resource_error + ResourceHmu" where
  "hmu_for rs req =
     (if length (LastMapHash req) \<noteq> ResourceMapHashLen then Inl BadField
      else case findPartByMapHash rs (LastMapHash req) of None \<Rightarrow> Inl UnknownMapHash | Some k \<Rightarrow>
        (let partIndex = k + 1
         in if partIndex mod HashmapMaxLen \<noteq> 0 then Inl SequencingError
            else
              (let segment = partIndex div HashmapMaxLen;
                   start = segment * HashmapMaxLen;
                   stop = min (start + HashmapMaxLen) (length (parts rs))
               in if start \<ge> stop then Inl SequencingError
                  else Inr \<lparr>ResourceHash_h = resourceHash rs, SegmentIndex = int segment,
                            HashmapBytes = take (stop * ResourceMapHashLen - start * ResourceMapHashLen) (drop (start * ResourceMapHashLen) (hashmap rs))\<rparr>)))"

definition serveHmu ::
  "Primitives \<Rightarrow> Resource_Msgpack \<Rightarrow> (Packet \<Rightarrow> bool) \<Rightarrow> bytes option \<Rightarrow> ResourceSender \<Rightarrow> ResourceRequest \<Rightarrow> Packet list \<times> resource_error option" where
  "serveHmu C M bc ivRnd rs req =
     (case hmu_for rs req of Inl e \<Rightarrow> ([], Some e) | Inr h \<Rightarrow>
      case BuildResourceHmu M h of Inl e \<Rightarrow> ([], Some e) | Inr hmuBody \<Rightarrow>
      case LinkTokenEncrypt C ivRnd hmuBody (linkSigning rs) (linkEncryption rs) of Inl e \<Rightarrow> ([], Some (SealFailed e)) | Inr ciphertext \<Rightarrow>
      case buildResourceCtxPacket (linkID_s rs) ciphertext ContextResourceHMU False of Inl e \<Rightarrow> ([], Some e)
      | Inr pkt \<Rightarrow> if bc pkt then ([pkt], None) else ([], Some SendFailed))"

text \<open>\<open>Returned None\<close> is a nil error.\<close>

datatype run_state = Running | Returned "resource_error option"

datatype sender_event = SContextDone resource_error | SCancel | SAdvTimer | SRequest ResourceRequest | SProof ResourceProof

definition fail :: "resource_error \<Rightarrow> ResourceSender \<Rightarrow> ResourceSender \<times> run_state" where
  "fail e rs = (rs\<lparr>state := ResourceStateFailed\<rparr>, Returned (Some e))"

definition sender_start :: "Primitives \<Rightarrow> (Packet \<Rightarrow> bool) \<Rightarrow> bytes option \<Rightarrow> ResourceSender \<Rightarrow> ResourceSender \<times> Packet list \<times> run_state" where
  "sender_start C bc ivRnd rs =
     (case broadcastAdv C bc ivRnd rs of
        (pkts, Some e) \<Rightarrow> (let (rs', r) = fail e rs in (rs', pkts, r))
      | (pkts, None) \<Rightarrow> (rs\<lparr>state := ResourceStateAdvertised\<rparr>, pkts, Running))"

definition sender_step ::
  "Primitives \<Rightarrow> Resource_Msgpack \<Rightarrow> (Packet \<Rightarrow> bool) \<Rightarrow> bytes option \<Rightarrow> sender_event \<Rightarrow> ResourceSender
     \<Rightarrow> ResourceSender \<times> Packet list \<times> run_state" where
  "sender_step C M bc ivRnd ev rs =
     (case ev of
        SContextDone e \<Rightarrow> (let (rs', r) = fail e rs in (rs', [], r))
      | SCancel \<Rightarrow> (let (rs', r) = fail ErrResourceCancelled rs in (rs', [], r))
      | SAdvTimer \<Rightarrow>
          (if gotFirstReq rs then (rs, [], Running)
           else
             (let rs1 = rs\<lparr>advRetries := Suc (advRetries rs)\<rparr>
              in if advRetries rs1 > MaxAdvRetries then (let (rs', r) = fail ErrResourceTimeout rs1 in (rs', [], r))
                 else case broadcastAdv C bc ivRnd rs1 of
                        (pkts, Some e) \<Rightarrow> (let (rs', r) = fail e rs1 in (rs', pkts, r))
                      | (pkts, None) \<Rightarrow> (rs1, pkts, Running)))
      | SRequest req \<Rightarrow>
          (let rs1 = (if gotFirstReq rs then rs else rs\<lparr>gotFirstReq := True, state := ResourceStateTransferring\<rparr>)
           in case fulfillRequest bc rs1 req of
                (n, pkts, Some e) \<Rightarrow> (let (rs', r) = fail e rs1 in (rs', pkts, r))
              | (n, pkts, None) \<Rightarrow>
                  (let rs2 = rs1\<lparr>deliveredParts := deliveredParts rs1 + n\<rparr>;
                       (hpkts, herr) = (if Exhausted req then serveHmu C M bc ivRnd rs2 req else ([], None))
                   in case herr of
                        Some e \<Rightarrow> (let (rs', r) = fail e rs2 in (rs', pkts @ hpkts, r))
                      | None \<Rightarrow>
                          ((if deliveredParts rs2 \<ge> length (parts rs2) then rs2\<lparr>state := ResourceStateAwaitingProof\<rparr> else rs2),
                           pkts @ hpkts, Running)))
      | SProof p \<Rightarrow>
          (if \<not> proofEqualsConstantTime (FullProof p) (expectedProof rs)
           then (let (rs', r) = fail ErrResourceProofMismatch rs in (rs', [], r))
           else (rs\<lparr>state := ResourceStateComplete\<rparr>, [], Returned None)))"

section \<open>The receiver\<close>

record ResourceReceiver =
  linkID_r :: bytes
  resourceHash_r :: bytes
  randomR_r :: bytes
  expectedSize :: int
  dataSize :: int
  flags_r :: int
  linkSigning_r :: bytes
  linkEncryption_r :: bytes
  hashmap_r :: bytes
  hashmapKnownPrefix :: nat
  parts_r :: "bytes list"
  receivedCount :: nat
  receivedFlags :: "bool list"
  pendingTarget :: nat
  consecutiveHeight :: int
  state_r :: ResourceState

definition new_receiver :: "Link \<Rightarrow> ResourceAdvertisement \<Rightarrow> ResourceReceiver" where
  "new_receiver link adv =
     (let n = nat (NumParts adv)
      in \<lparr>linkID_r = ID link, resourceHash_r = Hash adv, randomR_r = RandomHash_r adv, expectedSize = TransferSize adv, dataSize = DataSize adv,
          flags_r = Flags adv, linkSigning_r = Signing link, linkEncryption_r = Encryption link,
          hashmap_r = take (n * ResourceMapHashLen) (Hashmap adv) @ replicate (n * ResourceMapHashLen - length (Hashmap adv)) 0,
          hashmapKnownPrefix = min (length (Hashmap adv) div ResourceMapHashLen) n,
          parts_r = replicate n [], receivedCount = 0, receivedFlags = replicate n False, pendingTarget = 0,
          consecutiveHeight = -1, state_r = ResourceStateTransferring\<rparr>)"

text \<open>\<open>addr\<close> is the address of the new receiver.\<close>

definition openResourceReceiver :: "nat \<Rightarrow> Link \<Rightarrow> ResourceAdvertisement \<Rightarrow> LinkManager \<Rightarrow> LinkManager \<times> (resource_error + ResourceReceiver)" where
  "openResourceReceiver addr link adv lm =
     (if State link \<noteq> LinkActive then (lm, Inl LinkNotActive)
      else if countReceiversForLink (ID link) lm \<ge> MaxConcurrentInboundResourcesPerLink then (lm, Inl ErrResourceTooManyParts)
      else case registerResourceReceiver (ID link) (Hash adv) addr lm of
             (lm', Some e) \<Rightarrow> (lm', Inl DuplicatePart)
           | (lm', None) \<Rightarrow> (lm', Inr (new_receiver link adv)))"

definition resourceTransferTimeout :: "int \<Rightarrow> duration" where
  "resourceTransferTimeout transferSize = min (30 * second + (transferSize div 2048) * second) (20 * minute)"

fun advance :: "bool list \<Rightarrow> nat \<Rightarrow> nat \<Rightarrow> int" where
  "advance flgs h 0 = int h - 1"
| "advance flgs h (Suc k) = (if h < length flgs \<and> flgs ! h then advance flgs (Suc h) k else int h - 1)"

definition placePart :: "Primitives \<Rightarrow> bytes \<Rightarrow> ResourceReceiver \<Rightarrow> ResourceReceiver \<times> resource_error option" where
  "placePart C part rr =
     (let mh = ResourceMapHash C part (randomR_r rr);
          base = nat (consecutiveHeight rr);
          stop = min (base + CollisionGuardSize) (hashmapKnownPrefix rr);
          hits = filter (\<lambda>i. bytesEqual (map_slot (hashmap_r rr) i) mh) [base..<stop]
      in case find (\<lambda>i. \<not> receivedFlags rr ! i) hits of
           Some i \<Rightarrow>
             (let flgs = (receivedFlags rr)[i := True]
              in (rr\<lparr>parts_r := (parts_r rr)[i := part], receivedFlags := flgs, receivedCount := Suc (receivedCount rr),
                    consecutiveHeight := advance flgs (nat (consecutiveHeight rr + 1)) (length (parts_r rr))\<rparr>, None))
         | None \<Rightarrow> (rr, Some (if hits \<noteq> [] then DuplicatePart else NotInWindow)))"

definition windowComplete :: "ResourceReceiver \<Rightarrow> bool" where
  "windowComplete rr \<longleftrightarrow> receivedCount rr \<ge> pendingTarget rr"

definition applyHmu :: "ResourceHmu \<Rightarrow> ResourceReceiver \<Rightarrow> ResourceReceiver \<times> resource_error option" where
  "applyHmu h rr =
     (if \<not> bytesEqual (ResourceHash_h h) (resourceHash_r rr) then (rr, Some WrongResource)
      else if SegmentIndex h \<noteq> int (hashmapKnownPrefix rr div HashmapMaxLen) then (rr, Some SequencingError)
      else
        (let remaining = length (parts_r rr) - hashmapKnownPrefix rr;
             wantBytes = (if remaining < HashmapMaxLen then remaining * ResourceMapHashLen else HashmapMaxLen * ResourceMapHashLen)
         in if length (HashmapBytes h) > wantBytes then (rr, Some (BadBody (length (HashmapBytes h))))
            else
              (let off = hashmapKnownPrefix rr * ResourceMapHashLen
               in (rr\<lparr>hashmap_r := take off (hashmap_r rr) @ HashmapBytes h @ drop (off + length (HashmapBytes h)) (hashmap_r rr),
                     hashmapKnownPrefix := hashmapKnownPrefix rr + length (HashmapBytes h) div ResourceMapHashLen\<rparr>, None))))"

text \<open>The request for the next window, \<open>None\<close> when there is nothing to ask for.\<close>

definition next_request :: "ResourceReceiver \<Rightarrow> ResourceReceiver \<times> ResourceRequest option" where
  "next_request rr =
     (let scanLimit = hashmapKnownPrefix rr;
          missing = filter (\<lambda>i. \<not> receivedFlags rr ! i) [0..<scanLimit];
          requested = map (map_slot (hashmap_r rr)) (take WindowMaxSlow missing);
          exhausted = (missing = [] \<and> scanLimit < length (parts_r rr) \<and> scanLimit > 0);
          lastMapHash = (if exhausted then map_slot (hashmap_r rr) (scanLimit - 1) else []);
          rr' = rr\<lparr>pendingTarget := receivedCount rr + length requested\<rparr>
      in if requested = [] \<and> \<not> exhausted then (rr', None)
         else (rr', Some \<lparr>Exhausted = exhausted, LastMapHash = lastMapHash, ResourceHash_q = resourceHash_r rr, RequestedMap = requested\<rparr>))"

definition requestNextWindow ::
  "Primitives \<Rightarrow> (Packet \<Rightarrow> bool) \<Rightarrow> bytes option \<Rightarrow> ResourceReceiver \<Rightarrow> ResourceReceiver \<times> Packet list \<times> resource_error option" where
  "requestNextWindow C bc ivRnd rr =
     (case next_request rr of
        (rr', None) \<Rightarrow> (rr', [], None)
      | (rr', Some q) \<Rightarrow>
          (case BuildResourceReq q of Inl e \<Rightarrow> (rr', [], Some e) | Inr body \<Rightarrow>
           case LinkTokenEncrypt C ivRnd body (linkSigning_r rr) (linkEncryption_r rr) of Inl e \<Rightarrow> (rr', [], Some (SealFailed e)) | Inr ciphertext \<Rightarrow>
           case buildResourceCtxPacket (linkID_r rr) ciphertext ContextResourceREQ False of Inl e \<Rightarrow> (rr', [], Some e)
           | Inr pkt \<Rightarrow> if bc pkt then (rr', [pkt], None) else (rr', [], Some SendFailed)))"

definition assemble :: "Primitives \<Rightarrow> ResourceReceiver \<Rightarrow> resource_error + bytes" where
  "assemble C rr =
     (let stream = concat (parts_r rr)
      in if int (length stream) \<noteq> expectedSize rr then Inl ErrResourceHashMismatch
         else case LinkTokenDecrypt C stream (linkSigning_r rr) (linkEncryption_r rr) of Inl e \<Rightarrow> Inl (SealFailed e)
              | Inr plaintext \<Rightarrow>
                  if length plaintext < ResourceRandomHashSize then Inl (BadBody (length plaintext))
                  else
                    (let body = drop ResourceRandomHashSize plaintext
                     in if int (length body) \<noteq> dataSize rr then Inl ErrResourceHashMismatch
                        else if \<not> bytesEqual (ResourceHash C body (randomR_r rr)) (resourceHash_r rr) then Inl ErrResourceHashMismatch
                        else Inr body))"

definition broadcastProof :: "Primitives \<Rightarrow> (Packet \<Rightarrow> bool) \<Rightarrow> ResourceReceiver \<Rightarrow> Packet list \<times> resource_error option" where
  "broadcastProof C bc rr =
     (case LinkTokenDecrypt C (concat (parts_r rr)) (linkSigning_r rr) (linkEncryption_r rr) of Inl e \<Rightarrow> ([], Some (SealFailed e)) | Inr plaintext \<Rightarrow>
        (let body = drop ResourceRandomHashSize plaintext
         in case BuildResourceProof \<lparr>ResourceHash_p = resourceHash_r rr, FullProof = ResourceExpectedProof C body (resourceHash_r rr)\<rparr> of
              Inl e \<Rightarrow> ([], Some e)
            | Inr prfBody \<Rightarrow>
                (case buildResourceCtxPacket (linkID_r rr) prfBody ContextResourcePRF True of Inl e \<Rightarrow> ([], Some e)
                 | Inr pkt \<Rightarrow> if bc pkt then ([pkt], None) else ([], Some SendFailed))))"

definition broadcastResourceCancel ::
  "Primitives \<Rightarrow> (Packet \<Rightarrow> bool) \<Rightarrow> bytes option \<Rightarrow> Link \<Rightarrow> bytes \<Rightarrow> bool \<Rightarrow> Packet list \<times> resource_error option" where
  "broadcastResourceCancel C bc ivRnd link resHash isICL =
     (if State link \<noteq> LinkActive then ([], Some LinkNotActive)
      else case BuildResourceCancel resHash of Inl e \<Rightarrow> ([], Some e) | Inr body \<Rightarrow>
        case LinkTokenEncrypt C ivRnd body (Signing link) (Encryption link) of Inl e \<Rightarrow> ([], Some (SealFailed e)) | Inr ciphertext \<Rightarrow>
        case buildResourceCtxPacket (ID link) ciphertext (if isICL then ContextResourceICL else ContextResourceRCL) False of Inl e \<Rightarrow> ([], Some e)
        | Inr pkt \<Rightarrow> if bc pkt then ([pkt], None) else ([], Some SendFailed))"

datatype receiver_event = RContextDone resource_error | RCancel | RTimer | RPart bytes | RHmu ResourceHmu

text \<open>What \<open>Run\<close> does after the last part: the state, the packets, the returned error and the body given to \<open>OnAssembled\<close>.\<close>

definition receiver_finish ::
  "Primitives \<Rightarrow> (Packet \<Rightarrow> bool) \<Rightarrow> bytes option \<Rightarrow> Link \<Rightarrow> ResourceReceiver \<Rightarrow> ResourceReceiver \<times> Packet list \<times> run_state \<times> bytes option" where
  "receiver_finish C bc ivRnd link rr =
     (case assemble C rr of
        Inl e \<Rightarrow> (rr\<lparr>state_r := ResourceStateCorrupt\<rparr>, fst (broadcastResourceCancel C bc ivRnd link (resourceHash_r rr) False), Returned (Some e), None)
      | Inr body \<Rightarrow> (rr\<lparr>state_r := ResourceStateComplete\<rparr>, fst (broadcastProof C bc rr), Returned None, Some body))"

text \<open>One iteration of the loop of \<open>Run\<close>, with the check of its condition at the end.\<close>

definition receiver_step ::
  "Primitives \<Rightarrow> (Packet \<Rightarrow> bool) \<Rightarrow> bytes option \<Rightarrow> Link \<Rightarrow> receiver_event \<Rightarrow> ResourceReceiver
     \<Rightarrow> ResourceReceiver \<times> Packet list \<times> run_state \<times> bytes option" where
  "receiver_step C bc ivRnd link ev rr =
     (case ev of
        RContextDone e \<Rightarrow> (rr\<lparr>state_r := ResourceStateFailed\<rparr>, [], Returned (Some e), None)
      | RCancel \<Rightarrow> (rr\<lparr>state_r := ResourceStateCancelled\<rparr>, [], Returned (Some ErrResourceCancelled), None)
      | RTimer \<Rightarrow> (case requestNextWindow C bc ivRnd rr of (rr', pkts, err) \<Rightarrow> (rr', pkts, Running, None))
      | RPart part \<Rightarrow>
          (case placePart C part rr of
             (rr', Some e) \<Rightarrow> (rr', [], Running, None)
           | (rr', None) \<Rightarrow>
               if receivedCount rr' < length (parts_r rr') then
                 (if windowComplete rr' then (case requestNextWindow C bc ivRnd rr' of (rr'', pkts, err) \<Rightarrow> (rr'', pkts, Running, None))
                  else (rr', [], Running, None))
               else receiver_finish C bc ivRnd link rr')
      | RHmu h \<Rightarrow>
          (case applyHmu h rr of
             (rr', Some e) \<Rightarrow> (rr', [], Running, None)
           | (rr', None) \<Rightarrow> (case requestNextWindow C bc ivRnd rr' of (rr'', pkts, err) \<Rightarrow> (rr'', pkts, Running, None))))"

section \<open>A sender and its receiver\<close>

lemma concat_slot:
  assumes "\<And>x. x \<in> set xss \<Longrightarrow> length x = 4" and "i < length xss"
  shows "map_slot (concat xss @ rest) i = xss ! i"
  using assms
proof (induction xss arbitrary: i)
  case Nil
  then show ?case by simp
next
  case (Cons x xss)
  then show ?case by (cases i) (simp_all add: map_slot_def)
qed

lemma length_concat_4: "(\<And>x. x \<in> set xss \<Longrightarrow> length x = 4) \<Longrightarrow> length (concat xss) = 4 * length xss"
  by (induction xss) auto

text \<open>The frontier: the first index not received yet.\<close>

definition frontier :: "ResourceReceiver \<Rightarrow> nat" where
  "frontier rr = nat (consecutiveHeight rr + 1)"

text \<open>The map hashes of a sender's parts.\<close>

definition mhs :: "Primitives \<Rightarrow> ResourceSender \<Rightarrow> bytes list" where
  "mhs C rs = map (\<lambda>p. ResourceMapHash C p (randomR rs)) (parts rs)"

text \<open>A receiver in the middle of a transfer from \<open>rs\<close>: it knows a prefix of the hashmap, whole segments unless it is all of it, holds right
  parts only, and counts them right.\<close>

definition known_ok :: "Primitives \<Rightarrow> ResourceSender \<Rightarrow> ResourceReceiver \<Rightarrow> bool" where
  "known_ok C rs rr \<longleftrightarrow>
     length (parts_r rr) = length (parts rs) \<and> randomR_r rr = randomR rs \<and> resourceHash_r rr = resourceHash rs
   \<and> linkSigning_r rr = linkSigning rs \<and> linkEncryption_r rr = linkEncryption rs \<and> linkID_r rr = linkID_s rs
   \<and> expectedSize rr = int (transferLen rs) \<and> dataSize rr = int (originalLen rs)
   \<and> 0 < hashmapKnownPrefix rr \<and> hashmapKnownPrefix rr \<le> length (parts rs)
   \<and> (hashmapKnownPrefix rr = length (parts rs) \<or> hashmapKnownPrefix rr mod 74 = 0)
   \<and> length (hashmap_r rr) = 4 * length (parts rs) \<and> (\<forall>i < hashmapKnownPrefix rr. map_slot (hashmap_r rr) i = mhs C rs ! i)"

definition received_ok :: "ResourceSender \<Rightarrow> ResourceReceiver \<Rightarrow> bool" where
  "received_ok rs rr \<longleftrightarrow>
     length (receivedFlags rr) = length (parts rs)
   \<and> (\<forall>i < length (parts rs). if receivedFlags rr ! i then i < hashmapKnownPrefix rr \<and> parts_r rr ! i = parts rs ! i else parts_r rr ! i = [])
   \<and> receivedCount rr = length (filter (\<lambda>b. b) (receivedFlags rr))
   \<and> -1 \<le> consecutiveHeight rr \<and> frontier rr \<le> length (parts rs) \<and> (\<forall>i < frontier rr. receivedFlags rr ! i)
   \<and> (frontier rr < length (parts rs) \<longrightarrow> \<not> receivedFlags rr ! frontier rr)"

definition transfer_inv :: "Primitives \<Rightarrow> ResourceSender \<Rightarrow> ResourceReceiver \<Rightarrow> bool" where
  "transfer_inv C rs rr \<longleftrightarrow> known_ok C rs rr \<and> received_ok rs rr"

text \<open>A sender as \<open>NewResourceSender\<close> makes it, whose map hashes are all different, so that its lookups are unambiguous.\<close>

definition sender_ok :: "Primitives \<Rightarrow> ResourceSender \<Rightarrow> bool" where
  "sender_ok C rs \<longleftrightarrow> digests_ok C \<and> parts rs \<noteq> [] \<and> hashmap rs = concat (mhs C rs) \<and> distinct (mhs C rs)
     \<and> length (resourceHash rs) = 32 \<and> length (linkID_s rs) = 16 \<and> length (parts rs) \<le> 2281"

lemma mhs_len [simp]: "length (mhs C rs) = length (parts rs)"
  by (simp add: mhs_def)

lemma mhs_nth: "i < length (parts rs) \<Longrightarrow> mhs C rs ! i = ResourceMapHash C (parts rs ! i) (randomR rs)"
  by (simp add: mhs_def)

lemma mhs_4: "digests_ok C \<Longrightarrow> x \<in> set (mhs C rs) \<Longrightarrow> length x = 4"
  by (auto simp: mhs_def)

lemma sender_slot: "sender_ok C rs \<Longrightarrow> i < length (parts rs) \<Longrightarrow> map_slot (hashmap rs) i = mhs C rs ! i"
  using concat_slot [of "mhs C rs" i "[]"] mhs_4 [of C _ rs] by (simp add: sender_ok_def)

lemma find_mh:
  assumes "sender_ok C rs" and "i < length (parts rs)"
  shows "findPartByMapHash rs (mhs C rs ! i) = Some i"
proof -
  have "bytesEqual (map_slot (hashmap rs) j) (mhs C rs ! i) \<longleftrightarrow> j = i" if "j < length (parts rs)" for j
    using that assms sender_slot [OF assms(1) that] by (simp add: sender_ok_def nth_eq_iff_index_eq)
  then show ?thesis
    using assms(2) by (auto simp: findPartByMapHash_def find_Some_iff nth_eq_iff_index_eq intro!: exI [of _ i])
qed

lemma advance_spec:
  assumes "\<forall>i < h. flgs ! i" and "h \<le> length flgs" and "length flgs \<le> h + k"
  shows "-1 \<le> advance flgs h k \<and> nat (advance flgs h k + 1) \<le> length flgs \<and> h \<le> nat (advance flgs h k + 1)
    \<and> (\<forall>i < nat (advance flgs h k + 1). flgs ! i) \<and> (nat (advance flgs h k + 1) < length flgs \<longrightarrow> \<not> flgs ! nat (advance flgs h k + 1))"
  using assms
proof (induction k arbitrary: h)
  case 0
  then show ?case by simp
next
  case (Suc k)
  show ?case
  proof (cases "h < length flgs \<and> flgs ! h")
    case True
    then have "\<forall>i < Suc h. flgs ! i" using Suc.prems(1) by (auto simp: less_Suc_eq)
    with True Suc.IH [of "Suc h"] Suc.prems(3) show ?thesis by simp
  next
    case False
    then have "advance flgs h (Suc k) = int h - 1" unfolding advance.simps by (simp only: if_False)
    with False Suc.prems show ?thesis by (auto simp del: advance.simps)
  qed
qed

lemma count_set_True:
  "i < length fl \<Longrightarrow> \<not> fl ! i \<Longrightarrow> length (filter (\<lambda>b. b) (fl[i := True])) = Suc (length (filter (\<lambda>b. b) fl))"
proof (induction fl arbitrary: i)
  case (Cons b fl)
  then show ?case by (cases i) auto
qed simp

lemma filter_single:
  assumes "\<And>i. a \<le> i \<Longrightarrow> i < b \<Longrightarrow> P i \<longleftrightarrow> i = k"
  shows "filter P [a..<b] = (if a \<le> k \<and> k < b then [k] else [])"
proof (cases "a \<le> k \<and> k < b")
  case True
  then have "[a..<b] = [a..<k] @ k # [Suc k..<b]" using upt_add_eq_append [of a k "b - k"] by (simp add: upt_conv_Cons)
  moreover have "filter P [a..<k] = []" "filter P [Suc k..<b] = []" "P k"
    using assms True by (auto simp: filter_empty_conv)
  ultimately show ?thesis using True by simp
next
  case False
  then show ?thesis using assms by (auto simp: filter_empty_conv)
qed

text \<open>What the receiver does with one of the sender's parts.\<close>

lemma placePart_eq:
  assumes s: "sender_ok C rs" and inv: "transfer_inv C rs rr" and k: "k < length (parts rs)"
  shows "placePart C (parts rs ! k) rr =
     (let base = nat (consecutiveHeight rr)
      in if base \<le> k \<and> k < base + 224 \<and> k < hashmapKnownPrefix rr then
           (if receivedFlags rr ! k then (rr, Some DuplicatePart)
            else (rr\<lparr>parts_r := (parts_r rr)[k := parts rs ! k], receivedFlags := (receivedFlags rr)[k := True], receivedCount := Suc (receivedCount rr),
                    consecutiveHeight := advance ((receivedFlags rr)[k := True]) (frontier rr) (length (parts_r rr))\<rparr>, None))
         else (rr, Some NotInWindow))"
proof -
  have known: "hashmapKnownPrefix rr \<le> length (parts rs)" "randomR_r rr = randomR rs"
    and slot: "\<And>i. i < hashmapKnownPrefix rr \<Longrightarrow> map_slot (hashmap_r rr) i = mhs C rs ! i"
    using inv by (auto simp: transfer_inv_def known_ok_def)
  have "filter (\<lambda>i. bytesEqual (map_slot (hashmap_r rr) i) (mhs C rs ! k)) [nat (consecutiveHeight rr)..<min (nat (consecutiveHeight rr) + 224) (hashmapKnownPrefix rr)]
      = (if nat (consecutiveHeight rr) \<le> k \<and> k < min (nat (consecutiveHeight rr) + 224) (hashmapKnownPrefix rr) then [k] else [])"
    by (rule filter_single) (use s k known slot in \<open>auto simp: sender_ok_def nth_eq_iff_index_eq\<close>)
  then show ?thesis
    using known k by (simp add: placePart_def mhs_nth frontier_def Let_def)
qed

lemma placePart_kept:
  assumes s: "sender_ok C rs" and inv: "transfer_inv C rs rr" and k: "k < length (parts rs)"
    and p: "placePart C (parts rs ! k) rr = (rr', e)"
  shows "transfer_inv C rs rr'" "hashmapKnownPrefix rr' = hashmapKnownPrefix rr" "frontier rr \<le> frontier rr'"
    "k = frontier rr \<Longrightarrow> k < hashmapKnownPrefix rr \<Longrightarrow> frontier rr < frontier rr'"
proof -
  let ?new = "rr\<lparr>parts_r := (parts_r rr)[k := parts rs ! k], receivedFlags := (receivedFlags rr)[k := True], receivedCount := Suc (receivedCount rr),
     consecutiveHeight := advance ((receivedFlags rr)[k := True]) (frontier rr) (length (parts_r rr))\<rparr>"
  have kn: "known_ok C rs rr" and re: "received_ok rs rr" using inv by (simp_all add: transfer_inv_def)
  have I: "length (parts_r rr) = length (parts rs)" "length (receivedFlags rr) = length (parts rs)" "-1 \<le> consecutiveHeight rr"
    "frontier rr \<le> length (parts rs)" "\<forall>i < frontier rr. receivedFlags rr ! i" "frontier rr < length (parts rs) \<Longrightarrow> \<not> receivedFlags rr ! frontier rr"
    "receivedCount rr = length (filter (\<lambda>b. b) (receivedFlags rr))"
    using kn re by (simp_all add: known_ok_def received_ok_def)
  have adv: "-1 \<le> consecutiveHeight ?new" "frontier ?new \<le> length (parts rs)" "frontier rr \<le> frontier ?new"
    "\<forall>i < frontier ?new. (receivedFlags rr)[k := True] ! i"
    "frontier ?new < length (parts rs) \<Longrightarrow> \<not> (receivedFlags rr)[k := True] ! frontier ?new"
  proof -
    have f: "frontier ?new = nat (advance ((receivedFlags rr)[k := True]) (frontier rr) (length (parts_r rr)) + 1)" by (simp add: frontier_def)
    have p1: "\<forall>i < frontier rr. (receivedFlags rr)[k := True] ! i" using I(2,5) k by (simp add: nth_list_update)
    have p2: "frontier rr \<le> length ((receivedFlags rr)[k := True])" "length ((receivedFlags rr)[k := True]) \<le> frontier rr + length (parts_r rr)"
      using I(1,2,4) by simp_all
    note a = advance_spec [OF p1 p2]
    show "-1 \<le> consecutiveHeight ?new" "frontier ?new \<le> length (parts rs)" "frontier rr \<le> frontier ?new"
      "\<forall>i < frontier ?new. (receivedFlags rr)[k := True] ! i"
      "frontier ?new < length (parts rs) \<Longrightarrow> \<not> (receivedFlags rr)[k := True] ! frontier ?new"
      using a I(2) unfolding f by simp_all
  qed
  have new: "transfer_inv C rs ?new" if nk: "\<not> receivedFlags rr ! k" "k < hashmapKnownPrefix rr"
  proof -
    have "known_ok C rs ?new" using kn by (simp add: known_ok_def)
    moreover have "\<forall>i < length (parts rs). if receivedFlags ?new ! i then i < hashmapKnownPrefix ?new \<and> parts_r ?new ! i = parts rs ! i else parts_r ?new ! i = []"
      using re nk k I(1,2) by (simp add: received_ok_def nth_list_update)
    moreover have "receivedCount ?new = length (filter (\<lambda>b. b) (receivedFlags ?new))" using count_set_True [of k "receivedFlags rr"] nk k I by simp
    ultimately show ?thesis using adv I(2) unfolding transfer_inv_def received_ok_def by simp
  qed
  have b: "nat (consecutiveHeight rr) \<le> frontier rr" "frontier rr < nat (consecutiveHeight rr) + 224" using I(3) by (simp_all add: frontier_def)
  have "rr' = rr \<or> rr' = ?new \<and> \<not> receivedFlags rr ! k \<and> k < hashmapKnownPrefix rr"
    using p placePart_eq [OF s inv k] by (auto simp: Let_def split: if_splits)
  then show "transfer_inv C rs rr'" "hashmapKnownPrefix rr' = hashmapKnownPrefix rr" "frontier rr \<le> frontier rr'"
    using inv new adv(3) by auto
  show "frontier rr < frontier rr'" if "k = frontier rr" "k < hashmapKnownPrefix rr"
  proof -
    have "rr' = ?new" using p placePart_eq [OF s inv k] that b I(6) k by (auto simp: Let_def)
    moreover have "frontier ?new \<noteq> frontier rr" using adv(5) that(1) k I(2) by (cases "frontier ?new < length (parts rs)") auto
    ultimately show ?thesis using adv(3) by auto
  qed
qed

section \<open>Requests and answers\<close>

lemma received_D:
  assumes "transfer_inv C rs rr" and "i < length (parts rs)"
  shows "receivedFlags rr ! i \<Longrightarrow> i < hashmapKnownPrefix rr \<and> parts_r rr ! i = parts rs ! i" "\<not> receivedFlags rr ! i \<Longrightarrow> parts_r rr ! i = []"
  using assms unfolding transfer_inv_def received_ok_def by presburger+

lemma frontier_le_known: "transfer_inv C rs rr \<Longrightarrow> frontier rr \<le> hashmapKnownPrefix rr"
proof (rule ccontr)
  assume inv: "transfer_inv C rs rr" and "\<not> frontier rr \<le> hashmapKnownPrefix rr"
  then have k: "hashmapKnownPrefix rr < frontier rr" by simp
  moreover have "frontier rr \<le> length (parts rs)" "receivedFlags rr ! hashmapKnownPrefix rr"
    using inv k by (simp_all add: transfer_inv_def received_ok_def)
  ultimately show False using received_D(1) [OF inv, of "hashmapKnownPrefix rr"] by simp
qed

lemma missing_frontier:
  assumes inv: "transfer_inv C rs rr" and "frontier rr < hashmapKnownPrefix rr"
  shows "\<exists>ms. filter (\<lambda>i. \<not> receivedFlags rr ! i) [0..<hashmapKnownPrefix rr] = frontier rr # ms"
proof -
  have f: "\<forall>i < frontier rr. receivedFlags rr ! i" "\<not> receivedFlags rr ! frontier rr"
    using assms by (auto simp: transfer_inv_def received_ok_def known_ok_def)
  have "[0..<hashmapKnownPrefix rr] = [0..<frontier rr] @ frontier rr # [Suc (frontier rr)..<hashmapKnownPrefix rr]"
    using assms(2) upt_add_eq_append [of 0 "frontier rr" "hashmapKnownPrefix rr - frontier rr"] by (simp add: upt_conv_Cons)
  moreover have "filter (\<lambda>i. \<not> receivedFlags rr ! i) [0..<frontier rr] = []" using f(1) by (auto simp: filter_empty_conv)
  ultimately show ?thesis using f(2) by simp
qed

lemma missing_none:
  assumes "transfer_inv C rs rr" and "frontier rr = hashmapKnownPrefix rr"
  shows "filter (\<lambda>i. \<not> receivedFlags rr ! i) [0..<hashmapKnownPrefix rr] = []"
  using assms by (auto simp: filter_empty_conv transfer_inv_def received_ok_def)

lemma next_request_window:
  assumes inv: "transfer_inv C rs rr" and f: "frontier rr < hashmapKnownPrefix rr"
  obtains ks where "set (frontier rr # ks) \<subseteq> {..<hashmapKnownPrefix rr}"
    and "next_request rr = (rr\<lparr>pendingTarget := receivedCount rr + length (frontier rr # ks)\<rparr>,
      Some \<lparr>Exhausted = False, LastMapHash = [], ResourceHash_q = resourceHash rs, RequestedMap = map ((!) (mhs C rs)) (frontier rr # ks)\<rparr>)"
proof -
  obtain ms where ms: "filter (\<lambda>i. \<not> receivedFlags rr ! i) [0..<hashmapKnownPrefix rr] = frontier rr # ms"
    using missing_frontier [OF assms] by blast
  have sub: "set (frontier rr # take 9 ms) \<subseteq> {..<hashmapKnownPrefix rr}"
    using arg_cong [OF ms, of set] set_take_subset [of 9 ms] by auto
  have k: "\<And>i. i < hashmapKnownPrefix rr \<Longrightarrow> map_slot (hashmap_r rr) i = mhs C rs ! i" "resourceHash_r rr = resourceHash rs"
    using inv by (auto simp: transfer_inv_def known_ok_def)
  have m: "map (map_slot (hashmap_r rr)) (frontier rr # take 9 ms) = map ((!) (mhs C rs)) (frontier rr # take 9 ms)"
    using sub k(1) by auto
  have "take WindowMaxSlow (frontier rr # ms) = frontier rr # take 9 ms" by (simp add: WindowMaxSlow_def)
  then have "next_request rr = (rr\<lparr>pendingTarget := receivedCount rr + length (frontier rr # take 9 ms)\<rparr>,
      Some \<lparr>Exhausted = False, LastMapHash = [], ResourceHash_q = resourceHash rs, RequestedMap = map ((!) (mhs C rs)) (frontier rr # take 9 ms)\<rparr>)"
    using m k(2) unfolding next_request_def Let_def ms by simp
  with that [OF sub] show thesis by blast
qed

lemma next_request_exhausted:
  assumes inv: "transfer_inv C rs rr" and f: "frontier rr = hashmapKnownPrefix rr" and n: "hashmapKnownPrefix rr < length (parts rs)"
  shows "next_request rr = (rr\<lparr>pendingTarget := receivedCount rr\<rparr>,
      Some \<lparr>Exhausted = True, LastMapHash = mhs C rs ! (hashmapKnownPrefix rr - 1), ResourceHash_q = resourceHash rs, RequestedMap = []\<rparr>)"
  using missing_none [OF inv f] inv n by (simp add: next_request_def Let_def transfer_inv_def known_ok_def)

lemma fulfill_known:
  assumes s: "sender_ok C rs" and "set ks \<subseteq> {..<length (parts rs)}"
  shows "fulfill_loop (\<lambda>_. True) rs (map ((!) (mhs C rs)) ks) =
    (length ks, map (\<lambda>i. link_packet (linkID_s rs) PacketData ContextResource (parts rs ! i)) ks, None)"
  using assms(2)
proof (induction ks)
  case (Cons i ks)
  then have "findPartByMapHash rs (mhs C rs ! i) = Some i" using find_mh [OF s] by simp
  with Cons s show ?case by (simp add: buildResourceCtxPacket_def sender_ok_def key_lens)
qed simp

section \<open>Hashmap updates\<close>

lemma take_drop_concat4:
  assumes "\<And>x. x \<in> set xss \<Longrightarrow> length x = 4"
  shows "take (4 * b) (drop (4 * a) (concat xss)) = concat (take b (drop a xss))"
  using assms
proof (induction xss arbitrary: a b)
  case (Cons x xss)
  show ?case
  proof (cases a)
    case 0
    then show ?thesis using Cons.prems Cons.IH [of _ 0] by (cases b) auto
  next
    case (Suc a')
    then show ?thesis using Cons by simp
  qed
qed simp

lemma slot_left: "4 * i + 4 \<le> length xs \<Longrightarrow> map_slot (xs @ ys) i = map_slot xs i"
  by (simp add: map_slot_def)

lemma slot_take: "i < k \<Longrightarrow> 4 * k \<le> length xs \<Longrightarrow> map_slot (take (4 * k) xs) i = map_slot xs i"
  by (simp add: map_slot_def drop_take)

lemma slot_right: "length xs = 4 * k \<Longrightarrow> k \<le> i \<Longrightarrow> map_slot (xs @ ys) i = map_slot ys (i - k)"
  by (simp add: map_slot_def diff_mult_distrib mult.commute)

text \<open>An exhausted request is answered with the next segment, and the receiver takes it.\<close>

lemma hmu_exchange:
  assumes s: "sender_ok C rs" and inv: "transfer_inv C rs rr" and n: "hashmapKnownPrefix rr < length (parts rs)"
    and q: "LastMapHash q = mhs C rs ! (hashmapKnownPrefix rr - 1)"
  obtains h rr' where "hmu_for rs q = Inr h" and "applyHmu h rr = (rr', None)" and "transfer_inv C rs rr'"
    and "frontier rr' = frontier rr" and "hashmapKnownPrefix rr' = min (hashmapKnownPrefix rr + 74) (length (parts rs))"
    and "length (ResourceHash_h h) = 32" and "1 \<le> SegmentIndex h" and "SegmentIndex h = int (hashmapKnownPrefix rr div 74)" and "HashmapBytes h \<noteq> []" and "length (HashmapBytes h) mod 4 = 0"
proof -
  let ?k = "hashmapKnownPrefix rr" and ?n = "length (parts rs)"
  define stop where "stop = min (?k + 74) ?n"
  define ys where "ys = take (stop - ?k) (drop ?k (mhs C rs))"
  have d: "digests_ok C" and hm: "hashmap rs = concat (mhs C rs)" "length (resourceHash rs) = 32" using s by (auto simp: sender_ok_def)
  have kn: "known_ok C rs rr" and re: "received_ok rs rr" using inv by (auto simp: transfer_inv_def)
  have k: "0 < ?k" "?k mod 74 = 0" "length (parts_r rr) = ?n" "resourceHash_r rr = resourceHash rs" "length (hashmap_r rr) = 4 * ?n"
    using kn n by (auto simp: known_ok_def)
  obtain seg where seg: "?k = seg * 74" using k(2) by (metis mod_0_imp_dvd dvdE mult.commute)
  have seg1: "1 \<le> seg" "?k div 74 = seg" using k(1) seg by (cases seg, auto)
  have y4: "length y = 4" if "y \<in> set ys" for y using that mhs_4 [OF d] by (auto simp: ys_def dest!: in_set_takeD in_set_dropD)
  have yl: "length ys = stop - ?k" "0 < stop - ?k" "stop \<le> ?n" using n by (simp_all add: ys_def stop_def)
  have cl: "length (concat ys) = 4 * (stop - ?k)" using length_concat_4 [OF y4] yl(1) by simp
  define h where "h = \<lparr>ResourceHash_h = resourceHash rs, SegmentIndex = int seg, HashmapBytes = concat ys\<rparr>"
  have bytes: "take (stop * 4 - ?k * 4) (drop (?k * 4) (hashmap rs)) = concat ys"
    using take_drop_concat4 [of "mhs C rs" "stop - ?k" ?k] mhs_4 [OF d] by (simp add: hm ys_def diff_mult_distrib mult.commute)
  have "?k - 1 + 1 = ?k" "?k - 1 < ?n" using k(1) n by auto
  have l4: "length (mhs C rs ! (?k - 1)) = 4" using mhs_4 [OF d nth_mem] \<open>?k - 1 < ?n\<close> by simp
  have st: "min (seg * 74 + 74) ?n = stop" by (simp add: stop_def seg)
  have "hmu_for rs q = Inr h"
    using q l4 find_mh [OF s \<open>?k - 1 < ?n\<close>] seg1(2) k(1,2) yl(2) bytes seg
    by (simp add: hmu_for_def Let_def h_def st)
  moreover define rr' where "rr' = rr\<lparr>hashmap_r := take (?k * 4) (hashmap_r rr) @ concat ys @ drop (?k * 4 + length (concat ys)) (hashmap_r rr),
      hashmapKnownPrefix := stop\<rparr>"
  have "applyHmu h rr = (rr', None)"
    using k seg1 cl yl by (simp add: applyHmu_def Let_def h_def rr'_def stop_def min_def) auto
  moreover have "map_slot (hashmap_r rr') i = mhs C rs ! i" if "i < stop" for i
  proof (cases "i < ?k")
    case True
    have "map_slot (hashmap_r rr') i = map_slot (take (4 * ?k) (hashmap_r rr)) i"
      using True k(5) n by (simp add: rr'_def mult.commute slot_left)
    also have "\<dots> = mhs C rs ! i" using slot_take [OF True, of "hashmap_r rr"] True kn k(5) n by (simp add: known_ok_def)
    finally show ?thesis .
  next
    case False
    have "map_slot (hashmap_r rr') i = map_slot (concat ys @ drop (?k * 4 + length (concat ys)) (hashmap_r rr)) (i - ?k)"
      using False k(5) n by (simp add: rr'_def slot_right)
    also have "\<dots> = ys ! (i - ?k)" using concat_slot [of ys "i - ?k"] y4 that False yl(1) by simp
    also have "\<dots> = mhs C rs ! i" using that False yl by (simp add: ys_def)
    finally show ?thesis .
  qed
  then have "known_ok C rs rr'"
    using kn k yl cl n seg by (auto simp: known_ok_def rr'_def stop_def min_def)
  moreover have "received_ok rs rr'" using re yl by (auto simp: received_ok_def rr'_def frontier_def)
  moreover have "HashmapBytes h \<noteq> []" using cl yl(2) by (intro notI) (simp add: h_def del: concat_eq_Nil_conv)
  moreover have "length (ResourceHash_h h) = 32" "1 \<le> SegmentIndex h" "SegmentIndex h = int (?k div 74)" "length (HashmapBytes h) mod 4 = 0" using hm seg1 cl by (simp_all add: h_def)
  moreover have "frontier rr' = frontier rr" "hashmapKnownPrefix rr' = stop" by (simp_all add: rr'_def frontier_def)
  ultimately show thesis using that [of h rr'] by (simp add: transfer_inv_def stop_def)
qed

section \<open>Rounds\<close>

text \<open>One round trip of a transfer over a lossy path: the receiver's request, as the sender parses it from its bytes, is answered; of the part packets of the
  answer an arbitrary selection arrives, in any order and any number of times, but the first of them does arrive; the answer to an
  exhausted request, as the receiver parses it from its bytes, arrives.\<close>

definition place_all :: "Primitives \<Rightarrow> bytes list \<Rightarrow> ResourceReceiver \<Rightarrow> ResourceReceiver" where
  "place_all C got rr = foldl (\<lambda>r p. fst (placePart C p r)) rr got"

inductive round :: "Primitives \<Rightarrow> Resource_Msgpack \<Rightarrow> ResourceSender \<Rightarrow> ResourceReceiver \<Rightarrow> ResourceReceiver \<Rightarrow> bool" for C M rs where
  parts: "next_request rr = (rr1, Some q) \<Longrightarrow> BuildResourceReq q = Inr b \<Longrightarrow> ParseResourceReq b = Inr q' \<Longrightarrow> \<not> Exhausted q'
    \<Longrightarrow> fulfillRequest (\<lambda>_. True) rs q' = (n, pkts, None) \<Longrightarrow> set got \<subseteq> Data ` set pkts \<Longrightarrow> Data (hd pkts) \<in> set got
    \<Longrightarrow> round C M rs rr (place_all C got rr1)"
| hmu: "next_request rr = (rr1, Some q) \<Longrightarrow> BuildResourceReq q = Inr b \<Longrightarrow> ParseResourceReq b = Inr q' \<Longrightarrow> Exhausted q'
    \<Longrightarrow> hmu_for rs q' = Inr h \<Longrightarrow> BuildResourceHmu M h = Inr hb \<Longrightarrow> ParseResourceHmu M hb = Inr h' \<Longrightarrow> applyHmu h' rr1 = (rr', None)
    \<Longrightarrow> round C M rs rr rr'"

lemma pending_irrelevant [simp]:
  "transfer_inv C rs (rr\<lparr>pendingTarget := t\<rparr>) = transfer_inv C rs rr" "frontier (rr\<lparr>pendingTarget := t\<rparr>) = frontier rr"
  by (simp_all add: transfer_inv_def known_ok_def received_ok_def frontier_def)

lemma place_all_kept:
  assumes s: "sender_ok C rs"
  shows "transfer_inv C rs rr \<Longrightarrow> set got \<subseteq> (!) (parts rs) ` {..<length (parts rs)} \<Longrightarrow>
    transfer_inv C rs (place_all C got rr) \<and> hashmapKnownPrefix (place_all C got rr) = hashmapKnownPrefix rr \<and> frontier rr \<le> frontier (place_all C got rr)"
proof (induction got arbitrary: rr)
  case Nil
  then show ?case by (simp add: place_all_def)
next
  case (Cons p got)
  obtain k where k: "k < length (parts rs)" "p = parts rs ! k" using Cons.prems(2) by auto
  obtain rr' e where p: "placePart C p rr = (rr', e)" by (cases "placePart C p rr")
  note kept = placePart_kept [OF s Cons.prems(1) k(1) p [unfolded k(2)]]
  have "place_all C (p # got) rr = place_all C got rr'" by (simp add: place_all_def p)
  moreover have "transfer_inv C rs (place_all C got rr') \<and> hashmapKnownPrefix (place_all C got rr') = hashmapKnownPrefix rr' \<and> frontier rr' \<le> frontier (place_all C got rr')"
    by (rule Cons.IH [OF kept(1)]) (use Cons.prems(2) in simp)
  ultimately show ?case using kept(2,3) by simp
qed

lemma place_all_progress:
  assumes s: "sender_ok C rs"
  shows "transfer_inv C rs rr \<Longrightarrow> set got \<subseteq> (!) (parts rs) ` {..<length (parts rs)} \<Longrightarrow> f < hashmapKnownPrefix rr \<Longrightarrow> f \<le> frontier rr \<Longrightarrow>
    parts rs ! f \<in> set got \<Longrightarrow> f < frontier (place_all C got rr)"
proof (induction got arbitrary: rr)
  case Nil
  then show ?case by simp
next
  case (Cons p got)
  obtain k where k: "k < length (parts rs)" "p = parts rs ! k" using Cons.prems(2) by auto
  obtain rr' e where p: "placePart C p rr = (rr', e)" by (cases "placePart C p rr")
  note kept = placePart_kept [OF s Cons.prems(1) k(1) p [unfolded k(2)]]
  have e: "place_all C (p # got) rr = place_all C got rr'" by (simp add: place_all_def p)
  have sub: "set got \<subseteq> (!) (parts rs) ` {..<length (parts rs)}" using Cons.prems(2) by simp
  have fn: "f < length (parts rs)" using Cons.prems(1,3) by (auto simp: transfer_inv_def known_ok_def)
  show ?case
  proof (cases "f < frontier rr'")
    case True
    then show ?thesis unfolding e using place_all_kept [OF s kept(1) sub] by simp
  next
    case False
    then have ff: "frontier rr' = f" "frontier rr = f" using kept(3) Cons.prems(4) by auto
    have "p \<noteq> parts rs ! f"
    proof
      assume "p = parts rs ! f"
      then have "placePart C (parts rs ! f) rr = (rr', e)" using p by simp
      from placePart_kept(4) [OF s Cons.prems(1) fn this] ff Cons.prems(3) show False by simp
    qed
    then have "parts rs ! f \<in> set got" using Cons.prems(5) by simp
    then show ?thesis unfolding e by (intro Cons.IH [OF kept(1) sub]) (use Cons.prems(3) kept(2) ff in simp_all)
  qed
qed

definition hmu_codec :: "Resource_Msgpack \<Rightarrow> bool" where
  "hmu_codec M \<longleftrightarrow> (\<forall>i hm. 1 \<le> i \<longrightarrow> i \<le> 31 \<longrightarrow> (\<exists>t. marshal_pair M i hm = Some t \<and> unmarshal_list M t = Some [MInt i, MBytes hm]))"

lemma hmu_wire:
  assumes "hmu_codec M" and "length (ResourceHash_h h) = 32" and "1 \<le> SegmentIndex h" and "SegmentIndex h \<le> 31" and "HashmapBytes h \<noteq> []"
    and "length (HashmapBytes h) mod 4 = 0"
  obtains b where "BuildResourceHmu M h = Inr b" and "ParseResourceHmu M b = Inr h"
proof -
  obtain t where t: "marshal_pair M (SegmentIndex h) (HashmapBytes h) = Some t" "unmarshal_list M t = Some [MInt (SegmentIndex h), MBytes (HashmapBytes h)]"
    using assms(1,3,4) unfolding hmu_codec_def by blast
  show thesis
    by (rule that [of "ResourceHash_h h @ t"]) (use assms t in \<open>simp_all add: BuildResourceHmu_def ParseResourceHmu_def\<close>)
qed

text \<open>What both kinds of rounds need: which request is sent, and that its bytes parse back to it.\<close>

lemma request_wire:
  assumes s: "sender_ok C rs" and inv: "transfer_inv C rs rr" and ks: "set ks \<subseteq> {..<length (parts rs)}"
    and q: "q = \<lparr>Exhausted = e, LastMapHash = (if e then mhs C rs ! j else []), ResourceHash_q = resourceHash rs, RequestedMap = map ((!) (mhs C rs)) ks\<rparr>"
    and j: "j < length (parts rs)"
  obtains b where "BuildResourceReq q = Inr b" and "ParseResourceReq b = Inr q"
proof -
  have d: "digests_ok C" "length (resourceHash rs) = 32" using s by (auto simp: sender_ok_def)
  have "length (mhs C rs ! i) = 4" if "i < length (parts rs)" for i using mhs_4 [OF d(1) nth_mem] that by simp
  then have "req_ok q" using ks j d(2) by (auto simp: req_ok_def q)
  then show thesis using request.parse_pack that by blast
qed

definition rounds_left :: "ResourceSender \<Rightarrow> ResourceReceiver \<Rightarrow> nat" where
  "rounds_left rs rr = (length (parts rs) - frontier rr) + (length (parts rs) - hashmapKnownPrefix rr)"

lemma window_exchange:
  assumes s: "sender_ok C rs" and inv: "transfer_inv C rs rr" and f: "frontier rr < hashmapKnownPrefix rr"
  obtains rr1 q b pkts where "next_request rr = (rr1, Some q)" and "BuildResourceReq q = Inr b" and "ParseResourceReq b = Inr q" and "\<not> Exhausted q"
    and "fulfillRequest (\<lambda>_. True) rs q = (length pkts, pkts, None)" and "Data ` set pkts \<subseteq> (!) (parts rs) ` {..<length (parts rs)}"
    and "pkts \<noteq> []" and "Data (hd pkts) = parts rs ! frontier rr"
    and "transfer_inv C rs rr1" and "frontier rr1 = frontier rr" and "hashmapKnownPrefix rr1 = hashmapKnownPrefix rr"
proof -
  have kn: "hashmapKnownPrefix rr \<le> length (parts rs)" "0 < hashmapKnownPrefix rr" using inv by (auto simp: transfer_inv_def known_ok_def)
  obtain ks where ks: "set (frontier rr # ks) \<subseteq> {..<hashmapKnownPrefix rr}"
    and nr: "next_request rr = (rr\<lparr>pendingTarget := receivedCount rr + length (frontier rr # ks)\<rparr>,
      Some \<lparr>Exhausted = False, LastMapHash = [], ResourceHash_q = resourceHash rs, RequestedMap = map ((!) (mhs C rs)) (frontier rr # ks)\<rparr>)"
    using next_request_window [OF inv f] by blast
  define q where "q = \<lparr>Exhausted = False, LastMapHash = [], ResourceHash_q = resourceHash rs, RequestedMap = map ((!) (mhs C rs)) (frontier rr # ks)\<rparr>"
  define pkts where "pkts = map (\<lambda>i. link_packet (linkID_s rs) PacketData ContextResource (parts rs ! i)) (frontier rr # ks)"
  have sub: "set (frontier rr # ks) \<subseteq> {..<length (parts rs)}" using ks kn(1) by auto
  obtain b where b: "BuildResourceReq q = Inr b" "ParseResourceReq b = Inr q"
    by (rule request_wire [OF s inv sub, of q False 0]) (use kn in \<open>auto simp: q_def\<close>)
  have ful: "fulfillRequest (\<lambda>_. True) rs q = (length pkts, pkts, None)"
    using fulfill_known [OF s sub] by (simp add: fulfillRequest_def q_def pkts_def del: fulfill_loop.simps list.map)
  show thesis
    by (rule that [OF nr [folded q_def] b _ ful]) (use sub inv in \<open>auto simp: q_def pkts_def link_packet_def\<close>)
qed

lemma exhausted_exchange:
  assumes s: "sender_ok C rs" and m: "hmu_codec M" and inv: "transfer_inv C rs rr" and f: "frontier rr = hashmapKnownPrefix rr"
    and n: "hashmapKnownPrefix rr < length (parts rs)"
  obtains rr1 q b h hb rr2 where "next_request rr = (rr1, Some q)" and "BuildResourceReq q = Inr b" and "ParseResourceReq b = Inr q" and "Exhausted q"
    and "hmu_for rs q = Inr h" and "BuildResourceHmu M h = Inr hb" and "ParseResourceHmu M hb = Inr h" and "applyHmu h rr1 = (rr2, None)"
    and "transfer_inv C rs rr2" and "frontier rr2 = frontier rr" and "hashmapKnownPrefix rr < hashmapKnownPrefix rr2"
proof -
  have k0: "0 < hashmapKnownPrefix rr" using inv by (simp add: transfer_inv_def known_ok_def)
  note nr = next_request_exhausted [OF inv f n]
  let ?q = "\<lparr>Exhausted = True, LastMapHash = mhs C rs ! (hashmapKnownPrefix rr - 1), ResourceHash_q = resourceHash rs, RequestedMap = []\<rparr>"
  let ?r1 = "rr\<lparr>pendingTarget := receivedCount rr\<rparr>"
  obtain b where b: "BuildResourceReq ?q = Inr b" "ParseResourceReq b = Inr ?q"
    by (rule request_wire [OF s inv, of "[]" ?q True "hashmapKnownPrefix rr - 1"]) (use n k0 in auto)
  obtain h rr2 where h: "hmu_for rs ?q = Inr h" "applyHmu h ?r1 = (rr2, None)" "transfer_inv C rs rr2" "frontier rr2 = frontier ?r1"
    "hashmapKnownPrefix rr2 = min (hashmapKnownPrefix ?r1 + 74) (length (parts rs))"
    "length (ResourceHash_h h) = 32" "1 \<le> SegmentIndex h" "SegmentIndex h = int (hashmapKnownPrefix ?r1 div 74)" "HashmapBytes h \<noteq> []"
    "length (HashmapBytes h) mod 4 = 0"
    by (rule hmu_exchange [OF s, of ?r1 ?q]) (use inv n in simp_all)
  have "length (parts rs) \<le> 2281" using s by (simp add: sender_ok_def)
  then have "SegmentIndex h \<le> 31" using h(8) n by simp
  with hmu_wire [OF m h(6,7) _ h(9,10)] obtain hb where hb: "BuildResourceHmu M h = Inr hb" "ParseResourceHmu M hb = Inr h" by blast
  show thesis by (rule that [OF nr b _ h(1) hb h(2,3)]) (use h(4,5) n in simp_all)
qed

text \<open>Every round brings the transfer closer to its end.\<close>

lemma round_kept:
  assumes s: "sender_ok C rs" and m: "hmu_codec M" and inv: "transfer_inv C rs rr" and r: "round C M rs rr rr'"
  shows "transfer_inv C rs rr' \<and> rounds_left rs rr' < rounds_left rs rr"
proof -
  have kn: "hashmapKnownPrefix rr \<le> length (parts rs)" using inv by (auto simp: transfer_inv_def known_ok_def)
  consider "frontier rr < hashmapKnownPrefix rr" | "frontier rr = hashmapKnownPrefix rr" "hashmapKnownPrefix rr < length (parts rs)"
    | "frontier rr = hashmapKnownPrefix rr" "hashmapKnownPrefix rr = length (parts rs)"
    using frontier_le_known [OF inv] kn by linarith
  then show ?thesis
  proof cases
    case 1
    then obtain rr1 q b pkts where w: "next_request rr = (rr1, Some q)" "BuildResourceReq q = Inr b" "ParseResourceReq b = Inr q" "\<not> Exhausted q"
      "fulfillRequest (\<lambda>_. True) rs q = (length pkts, pkts, None)" "Data ` set pkts \<subseteq> (!) (parts rs) ` {..<length (parts rs)}"
      "pkts \<noteq> []" "Data (hd pkts) = parts rs ! frontier rr"
      "transfer_inv C rs rr1" "frontier rr1 = frontier rr" "hashmapKnownPrefix rr1 = hashmapKnownPrefix rr"
      by (rule window_exchange [OF s inv])
    from r obtain got where got: "rr' = place_all C got rr1" "set got \<subseteq> Data ` set pkts" "parts rs ! frontier rr \<in> set got"
      using w(1-5,8) by cases auto
    have sub: "set got \<subseteq> (!) (parts rs) ` {..<length (parts rs)}" using got(2) w(6) by blast
    have "frontier rr < frontier rr'"
      unfolding got(1) by (rule place_all_progress [OF s w(9) sub]) (use 1 w got(3) in simp_all)
    with place_all_kept [OF s w(9) sub] 1 kn w(10,11) show ?thesis by (simp add: rounds_left_def got(1))
  next
    case 2
    then obtain rr1 q b h hb rr2 where w: "next_request rr = (rr1, Some q)" "BuildResourceReq q = Inr b" "ParseResourceReq b = Inr q" "Exhausted q"
      "hmu_for rs q = Inr h" "BuildResourceHmu M h = Inr hb" "ParseResourceHmu M hb = Inr h" "applyHmu h rr1 = (rr2, None)"
      "transfer_inv C rs rr2" "frontier rr2 = frontier rr" "hashmapKnownPrefix rr < hashmapKnownPrefix rr2"
      by (rule exhausted_exchange [OF s m inv])
    from r have "rr' = rr2" using w(1-8) by cases auto
    then show ?thesis using w(9-) 2 by (simp add: rounds_left_def)
  next
    case 3
    then have "next_request rr = (rr\<lparr>pendingTarget := receivedCount rr\<rparr>, None)"
      using missing_none [OF inv 3(1)] inv by (simp add: next_request_def Let_def transfer_inv_def known_ok_def)
    with r show ?thesis by cases simp_all
  qed
qed

lemma round_possible:
  assumes s: "sender_ok C rs" and m: "hmu_codec M" and inv: "transfer_inv C rs rr" and f: "frontier rr < length (parts rs)"
  shows "\<exists>rr'. round C M rs rr rr'"
proof (cases "frontier rr < hashmapKnownPrefix rr")
  case True
  then obtain rr1 q b pkts where w: "next_request rr = (rr1, Some q)" "BuildResourceReq q = Inr b" "ParseResourceReq b = Inr q" "\<not> Exhausted q"
      "fulfillRequest (\<lambda>_. True) rs q = (length pkts, pkts, None)" "pkts \<noteq> []"
    by (rule window_exchange [OF s inv])
  then show ?thesis using round.parts [OF w(1-5), of "map Data pkts"] by (metis image_set order_refl list.set_sel(1) imageI)
next
  case False
  then have k: "frontier rr = hashmapKnownPrefix rr" "hashmapKnownPrefix rr < length (parts rs)" using frontier_le_known [OF inv] f by simp_all
  then obtain rr1 q b h hb rr2 where w: "next_request rr = (rr1, Some q)" "BuildResourceReq q = Inr b" "ParseResourceReq b = Inr q" "Exhausted q"
      "hmu_for rs q = Inr h" "BuildResourceHmu M h = Inr hb" "ParseResourceHmu M hb = Inr h" "applyHmu h rr1 = (rr2, None)"
    by (rule exhausted_exchange [OF s m inv])
  then show ?thesis using round.hmu by blast
qed

section \<open>From the first packet to the proof\<close>

lemma pick_salt_Inr: "pick_salt C ps cs = Inr (r, hm) \<Longrightarrow> BuildHashmap C ps r = Inr hm"
  by (induction C ps cs rule: pick_salt.induct) (auto split: sum.splits resource_error.splits)

lemma NewResourceSender_Inr:
  assumes new: "NewResourceSender C M (Some prefix) (Some iv) salts a body = Inr rs"
    and ok: "crypto_ok C" "length (Signing a) = 32" "length (Encryption a) = 32" "length iv = 16"
  obtains wire where "LinkTokenDecrypt C wire (linkSigning rs) (linkEncryption rs) = Inr (prefix @ body)" and "parts rs = SplitParts wire"
    and "transferLen rs = length wire" and "originalLen rs = length body" and "length (randomR rs) = 4" and "hashmap rs = concat (mhs C rs)"
    and "resourceHash rs = ResourceHash C body (randomR rs)" and "expectedProof rs = ResourceExpectedProof C body (resourceHash rs)"
    and "parts rs \<noteq> []" and "length (parts rs) \<le> 2281" and "linkID_s rs = ID a" and "linkSigning rs = Signing a" and "linkEncryption rs = Encryption a"
    and "PackResourceAdv M \<lparr>TransferSize = int (length wire), DataSize = int (length body), NumParts = int (length (parts rs)), Hash = resourceHash rs,
          RandomHash_r = randomR rs, OriginalHash = resourceHash rs, SegmentIndex_i = 1, TotalSegments = 1, RequestID = None,
          Flags = 1, Hashmap = hashmap rs\<rparr> = Inr (advBody rs)"
proof -
  have g: "link_keys_ok (C, Signing a, Encryption a) (Some iv)" using ok by (simp add: link_keys_ok_def)
  from link_box.sealed [OF g, of "prefix @ body"] obtain wire where
    w: "LinkTokenEncrypt C (Some iv) (prefix @ body) (Signing a) (Encryption a) = Inr wire" "LinkTokenDecrypt C wire (Signing a) (Encryption a) = Inr (prefix @ body)"
    by (auto simp: link_seal_def link_unseal_def)
  have ps: "SplitParts wire \<noteq> []" "length (SplitParts wire) \<le> 2281"
    using new w(1) by (auto simp: NewResourceSender_def Let_def split: if_splits)
  obtain r hm where r: "pick_salt C (SplitParts wire) (take 4 salts) = Inr (r, hm)"
    using new w(1) ps by (auto simp: NewResourceSender_def Let_def split: if_splits sum.splits)
  let ?h = "ResourceHash C body r"
  obtain adv where adv: "PackResourceAdv M \<lparr>TransferSize = int (length wire), DataSize = int (length body), NumParts = int (length (SplitParts wire)), Hash = ?h,
          RandomHash_r = r, OriginalHash = ?h, SegmentIndex_i = 1, TotalSegments = 1, RequestID = None, Flags = 1, Hashmap = hm\<rparr> = Inr adv"
    using new w(1) ps r by (auto simp: NewResourceSender_def Let_def split: if_splits sum.splits)
  have rs: "rs = \<lparr>linkID_s = ID a, resourceHash = ?h, randomR = r, bodyPrefix = prefix, expectedProof = ResourceExpectedProof C body ?h,
     originalLen = length body, transferLen = length wire, parts = SplitParts wire, hashmap = hm, advBody = adv,
     linkSigning = Signing a, linkEncryption = Encryption a, state = ResourceStateQueued, gotFirstReq = False, advRetries = 0, deliveredParts = 0\<rparr>"
    using new w(1) ps r adv by (simp add: NewResourceSender_def Let_def split: if_splits)
  note bh = BuildHashmap_Inr(1,2) [OF pick_salt_Inr [OF r]]
  show thesis
    by (rule that [of wire]) (use w(2) ps adv bh in \<open>simp_all add: rs mhs_def\<close>)
qed

lemma filter_all_length: "length (filter P xs) = length xs \<longleftrightarrow> (\<forall>x \<in> set xs. P x)"
  by (metis filter_True length_filter_less nat_less_le)

text \<open>The receiver opened from the sender's advertisement.\<close>

lemma opened_inv:
  assumes s: "sender_ok C rs" and wire: "parts rs = SplitParts wire" "transferLen rs = length wire" "originalLen rs = length body" "length (randomR rs) = 4"
    and pack: "PackResourceAdv M \<lparr>TransferSize = int (length wire), DataSize = int (length body), NumParts = int (length (parts rs)), Hash = resourceHash rs,
          RandomHash_r = randomR rs, OriginalHash = resourceHash rs, SegmentIndex_i = 1, TotalSegments = 1, RequestID = None,
          Flags = 1, Hashmap = hashmap rs\<rparr> = Inr (advBody rs)"
    and codec: "\<And>x b. marshal_adv M x = Some b \<Longrightarrow> unmarshal_adv M b = Some x" and adv: "ParseResourceAdv M (advBody rs) = Inr adv"
    and b: "ID b = linkID_s rs" "Signing b = linkSigning rs" "Encryption b = linkEncryption rs"
  shows "transfer_inv C rs (new_receiver b adv)"
proof -
  let ?n = "length (parts rs)"
  have d: "digests_ok C" "hashmap rs = concat (mhs C rs)" "0 < ?n" using s by (auto simp: sender_ok_def)
  have hl: "length (hashmap rs) = 4 * ?n" using length_concat_4 [of "mhs C rs"] mhs_4 [OF d(1)] by (simp add: d(2))
  define x where "x = \<lparr>TransferSize = int (length wire), DataSize = int (length body), NumParts = int ?n, Hash = resourceHash rs,
          RandomHash_r = randomR rs, OriginalHash = resourceHash rs, SegmentIndex_i = 1, TotalSegments = 1, RequestID = None,
          Flags = 1, Hashmap = take (min ?n 74 * 4) (hashmap rs)\<rparr>"
  have "marshal_adv M x = Some (advBody rs)"
    using pack by (auto simp: PackResourceAdv_def Let_def x_def split: if_splits option.splits)
  then have x: "adv = x" using codec ParseResourceAdv_Inr(1) [OF adv] by simp
  let ?rr = "new_receiver b adv"
  have hm: "hashmap_r ?rr = take (min ?n 74 * 4) (hashmap rs) @ replicate (4 * ?n - min ?n 74 * 4) 0" "hashmapKnownPrefix ?rr = min ?n 74"
    using hl by (simp_all add: new_receiver_def Let_def x x_def min_def mult.commute)
  have slot: "map_slot (hashmap_r ?rr) i = mhs C rs ! i" if "i < min ?n 74" for i
  proof -
    let ?h = "take (min ?n 74 * 4) (hashmap rs)"
    have "4 * i + 4 \<le> length ?h" using that by (auto simp: hl min_def)
    then have "map_slot (hashmap_r ?rr) i = map_slot ?h i" by (simp add: hm slot_left)
    also have "\<dots> = map_slot (hashmap rs) i" using slot_take [OF that, of "hashmap rs"] by (simp add: hl mult.commute)
    finally show ?thesis using that sender_slot [OF s, of i] by simp
  qed
  have "known_ok C rs ?rr"
    using slot hm hl d(3) b wire by (auto simp: known_ok_def new_receiver_def Let_def x x_def min_def)
  moreover have "received_ok rs ?rr" using d(3) by (auto simp: received_ok_def frontier_def new_receiver_def Let_def x x_def)
  ultimately show ?thesis by (simp add: transfer_inv_def)
qed

text \<open>A receiver that has every part assembles the body, and the sender accepts its proof.\<close>

lemma finished:
  assumes s: "sender_ok C rs" and inv: "transfer_inv C rs rr" and all: "\<not> receivedCount rr < length (parts_r rr)"
    and wire: "LinkTokenDecrypt C wire (linkSigning rs) (linkEncryption rs) = Inr (prefix @ body)" "parts rs = SplitParts wire" "transferLen rs = length wire"
      "originalLen rs = length body" "resourceHash rs = ResourceHash C body (randomR rs)" "expectedProof rs = ResourceExpectedProof C body (resourceHash rs)"
    and prefix: "length prefix = 4"
  shows "\<exists>rr' pkt p rs'. receiver_finish C (\<lambda>_. True) ivr b rr = (rr', [pkt], Returned None, Some body) \<and> state_r rr' = ResourceStateComplete
    \<and> ParseResourceProof (Data pkt) = Inr p \<and> ResourceHash_p p = resourceHash rs \<and> sender_step C M bc iv' (SProof p) rs = (rs', [], Returned None) \<and> state rs' = ResourceStateComplete"
proof -
  have kn: "known_ok C rs rr" and re: "received_ok rs rr" using inv by (auto simp: transfer_inv_def)
  have len: "length (parts_r rr) = length (parts rs)" "length (receivedFlags rr) = length (parts rs)" using kn re by (auto simp: known_ok_def received_ok_def)
  have "length (filter (\<lambda>b. b) (receivedFlags rr)) = length (receivedFlags rr)"
    using all re len length_filter_le [of "\<lambda>b. b" "receivedFlags rr"] by (simp add: received_ok_def)
  then have "\<forall>x \<in> set (receivedFlags rr). x" by (metis filter_all_length)
  then have "\<forall>i < length (parts rs). receivedFlags rr ! i" using len(2) by (simp add: all_set_conv_all_nth)
  then have "parts_r rr = parts rs" using received_D(1) [OF inv] len(1) by (intro nth_equalityI) auto
  then have c: "concat (parts_r rr) = wire" by (simp add: wire)
  have k: "linkSigning_r rr = linkSigning rs" "linkEncryption_r rr = linkEncryption rs" "resourceHash_r rr = resourceHash rs" "randomR_r rr = randomR rs"
    "expectedSize rr = int (length wire)" "dataSize rr = int (length body)" "linkID_r rr = linkID_s rs"
    using kn wire by (auto simp: known_ok_def)
  have so: "length (resourceHash rs) = 32" "length (linkID_s rs) = 16" "digests_ok C" using s by (auto simp: sender_ok_def)
  have as: "assemble C rr = Inr body"
    using c k wire(1,5) prefix by (simp add: assemble_def Let_def)
  have el: "length (ResourceExpectedProof C body (resourceHash rs)) = 32" using so by (simp add: ResourceExpectedProof_def length_sha256)
  let ?p = "\<lparr>ResourceHash_p = resourceHash rs, FullProof = ResourceExpectedProof C body (resourceHash rs)\<rparr>"
  let ?pkt = "link_packet (linkID_s rs) PacketProof ContextResourcePRF (resourceHash rs @ ResourceExpectedProof C body (resourceHash rs))"
  have pr: "broadcastProof C (\<lambda>_. True) rr = ([?pkt], None)"
    using c k wire(1) prefix so el by (simp add: broadcastProof_def BuildResourceProof_def buildResourceCtxPacket_def key_lens Let_def)
  have "ParseResourceProof (Data ?pkt) = Inr ?p" using so el by (simp add: link_packet_def ParseResourceProof_def)
  moreover have "sender_step C M bc iv' (SProof ?p) rs = (rs\<lparr>state := ResourceStateComplete\<rparr>, [], Returned None)"
    by (simp add: sender_step_def wire(6))
  ultimately show ?thesis using as pr by (intro exI conjI) (simp add: receiver_finish_def, simp, simp, simp, simp, simp)
qed



text \<open>A transfer of one part, from the link used to evaluate the model.\<close>

definition demo_wire :: bytes where
  "demo_wire = replicate 16 9 @ [9, 9, 9, 9, 8, 11, 10] @ replicate 9 0 @ replicate 32 1"

definition demo_sent :: ResourceAdvertisement where
  "demo_sent = \<lparr>TransferSize = 64, DataSize = 3, NumParts = 1, Hash = [1, 2, 3, 7, 7, 7, 7] @ replicate 25 0, RandomHash_r = [7, 7, 7, 7],
     OriginalHash = [1, 2, 3, 7, 7, 7, 7] @ replicate 25 0, SegmentIndex_i = 1, TotalSegments = 1, RequestID = None, Flags = 1, Hashmap = [9, 9, 9, 9]\<rparr>"

definition demo_transfer_msgpack :: Resource_Msgpack where
  "demo_transfer_msgpack = demo_msgpack\<lparr>marshal_adv := (\<lambda>a. if a = demo_sent then Some [1] else None), unmarshal_adv := (\<lambda>b. Some demo_sent)\<rparr>"

lemma demo_seal: "LinkTokenEncrypt demo_crypto (Some (replicate 16 9)) [0, 0, 0, 0, 1, 2, 3] (replicate 32 1) (replicate 32 2) = Inr demo_wire"
  by code_simp

lemma demo_split: "SplitParts demo_wire = [demo_wire]"
  by code_simp

lemma demo_hashmap: "BuildHashmap demo_crypto [demo_wire] [7, 7, 7, 7] = Inr [9, 9, 9, 9]"
  by code_simp

lemma demo_pack: "PackResourceAdv demo_transfer_msgpack demo_sent = Inr [1]"
  by (simp add: PackResourceAdv_def demo_transfer_msgpack_def demo_sent_def wrap64_def Let_def)

lemma demo_length: "length demo_wire = 64"
  by (simp add: demo_wire_def)

lemma demo_pack':
  "PackResourceAdv demo_transfer_msgpack \<lparr>TransferSize = 64, DataSize = 3, NumParts = 1, Hash = Hash demo_sent, RandomHash_r = [7, 7, 7, 7],
     OriginalHash = Hash demo_sent, SegmentIndex_i = 1, TotalSegments = 1, RequestID = None, Flags = 1, Hashmap = [9, 9, 9, 9]\<rparr> = Inr [1]"
  using demo_pack by (simp add: demo_sent_def)


end
