(* ===== verification/Transport.thy ===== *)
theory Transport
  imports Announce Resource_Transfer
begin

text \<open>
  The transport, \<open>internal/rns/transport.go\<close> and \<open>resource_dispatch.go\<close>: the table of known identities, local destinations, routing of inbound
  packets, path requests, links used for sending, and the link sweeper. A handler is a function on the transport that also returns
  its effects in order: frames handed to interfaces, callbacks, and messages to the goroutines of resource transfers.
  Callbacks, interfaces, channels and transfers are addresses. \<open>Env\<close> holds what a call draws from outside.
\<close>

section \<open>State\<close>

text \<open>A nil \<open>TransportID\<close> is the empty list.\<close>

record KnownIdentity =
  DestHash_k :: bytes
  PublicKey_k :: bytes
  NameHash_k :: bytes
  AppData_k :: bytes
  LastSeen_k :: time
  LastRandom :: bytes
  Hops_k :: byte
  TransportID_k :: bytes

definition X25519Public_k :: "KnownIdentity \<Rightarrow> bytes" where
  "X25519Public_k k = take 32 (PublicKey_k k)"

definition Ed25519Public_k :: "KnownIdentity \<Rightarrow> bytes" where
  "Ed25519Public_k k = drop 32 (PublicKey_k k)"

record LocalDestination =
  DestHash_d :: bytes
  Identity_d :: "Identity option"
  OnPacket :: "nat option"
  OnLinkPlaintext :: "nat option"
  BuildAnnounce_d :: "nat option"

record linkLifetime =
  keepalive :: duration
  idle :: duration
  sweep :: duration

record Transport =
  interfaces :: "nat list"
  known :: "(string, KnownIdentity) gomap"
  locals :: "(string, LocalDestination) gomap"
  announceHandlers :: "nat list"
  pathRequestsSent :: "(string, time) gomap"
  pathResponseTagsSeen :: "(string, time) gomap"
  initiatorIdentity :: "Identity option"
  linkManager :: LinkManager
  lifetime :: "linkLifetime option"

definition PathRequestDedupWindow :: duration where "PathRequestDedupWindow = 60 * second"
definition PathResponseTagDedupWindow :: duration where "PathResponseTagDedupWindow = 30 * second"
definition KnownIdentityCapacity :: nat where "KnownIdentityCapacity = 4096"

definition NewTransport :: Transport where
  "NewTransport = \<lparr>interfaces = [], known = [], locals = [], announceHandlers = [], pathRequestsSent = [], pathResponseTagsSeen = [],
     initiatorIdentity = None, linkManager = NewLinkManager, lifetime = None\<rparr>"

datatype transport_error =
    BadTarget nat | InvalidLocal | NoInterfaces | PackFailed packet_error | SendError | PathFailed path_error
  | NoSessionKeys | LinkFailed link_error | ErrLinkPeerUnknown | ErrLinkHandshakeTimeout | ErrLinkProofTimeout
  | ErrLinkSendFailed transport_error | HandshakeFailed | NotActive LinkState | HashFailed packet_error | ResourceFailed resource_error

datatype effect =
    Send nat bytes
  | Retransmit Packet
  | OnPacketCall nat Packet
  | OnLinkCall delivery
  | OnAnnounceCall nat Announce
  | ToSender nat sender_event
  | ToReceiver nat receiver_event
  | StartReceiver nat ResourceReceiver
  | SignalWaiter nat

text \<open>The clock when a handler starts and when it ends, whether an interface takes a frame, the entropy drawn, the address of
  the next object, and what the callbacks return.\<close>

record Env =
  now_e :: time
  later_e :: time
  send_ok :: "nat \<Rightarrow> bytes \<Rightarrow> bool"
  scalar_e :: "bytes option"
  seed_e :: "bytes option"
  iv_e :: "bytes option"
  iv2_e :: "bytes option"
  tag_e :: "bytes option"
  fresh_e :: nat
  build_e :: "nat \<Rightarrow> byte \<Rightarrow> Packet option"
  aspect_e :: "nat \<Rightarrow> bytes \<Rightarrow> bool"

section \<open>Registration\<close>

definition AddInterface :: "nat \<Rightarrow> Transport \<Rightarrow> Transport" where
  "AddInterface i t = t\<lparr>interfaces := interfaces t @ [i]\<rparr>"

definition RegisterLocal :: "LocalDestination option \<Rightarrow> Transport \<Rightarrow> Transport \<times> transport_error option" where
  "RegisterLocal d t =
     (case d of None \<Rightarrow> (t, Some InvalidLocal) | Some d \<Rightarrow>
        if OnPacket d = None \<or> length (DestHash_d d) \<noteq> IdentityHashLen then (t, Some InvalidLocal)
        else (t\<lparr>locals := AList.update (hex_encode (DestHash_d d)) d (locals t)\<rparr>, None))"

definition RegisterAnnounceHandler :: "nat \<Rightarrow> Transport \<Rightarrow> Transport" where
  "RegisterAnnounceHandler h t = t\<lparr>announceHandlers := announceHandlers t @ [h]\<rparr>"

definition SetInitiatorIdentity :: "Identity option \<Rightarrow> Transport \<Rightarrow> Transport" where
  "SetInitiatorIdentity ident t = t\<lparr>initiatorIdentity := ident\<rparr>"

definition Recall :: "bytes \<Rightarrow> Transport \<Rightarrow> KnownIdentity option" where
  "Recall destHash t = map_of (known t) (hex_encode destHash)"

definition Restore :: "KnownIdentity option \<Rightarrow> Transport \<Rightarrow> Transport" where
  "Restore k t =
     (case k of None \<Rightarrow> t | Some k \<Rightarrow>
        if length (DestHash_k k) \<noteq> IdentityHashLen \<or> length (PublicKey_k k) \<noteq> PublicKeyLen then t
        else t\<lparr>known := AList.update (hex_encode (DestHash_k k)) k (known t)\<rparr>)"

definition KnownSnapshot :: "Transport \<Rightarrow> KnownIdentity list" where
  "KnownSnapshot t = map snd (known t)"

section \<open>Broadcasts\<close>

definition Broadcast :: "(nat \<Rightarrow> bytes \<Rightarrow> bool) \<Rightarrow> Packet \<Rightarrow> Transport \<Rightarrow> (nat \<times> bytes) list \<times> transport_error option" where
  "Broadcast ok p t =
     (case Pack p of Inl e \<Rightarrow> ([], Some (PackFailed e)) | Inr wire \<Rightarrow>
        if interfaces t = [] then ([], Some NoInterfaces)
        else (map (\<lambda>i. (i, wire)) (interfaces t), if \<forall>i \<in> set (interfaces t). ok i wire then None else Some SendError))"

definition emit :: "Env \<Rightarrow> Packet \<Rightarrow> Transport \<Rightarrow> effect list \<times> transport_error option" where
  "emit e p t = (case Broadcast (send_ok e) p t of (ws, err) \<Rightarrow> (map (\<lambda>(i, w). Send i w) ws, err))"

definition broadcastWithRetransmits :: "Env \<Rightarrow> Packet \<Rightarrow> Transport \<Rightarrow> effect list" where
  "broadcastWithRetransmits e pkt t =
     (case emit e pkt t of (fx, None) \<Rightarrow> fx @ [Retransmit pkt] | (fx, Some err) \<Rightarrow> fx)"

definition applyMultihopRouting :: "Packet \<Rightarrow> bytes \<Rightarrow> Packet" where
  "applyMultihopRouting p transportID =
     (if length transportID \<noteq> IdentityHashLen then p
      else p\<lparr>HeaderType := HeaderType2, TransportType := NetworkTransport, TransportID := transportID\<rparr>)"

section \<open>Path requests\<close>

definition RequestPath :: "Env \<Rightarrow> bytes \<Rightarrow> Transport \<Rightarrow> Transport \<times> effect list \<times> transport_error option" where
  "RequestPath e target t =
     (if length target \<noteq> IdentityHashLen then (t, [], Some (BadTarget (length target)))
      else
        (let key = hex_encode target;
             swept = filter (\<lambda>(k, ts). \<not> now_e e - ts > PathRequestDedupWindow) (pathRequestsSent t);
             recent = (case map_of swept key of Some lastAt \<Rightarrow> now_e e - lastAt < PathRequestDedupWindow | None \<Rightarrow> False)
         in if recent then (t\<lparr>pathRequestsSent := swept\<rparr>, [], None)
            else
              (let t' = t\<lparr>pathRequestsSent := AList.update key (now_e e) swept\<rparr>
               in case BuildPathRequest (tag_e e) target of Inl err \<Rightarrow> (t', [], Some (PathFailed err))
                  | Inr pkt \<Rightarrow> (case emit e pkt t' of (fx, err) \<Rightarrow> (t', fx, err)))))"

definition pathRequestWellKnownHash :: bytes where
  "pathRequestWellKnownHash = the (hex_decode PathRequestDestHashHex)"

definition isPathRequestDestHash :: "bytes \<Rightarrow> bool" where
  "isPathRequestDestHash b \<longleftrightarrow> b = pathRequestWellKnownHash"

definition handlePathRequest :: "Env \<Rightarrow> Packet \<Rightarrow> Transport \<Rightarrow> Transport \<times> effect list" where
  "handlePathRequest e p t =
     (case PathRequestTarget (Data p) of Inl _ \<Rightarrow> (t, []) | Inr target \<Rightarrow>
        if length (Data p) < IdentityHashLen * 2 then (t, [])
        else
          (let tagKey = hex_encode (drop (length (Data p) - IdentityHashLen) (Data p));
               swept = filter (\<lambda>(k, ts). \<not> now_e e - ts > PathResponseTagDedupWindow) (pathResponseTagsSeen t);
               recent = (case map_of swept tagKey of Some lastAt \<Rightarrow> now_e e - lastAt < PathResponseTagDedupWindow | None \<Rightarrow> False)
           in if recent then (t\<lparr>pathResponseTagsSeen := swept\<rparr>, [])
              else
                (let t' = t\<lparr>pathResponseTagsSeen := AList.update tagKey (now_e e) swept\<rparr>
                 in case map_of (locals t) (hex_encode target) of None \<Rightarrow> (t', []) | Some local \<Rightarrow>
                    case BuildAnnounce_d local of None \<Rightarrow> (t', []) | Some cb \<Rightarrow>
                    case build_e e cb ContextPathResponse of None \<Rightarrow> (t', [])
                    | Some pkt \<Rightarrow> (t', broadcastWithRetransmits e pkt t'))))"

section \<open>Announces\<close>

text \<open>The loop over the table: the first of the entries with the least \<open>LastSeen\<close>, in the order of iteration.\<close>

fun oldest :: "(string, KnownIdentity) gomap \<Rightarrow> string \<Rightarrow> time \<Rightarrow> string" where
  "oldest [] oldestKey oldestTime = oldestKey"
| "oldest ((k, v) # m) oldestKey oldestTime =
     (if oldestKey = [] \<or> LastSeen_k v < oldestTime then oldest m k (LastSeen_k v) else oldest m oldestKey oldestTime)"

definition known_entry :: "time \<Rightarrow> Announce \<Rightarrow> KnownIdentity" where
  "known_entry now a = \<lparr>DestHash_k = DestHash_a a, PublicKey_k = PublicKey_a a, NameHash_k = NameHash_a a, AppData_k = AppData a, LastSeen_k = now,
     LastRandom = RandomHash a, Hops_k = Hops_a a, TransportID_k = TransportID_a a\<rparr>"

definition remember :: "time \<Rightarrow> Announce \<Rightarrow> (string, KnownIdentity) gomap \<Rightarrow> (string, KnownIdentity) gomap option" where
  "remember now a m =
     (let key = hex_encode (DestHash_a a)
      in case map_of m key of
           Some prev \<Rightarrow>
             if bytesEqual (LastRandom prev) (RandomHash a) then None
             else if PublicKey_k prev \<noteq> [] \<and> \<not> bytesEqual (PublicKey_k prev) (PublicKey_a a) then None
             else Some (AList.update key (known_entry now a) m)
         | None \<Rightarrow>
             (let m' = (if length m \<ge> KnownIdentityCapacity then AList.delete (oldest m [] 0) m else m)
              in Some (AList.update key (known_entry now a) m')))"

definition handleAnnounce_t :: "Primitives \<Rightarrow> Env \<Rightarrow> Packet \<Rightarrow> Transport \<Rightarrow> Transport \<times> effect list" where
  "handleAnnounce_t C e p t =
     (case ParseAnnounce p of Inl _ \<Rightarrow> (t, []) | Inr a \<Rightarrow>
      case Verify C a of Some _ \<Rightarrow> (t, []) | None \<Rightarrow>
      case remember (now_e e) a (known t) of None \<Rightarrow> (t, [])
      | Some m \<Rightarrow> (t\<lparr>known := m\<rparr>, map (\<lambda>h. OnAnnounceCall h a) (filter (\<lambda>h. aspect_e e h (NameHash_a a)) (announceHandlers t))))"

section \<open>Data and links\<close>

definition handleData :: "Primitives \<Rightarrow> Env \<Rightarrow> Packet \<Rightarrow> Transport \<Rightarrow> Transport \<times> effect list" where
  "handleData C e p t =
     (case map_of (locals t) (hex_encode (DestHash p)) of None \<Rightarrow> (t, []) | Some dest \<Rightarrow>
        (let proofs =
               (case Identity_d dest of
                  Some ident \<Rightarrow>
                    if Context p = ContextNone \<and> DestinationType p = DestinationSingle
                    then (case ProveOpportunistic C ident p of Inl _ \<Rightarrow> [] | Inr pf \<Rightarrow> fst (emit e pf t))
                    else []
                | None \<Rightarrow> [])
         in (t, proofs @ (case OnPacket dest of Some cb \<Rightarrow> [OnPacketCall cb p] | None \<Rightarrow> []))))"

definition handleLinkRequest :: "Primitives \<Rightarrow> Env \<Rightarrow> Packet \<Rightarrow> Transport \<Rightarrow> Transport \<times> effect list" where
  "handleLinkRequest C e p t =
     (case map_of (locals t) (hex_encode (DestHash p)) of None \<Rightarrow> (t, []) | Some dest \<Rightarrow>
      case Identity_d dest of None \<Rightarrow> (t, []) | Some ident \<Rightarrow>
      case AcceptIncomingLinkRequest C (scalar_e e) (now_e e) p ident None (linkManager t) of Inl _ \<Rightarrow> (t, [])
      | Inr (lm, link, lrProof) \<Rightarrow>
          (let t' = t\<lparr>linkManager := put_link (link\<lparr>OnInboundData := OnLinkPlaintext dest\<rparr>) lm\<rparr>
           in (t', broadcastWithRetransmits e lrProof t')))"

definition sendLRRTT :: "Primitives \<Rightarrow> Env \<Rightarrow> bytes \<Rightarrow> Link \<Rightarrow> 64 word \<Rightarrow> Transport \<Rightarrow> effect list \<times> transport_error option" where
  "sendLRRTT C e linkID link rttSec t =
     (if Signing link = [] \<or> Encryption link = [] then ([], Some NoSessionKeys)
      else case BuildLinkRTT C (iv_e e) linkID (Signing link) (Encryption link) rttSec of
             Inl err \<Rightarrow> ([], Some (LinkFailed err))
           | Inr pkt \<Rightarrow> emit e pkt t)"

definition sendLinkIdentify :: "Primitives \<Rightarrow> Env \<Rightarrow> bytes \<Rightarrow> Link \<Rightarrow> Identity \<Rightarrow> Transport \<Rightarrow> effect list \<times> transport_error option" where
  "sendLinkIdentify C e linkID link ident t =
     (if Signing link = [] \<or> Encryption link = [] then ([], Some NoSessionKeys)
      else case BuildLinkIdentify C (iv2_e e) linkID (Signing link) (Encryption link) ident of
             Inl err \<Rightarrow> ([], Some (LinkFailed err))
           | Inr pkt \<Rightarrow> emit e pkt t)"

text \<open>The IEEE 754 bits of the constant 0.05.\<close>

definition rtt_005 :: "64 word" where "rtt_005 = 0x3FA999999999999A"

definition handleLRProof_t :: "Primitives \<Rightarrow> Env \<Rightarrow> Packet \<Rightarrow> Transport \<Rightarrow> Transport \<times> effect list" where
  "handleLRProof_t C e p t =
     (case ParseLRProof p of Inl _ \<Rightarrow> (t, []) | Inr parsed \<Rightarrow>
      case Get_link (LinkID_p parsed) (linkManager t) of None \<Rightarrow> (t, []) | Some link \<Rightarrow>
        if peerDestHash link = [] then (t, [])
        else case Recall (peerDestHash link) t of None \<Rightarrow> (t, []) | Some k \<Rightarrow>
          case HandleLRProof C (now_e e) p (Ed25519Public_k k) (linkManager t) of Inl _ \<Rightarrow> (t, []) | Inr (lm, link') \<Rightarrow>
            (let t' = t\<lparr>linkManager := lm\<rparr>
             in (t', fst (sendLRRTT C e (LinkID_p parsed) link' rtt_005 t')
                  @ (case initiatorIdentity t of None \<Rightarrow> []
                     | Some ident \<Rightarrow> fst (sendLinkIdentify C e (LinkID_p parsed) link' ident t')))))"

definition handleKeepalive :: "Env \<Rightarrow> Packet \<Rightarrow> Transport \<Rightarrow> Transport \<times> effect list" where
  "handleKeepalive e p t =
     (case Get_link (DestHash p) (linkManager t) of None \<Rightarrow> (t, []) | Some l \<Rightarrow>
        (let t' = t\<lparr>linkManager := put_link (l\<lparr>LastActivity := now_e e\<rparr>) (linkManager t)\<rparr>
         in if responderIdentity l \<noteq> None \<and> Data p = [keepalivePing]
            then (case BuildLinkKeepalivePong (ID l) of Inl _ \<Rightarrow> (t', []) | Inr pong \<Rightarrow> (t', fst (emit e pong t')))
            else (t', [])))"

text \<open>Who signs the acknowledgement of a link packet: the responder's identity, else the initiator's ephemeral key.\<close>

definition link_signer :: "Primitives \<Rightarrow> Link \<Rightarrow> (bytes \<Rightarrow> bytes) option" where
  "link_signer C l =
     (case responderIdentity l of Some ident \<Rightarrow> Some (Sign C ident)
      | None \<Rightarrow> if initiatorEd25519Priv l \<noteq> [] then Some (ed_sign C (initiatorEd25519Priv l)) else None)"

definition handleLinkPayload :: "Primitives \<Rightarrow> Env \<Rightarrow> Packet \<Rightarrow> Transport \<Rightarrow> Transport \<times> effect list" where
  "handleLinkPayload C e p t =
     (case HandleLinkData C (now_e e) p (linkManager t) of
        (lm, Inl _) \<Rightarrow> (t\<lparr>linkManager := lm\<rparr>, [])
      | (lm, Inr (plaintext, link, d)) \<Rightarrow>
          (let t' = t\<lparr>linkManager := lm\<rparr>
           in case link_signer C link of None \<Rightarrow> (t', [OnLinkCall d]) | Some sign \<Rightarrow>
              case BuildLinkProof C (ID link) sign p of Inl _ \<Rightarrow> (t', [OnLinkCall d])
              | Inr pf \<Rightarrow> (t', OnLinkCall d # broadcastWithRetransmits e pf t')))"

definition handleLinkProof :: "Primitives \<Rightarrow> Env \<Rightarrow> Packet \<Rightarrow> Transport \<Rightarrow> Transport \<times> effect list" where
  "handleLinkProof C e p t =
     (case Get_link (DestHash p) (linkManager t) of None \<Rightarrow> (t, []) | Some link \<Rightarrow>
        if peerEd25519Pub link = [] then (t, [])
        else case ValidateLinkProof C p (peerEd25519Pub link) of Inl _ \<Rightarrow> (t, []) | Inr packetHash \<Rightarrow>
          (case signalProof (hex_encode packetHash) (link\<lparr>LastActivity := now_e e\<rparr>) of (link', ch) \<Rightarrow>
             (t\<lparr>linkManager := put_link link' (linkManager t)\<rparr>, case ch of None \<Rightarrow> [] | Some c \<Rightarrow> [SignalWaiter c])))"

definition touch_link :: "bytes \<Rightarrow> time \<Rightarrow> Transport \<Rightarrow> Transport" where
  "touch_link i now t = (case Get_link i (linkManager t) of None \<Rightarrow> t
     | Some l \<Rightarrow> t\<lparr>linkManager := put_link (l\<lparr>LastActivity := now\<rparr>) (linkManager t)\<rparr>)"

section \<open>Resource packets\<close>

definition handleResourceAdv :: "Primitives \<Rightarrow> Resource_Msgpack \<Rightarrow> Env \<Rightarrow> Link \<Rightarrow> bytes \<Rightarrow> Transport \<Rightarrow> Transport \<times> effect list" where
  "handleResourceAdv C M e link plaintext t =
     (case ParseResourceAdv M plaintext of Inl _ \<Rightarrow> (t, []) | Inr adv \<Rightarrow>
      case openResourceReceiver (fresh_e e) link adv (linkManager t) of
        (lm, Inr rr) \<Rightarrow> (t\<lparr>linkManager := lm\<rparr>, [StartReceiver (fresh_e e) rr])
      | (lm, Inl _) \<Rightarrow>
          (let t' = t\<lparr>linkManager := lm\<rparr>
           in (t', concat (map (\<lambda>p. fst (emit e p t')) (fst (broadcastResourceCancel C (\<lambda>_. True) (iv_e e) link (Hash adv) False))))))"

definition handleResourceReq :: "Link \<Rightarrow> bytes \<Rightarrow> Transport \<Rightarrow> Transport \<times> effect list" where
  "handleResourceReq link plaintext t =
     (case ParseResourceReq plaintext of Inl _ \<Rightarrow> (t, []) | Inr q \<Rightarrow>
      case lookupResourceSender (ID link) (ResourceHash_q q) (linkManager t) of None \<Rightarrow> (t, [])
      | Some a \<Rightarrow> (t, [ToSender a (SRequest q)]))"

definition handleResourceHmu :: "Resource_Msgpack \<Rightarrow> Link \<Rightarrow> bytes \<Rightarrow> Transport \<Rightarrow> Transport \<times> effect list" where
  "handleResourceHmu M link plaintext t =
     (case ParseResourceHmu M plaintext of Inl _ \<Rightarrow> (t, []) | Inr h \<Rightarrow>
      case lookupResourceReceiver (ID link) (ResourceHash_h h) (linkManager t) of None \<Rightarrow> (t, [])
      | Some a \<Rightarrow> (t, [ToReceiver a (RHmu h)]))"

definition handleResourceCancelInbound :: "Link \<Rightarrow> bytes \<Rightarrow> bool \<Rightarrow> Transport \<Rightarrow> Transport \<times> effect list" where
  "handleResourceCancelInbound link plaintext isICL t =
     (case ParseResourceCancel plaintext of Inl _ \<Rightarrow> (t, []) | Inr h \<Rightarrow>
        if isICL then (case lookupResourceReceiver (ID link) h (linkManager t) of Some a \<Rightarrow> (t, [ToReceiver a RCancel]) | None \<Rightarrow> (t, []))
        else (case lookupResourceSender (ID link) h (linkManager t) of Some a \<Rightarrow> (t, [ToSender a SCancel]) | None \<Rightarrow> (t, [])))"

definition handleResourceControl :: "Primitives \<Rightarrow> Resource_Msgpack \<Rightarrow> Env \<Rightarrow> Packet \<Rightarrow> Transport \<Rightarrow> Transport \<times> effect list" where
  "handleResourceControl C M e p t =
     (case Get_link (DestHash p) (linkManager t) of None \<Rightarrow> (t, []) | Some link \<Rightarrow>
        if State link \<noteq> LinkActive then (t, [])
        else case LinkTokenDecrypt C (Data p) (Signing link) (Encryption link) of Inl _ \<Rightarrow> (t, []) | Inr plaintext \<Rightarrow>
          if Context p = ContextResourceADV then handleResourceAdv C M e link plaintext t
          else if Context p = ContextResourceREQ then handleResourceReq link plaintext t
          else if Context p = ContextResourceHMU then handleResourceHmu M link plaintext t
          else if Context p = ContextResourceICL then handleResourceCancelInbound link plaintext True t
          else if Context p = ContextResourceRCL then handleResourceCancelInbound link plaintext False t
          else (t, []))"

text \<open>The prefix is the resource key of an empty hash without its last character, the colon. A receiver that gets a part refreshes the
  activity time of its link.\<close>

definition part_receivers :: "bytes \<Rightarrow> LinkManager \<Rightarrow> nat list" where
  "part_receivers linkID lm =
     (let key = resourceKey linkID []; prefix = take (length key - 1) key
      in map snd (filter (\<lambda>(k, _). length k \<ge> length prefix \<and> take (length prefix) k = prefix) (receivers lm)))"

definition handleResourcePart :: "Env \<Rightarrow> Packet \<Rightarrow> Transport \<Rightarrow> Transport \<times> effect list" where
  "handleResourcePart e p t =
     (case part_receivers (DestHash p) (linkManager t) of [] \<Rightarrow> (t, []) | rs \<Rightarrow>
        (touch_link (DestHash p) (now_e e) t, map (\<lambda>a. ToReceiver a (RPart (Data p))) rs))"

definition handleResourceProof :: "Packet \<Rightarrow> Transport \<Rightarrow> Transport \<times> effect list" where
  "handleResourceProof p t =
     (case Get_link (DestHash p) (linkManager t) of None \<Rightarrow> (t, []) | Some link \<Rightarrow>
      case ParseResourceProof (Data p) of Inl _ \<Rightarrow> (t, []) | Inr pf \<Rightarrow>
      case lookupResourceSender (ID link) (ResourceHash_p pf) (linkManager t) of None \<Rightarrow> (t, [])
      | Some a \<Rightarrow> (t, [ToSender a (SProof pf)]))"

section \<open>The dispatcher\<close>

definition handleLinkData :: "Primitives \<Rightarrow> Resource_Msgpack \<Rightarrow> Env \<Rightarrow> Packet \<Rightarrow> Transport \<Rightarrow> Transport \<times> effect list" where
  "handleLinkData C M e p t =
     (if Context p = ContextKeepalive then handleKeepalive e p t
      else if Context p = ContextNone then handleLinkPayload C e p t
      else if Context p \<in> {ContextResourceADV, ContextResourceREQ, ContextResourceHMU, ContextResourceICL, ContextResourceRCL}
           then handleResourceControl C M e p t
      else if Context p = ContextResource then handleResourcePart e p t
      else (t, []))"

definition dispatch_packet :: "Primitives \<Rightarrow> Resource_Msgpack \<Rightarrow> Env \<Rightarrow> Packet \<Rightarrow> Transport \<Rightarrow> Transport \<times> effect list" where
  "dispatch_packet C M e p t =
     (if PacketType p = PacketAnnounce then handleAnnounce_t C e p t
      else if PacketType p = PacketData then
        (if DestinationType p = DestinationLink then handleLinkData C M e p t
         else if DestinationType p = DestinationPlain \<and> isPathRequestDestHash (DestHash p) then handlePathRequest e p t
         else handleData C e p t)
      else if PacketType p = PacketLinkRequest then handleLinkRequest C e p t
      else if PacketType p = PacketProof then
        (if DestinationType p = DestinationLink \<and> Context p = ContextLRProof then handleLRProof_t C e p t
         else if DestinationType p = DestinationLink \<and> Context p = ContextResourcePRF then handleResourceProof p t
         else if DestinationType p = DestinationLink \<and> Context p = ContextNone then handleLinkProof C e p t
         else (t, []))
      else (t, []))"

definition dispatch :: "Primitives \<Rightarrow> Resource_Msgpack \<Rightarrow> Env \<Rightarrow> bytes \<Rightarrow> Transport \<Rightarrow> Transport \<times> effect list" where
  "dispatch C M e raw t = (case ParsePacket raw of Inl _ \<Rightarrow> (t, []) | Inr p \<Rightarrow> dispatch_packet C M e p t)"

section \<open>Sending over a link\<close>

text \<open>\<open>acquireLinkTo\<close> up to \<open>AwaitActive\<close>, and what it does with its outcome; \<open>fired\<close> is whether the timer has fired.\<close>

datatype acquire = Acquired Link | Waiting Link | Refused transport_error

definition close_link :: "bytes \<Rightarrow> Transport \<Rightarrow> Transport \<times> effect list" where
  "close_link i t =
     (case CloseLink i (linkManager t) of (lm, ss, rs) \<Rightarrow>
        (t\<lparr>linkManager := lm\<rparr>, map (\<lambda>a. ToSender a SCancel) ss @ map (\<lambda>a. ToReceiver a RCancel) rs))"

definition acquireLinkTo :: "Primitives \<Rightarrow> Env \<Rightarrow> bytes \<Rightarrow> time \<Rightarrow> Transport \<Rightarrow> Transport \<times> effect list \<times> acquire" where
  "acquireLinkTo C e dest deadline t =
     (case ActiveTo dest (linkManager t) of Some link \<Rightarrow> (t, [], Acquired link) | None \<Rightarrow>
      case Recall dest t of None \<Rightarrow> (t, [], Refused ErrLinkPeerUnknown) | Some k \<Rightarrow>
      case StartLinkAsInitiator C (scalar_e e) (seed_e e) (now_e e) dest None (linkManager t) of Inl err \<Rightarrow> (t, [], Refused (LinkFailed err))
      | Inr (lm, link, lrReq) \<Rightarrow>
          (let t' = t\<lparr>linkManager := lm\<rparr>
           in case emit e (applyMultihopRouting lrReq (TransportID_k k)) t' of
                (fx, Some err) \<Rightarrow> (case close_link (ID link) t' of (t'', cx) \<Rightarrow> (t'', fx @ cx, Refused (ErrLinkSendFailed err)))
              | (fx, None) \<Rightarrow>
                  if deadline - later_e e \<le> 0 then (case close_link (ID link) t' of (t'', cx) \<Rightarrow> (t'', fx @ cx, Refused ErrLinkHandshakeTimeout))
                  else (t', fx, Waiting link)))"

definition acquire_end :: "bool \<Rightarrow> bool \<Rightarrow> time \<Rightarrow> time \<Rightarrow> Link \<Rightarrow> Transport \<Rightarrow> Transport \<times> effect list \<times> acquire" where
  "acquire_end activated fired now deadline link t =
     (if activated then (t, [], Acquired link)
      else case close_link (ID link) t of (t', cx) \<Rightarrow>
        (t', cx, Refused (if fired \<and> now > deadline then ErrLinkHandshakeTimeout else HandshakeFailed)))"

definition DefaultLinkSendTimeout :: duration where "DefaultLinkSendTimeout = 30 * second"

definition SendOverLink_start :: "Primitives \<Rightarrow> Env \<Rightarrow> bytes \<Rightarrow> duration \<Rightarrow> Transport \<Rightarrow> (Transport \<times> effect list \<times> acquire) \<times> time" where
  "SendOverLink_start C e dest timeout t =
     (let deadline = now_e e + (if timeout \<le> 0 then DefaultLinkSendTimeout else timeout)
      in (if length dest \<noteq> IdentityHashLen then (t, [], Refused (BadTarget (length dest))) else acquireLinkTo C e dest deadline t, deadline))"

text \<open>\<open>SendOverLink\<close> once it has a link, whose id is given (a closed link is no longer in the table): a resource transfer for a large payload, else a packet whose proof it waits for.\<close>

datatype sending = Transferring ResourceSender time | AwaitingProof bytes string nat time | SendReturned transport_error

definition SendOverLink :: "Primitives \<Rightarrow> Resource_Msgpack \<Rightarrow> Env \<Rightarrow> bytes option list \<Rightarrow> bytes \<Rightarrow> bytes \<Rightarrow> time \<Rightarrow> Transport
    \<Rightarrow> Transport \<times> effect list \<times> sending" where
  "SendOverLink C M e salts linkID plaintext deadline t =
     (case Get_link linkID (linkManager t) of None \<Rightarrow> (t, [], SendReturned (NotActive LinkClosed)) | Some link \<Rightarrow>
      if State link \<noteq> LinkActive then (t, [], SendReturned (NotActive (State link)))
      else if length plaintext > LinkMDU then
        (case NewResourceSender C M (tag_e e) (iv_e e) salts link plaintext of Inl err \<Rightarrow> (t, [], SendReturned (ResourceFailed err)) | Inr rs \<Rightarrow>
         case registerResourceSender (ID link) (resourceHash rs) (fresh_e e) (linkManager t) of
           (lm, Some err) \<Rightarrow> (t\<lparr>linkManager := lm\<rparr>, [], SendReturned (LinkFailed err))
         | (lm, None) \<Rightarrow> (t\<lparr>linkManager := lm\<rparr>, [], Transferring rs (max deadline (now_e e + resourceTransferTimeout (int (length plaintext))))))
      else case BuildLinkDataPacket C (iv_e e) (ID link) (Signing link) (Encryption link) plaintext of Inl err \<Rightarrow> (t, [], SendReturned (LinkFailed err))
      | Inr pkt \<Rightarrow>
          (case HashablePart pkt of Inl err \<Rightarrow> (t, [], SendReturned (HashFailed err)) | Inr hashable \<Rightarrow>
             (let hashHex = hex_encode (sha256 C hashable);
                  t' = t\<lparr>linkManager := put_link (registerProofWaiter (fresh_e e) hashHex link) (linkManager t)\<rparr>;
                  settled = t\<lparr>linkManager := put_link (clearProofWaiter hashHex (registerProofWaiter (fresh_e e) hashHex link)) (linkManager t)\<rparr>
              in case emit e pkt t' of
                   (fx, Some err) \<Rightarrow> (settled, fx, SendReturned (ErrLinkSendFailed err))
                 | (fx, None) \<Rightarrow>
                     if deadline - later_e e \<le> 0 then (settled, fx, SendReturned ErrLinkProofTimeout)
                     else (t', fx, AwaitingProof (ID link) hashHex (fresh_e e) deadline))))"

text \<open>The end of the wait: the proof arrived or the timer fired. The transfer's end: the error its \<open>Run\<close> returned.\<close>

definition proof_wait_end :: "bool \<Rightarrow> bytes \<Rightarrow> string \<Rightarrow> Transport \<Rightarrow> Transport \<times> effect list \<times> transport_error option" where
  "proof_wait_end arrived linkID hashHex t =
     (let clear = (\<lambda>t. case Get_link linkID (linkManager t) of None \<Rightarrow> t
                        | Some l \<Rightarrow> t\<lparr>linkManager := put_link (clearProofWaiter hashHex l) (linkManager t)\<rparr>)
      in if arrived then (clear t, [], None)
         else case close_link linkID t of (t', cx) \<Rightarrow> (clear t', cx, Some ErrLinkProofTimeout))"

definition transfer_end :: "resource_error option \<Rightarrow> bytes \<Rightarrow> Transport \<Rightarrow> Transport \<times> effect list \<times> transport_error option" where
  "transfer_end err linkID t =
     (case err of None \<Rightarrow> (t, [], None) | Some r \<Rightarrow>
        if r = ErrResourceTimeout \<or> r = ContextDone then (case close_link linkID t of (t', cx) \<Rightarrow> (t', cx, Some (ResourceFailed r)))
        else (t, [], Some (ResourceFailed r)))"

section \<open>The sweeper\<close>

definition DefaultLinkKeepaliveInterval :: duration where "DefaultLinkKeepaliveInterval = 4 * minute"
definition DefaultLinkIdleTimeout :: duration where "DefaultLinkIdleTimeout = 15 * minute"
definition DefaultLinkSweepInterval :: duration where "DefaultLinkSweepInterval = 30 * second"

definition zero_lifetime :: linkLifetime where "zero_lifetime = \<lparr>keepalive = 0, idle = 0, sweep = 0\<rparr>"

definition SetLinkLifetime :: "duration \<Rightarrow> duration \<Rightarrow> duration \<Rightarrow> Transport \<Rightarrow> Transport" where
  "SetLinkLifetime ka idl sw t =
     (let l = (case lifetime t of None \<Rightarrow> zero_lifetime | Some l \<Rightarrow> l)
      in t\<lparr>lifetime := Some \<lparr>keepalive = (if ka > 0 then ka else keepalive l), idle = (if idl > 0 then idl else idle l),
            sweep = (if sw > 0 then sw else sweep l)\<rparr>\<rparr>)"

definition sweeper_start :: "Transport \<Rightarrow> Transport" where
  "sweeper_start t =
     (let l = (case lifetime t of None \<Rightarrow> zero_lifetime | Some l \<Rightarrow> l)
      in t\<lparr>lifetime := Some \<lparr>keepalive = (if keepalive l = 0 then DefaultLinkKeepaliveInterval else keepalive l),
            idle = (if idle l = 0 then DefaultLinkIdleTimeout else idle l),
            sweep = (if sweep l = 0 then DefaultLinkSweepInterval else sweep l)\<rparr>\<rparr>)"

datatype sweep_action = CloseIdle bytes | Ping bytes

definition sweep_decision :: "duration \<Rightarrow> duration \<Rightarrow> time \<Rightarrow> Link \<Rightarrow> sweep_action option" where
  "sweep_decision ka idl now l =
     (if State l \<noteq> LinkActive then None
      else
        (let isInitiator = (responderIdentity l = None \<and> peerDestHash l \<noteq> []);
             idleFor = now - LastActivity l
         in if idleFor \<ge> idl then Some (CloseIdle (ID l))
            else if isInitiator \<and> idleFor \<ge> ka then Some (Ping (ID l)) else None))"

fun sweep_one :: "Env \<Rightarrow> sweep_action \<Rightarrow> Transport \<Rightarrow> Transport \<times> effect list" where
  "sweep_one e (CloseIdle i) t = close_link i t"
| "sweep_one e (Ping i) t =
     (case BuildLinkKeepalive i of Inl _ \<Rightarrow> (t, []) | Inr pkt \<Rightarrow>
        (case emit e pkt t of
           (fx, Some err) \<Rightarrow> (t, fx)
         | (fx, None) \<Rightarrow> (touch_link i (later_e e) t, fx)))"

fun sweep_run :: "Env \<Rightarrow> sweep_action list \<Rightarrow> Transport \<Rightarrow> Transport \<times> effect list" where
  "sweep_run e [] t = (t, [])"
| "sweep_run e (a # as) t = (case sweep_one e a t of (t', fx) \<Rightarrow> (case sweep_run e as t' of (t'', fx') \<Rightarrow> (t'', fx @ fx')))"

definition sweepLinks :: "Env \<Rightarrow> Transport \<Rightarrow> Transport \<times> effect list" where
  "sweepLinks e t =
     (case lifetime t of None \<Rightarrow> (t, []) | Some l \<Rightarrow>
        sweep_run e (List.map_filter (\<lambda>(_, k). sweep_decision (keepalive l) (idle l) (now_e e) k) (links (linkManager t))) t)"

end
