(* ===== verification/Transport_Run.thy ===== *)
theory Transport_Run
  imports Transport
begin

text \<open>
  Runs of the transport: every operation as a step, what the steps do to the link manager and to the table of known identities, and the
  properties that hold along every run.
\<close>

section \<open>Steps\<close>

text \<open>The entropy a step draws has the length that is asked for.\<close>

definition env_ok :: "Env \<Rightarrow> bool" where
  "env_ok e \<longleftrightarrow> (case scalar_e e of None \<Rightarrow> True | Some x \<Rightarrow> length x = 32) \<and> (case seed_e e of None \<Rightarrow> True | Some x \<Rightarrow> length x = 32)"

inductive transport_step :: "Primitives \<Rightarrow> Resource_Msgpack \<Rightarrow> time \<Rightarrow> Transport \<Rightarrow> Transport \<Rightarrow> bool" for C M where
  inbound: "env_ok e \<Longrightarrow> dispatch C M e raw t = (t', fx) \<Longrightarrow> transport_step C M (now_e e) t t'"
| request: "RequestPath e target t = (t', fx, err) \<Longrightarrow> transport_step C M (now_e e) t t'"
| acquire: "env_ok e \<Longrightarrow> acquireLinkTo C e dest deadline t = (t', fx, a) \<Longrightarrow> transport_step C M (now_e e) t t'"
| acquired: "acquire_end activated fired now deadline link t = (t', fx, a) \<Longrightarrow> transport_step C M now t t'"
| send: "SendOverLink C M e salts linkID plaintext deadline t = (t', fx, s) \<Longrightarrow> transport_step C M (now_e e) t t'"
| waited: "proof_wait_end arrived linkID hashHex t = (t', fx, err) \<Longrightarrow> transport_step C M now t t'"
| transferred: "transfer_end terr linkID t = (t', fx, err) \<Longrightarrow> transport_step C M now t t'"
| swept: "sweepLinks e t = (t', fx) \<Longrightarrow> transport_step C M (now_e e) t t'"

section \<open>What a step does to the link manager\<close>

lemma update_twice: "AList.update k v (AList.update k w m) = AList.update k v m"
  by (induction m) auto

lemma mgr_run_refl [simp]: "mgr_run C lm lm"
  by (simp add: mgr_run_def)

lemma mgr_run_trans: "mgr_run C a b \<Longrightarrow> mgr_run C b c \<Longrightarrow> mgr_run C a c"
  unfolding mgr_run_def by (rule rtranclp_trans)

lemma mgr_run_step: "mgr_step C ev a b \<Longrightarrow> mgr_run C a b"
  unfolding mgr_run_def by blast

lemma mgr_run_touch:
  "Get_link i lm = Some l \<Longrightarrow> mgr_run C lm (put_link (l\<lparr>LastActivity := now\<rparr>) lm)"
  "Get_link i lm = Some l \<Longrightarrow> mgr_run C lm (put_link (l\<lparr>OnInboundData := cb\<rparr>) lm)"
  "Get_link i lm = Some l \<Longrightarrow> mgr_run C lm (put_link (registerProofWaiter ch h l) lm)"
  "Get_link i lm = Some l \<Longrightarrow> mgr_run C lm (put_link (clearProofWaiter h l) lm)"
  "Get_link i lm = Some l \<Longrightarrow> signalProof h l = (l', ch') \<Longrightarrow> mgr_run C lm (put_link l' lm)"
  by (auto intro!: mgr_run_step intro: mgr_step.intros)

text \<open>A step that leaves the other tables alone and drives the manager through its operations.\<close>

definition link_only :: "Primitives \<Rightarrow> Transport \<Rightarrow> Transport \<Rightarrow> bool" where
  "link_only C t t' \<longleftrightarrow> mgr_run C (linkManager t) (linkManager t') \<and> known t' = known t \<and> pathRequestsSent t' = pathRequestsSent t"

lemma link_only_refl [simp]: "link_only C t t"
  by (simp add: link_only_def)

lemma link_only_lm [intro]: "mgr_run C (linkManager t) lm \<Longrightarrow> link_only C t (t\<lparr>linkManager := lm\<rparr>)"
  by (simp add: link_only_def)

lemma link_only_tags [simp]: "link_only C t (t\<lparr>pathResponseTagsSeen := m\<rparr>)"
  by (simp add: link_only_def)

lemma link_only_trans: "link_only C a b \<Longrightarrow> link_only C b c \<Longrightarrow> link_only C a c"
  unfolding link_only_def by (metis mgr_run_trans)

lemma close_link_only: "close_link i t = (t', fx) \<Longrightarrow> link_only C t t'"
  by (auto simp: close_link_def split: prod.splits intro!: mgr_run_step [OF mgr_step.close])

lemma handleLinkRequest_only: "env_ok e \<Longrightarrow> handleLinkRequest C e p t = (t', fx) \<Longrightarrow> link_only C t t'"
proof -
  assume e: "env_ok e" and h: "handleLinkRequest C e p t = (t', fx)"
  show ?thesis
  proof (cases "t' = t")
    case False
    then have "\<exists>ident cb lm l r. AcceptIncomingLinkRequest C (scalar_e e) (now_e e) p ident None (linkManager t) = Inr (lm, l, r)
      \<and> t' = t\<lparr>linkManager := put_link (l\<lparr>OnInboundData := cb\<rparr>) lm\<rparr>"
      using h by (simp add: handleLinkRequest_def Let_def split: option.splits sum.splits prod.splits) blast
    then obtain ident cb lm l r where a: "AcceptIncomingLinkRequest C (scalar_e e) (now_e e) p ident None (linkManager t) = Inr (lm, l, r)"
      and t': "t' = t\<lparr>linkManager := put_link (l\<lparr>OnInboundData := cb\<rparr>) lm\<rparr>" by blast
    from a obtain x where x: "scalar_e e = Some x"
      by (cases "scalar_e e") (auto simp: AcceptIncomingLinkRequest_def newClampedX25519_def split: sum.splits)
    from e x have "length x = 32" by (simp add: env_ok_def)
    then have s: "mgr_run C (linkManager t) lm" using mgr_run_step [OF mgr_step.accept [OF a [unfolded x]]] by blast
    from a x have "Get_link (ID l) lm = Some l" by (auto elim!: Accept_Inr)
    from mgr_run_trans [OF s mgr_run_touch(2) [OF this]] show ?thesis by (simp add: t' link_only_lm)
  qed simp
qed

lemma handleLRProof_only: "handleLRProof_t C e p t = (t', fx) \<Longrightarrow> link_only C t t'"
  by (auto simp: handleLRProof_t_def Let_def split: option.splits sum.splits if_splits intro!: mgr_run_step [OF mgr_step.lrproof])

lemma handleKeepalive_only: "handleKeepalive e p t = (t', fx) \<Longrightarrow> link_only C t t'"
  by (auto simp: handleKeepalive_def Let_def split: option.splits sum.splits if_splits intro!: mgr_run_touch(1))

lemma handleLinkPayload_only: "handleLinkPayload C e p t = (t', fx) \<Longrightarrow> link_only C t t'"
  by (auto simp: handleLinkPayload_def Let_def split: option.splits sum.splits prod.splits intro!: mgr_run_step [OF mgr_step.data])

lemma handleLinkProof_only: "handleLinkProof C e p t = (t', fx) \<Longrightarrow> link_only C t t'"
proof -
  assume h: "handleLinkProof C e p t = (t', fx)"
  show ?thesis
  proof (cases "t' = t")
    case False
    then obtain l h' l' ch where l: "Get_link (DestHash p) (linkManager t) = Some l" "signalProof h' (l\<lparr>LastActivity := now_e e\<rparr>) = (l', ch)"
      "t' = t\<lparr>linkManager := put_link l' (linkManager t)\<rparr>"
      using h by (auto simp: handleLinkProof_def split: option.splits sum.splits if_splits prod.splits)
    let ?lm = "put_link (l\<lparr>LastActivity := now_e e\<rparr>) (linkManager t)"
    have "mgr_run C (linkManager t) (put_link l' ?lm)"
      by (rule mgr_run_trans [OF mgr_run_touch(1) [OF l(1)] mgr_run_touch(5) [OF _ l(2), where i = "ID l"]]) simp
    moreover have "ID l' = ID l" using l(2) by (auto simp: signalProof_def split: option.splits)
    then have "put_link l' ?lm = put_link l' (linkManager t)" by (simp add: put_link_def update_twice)
    ultimately show ?thesis by (simp add: l(3) link_only_lm)
  qed simp
qed

lemma handleResourceAdv_only: "handleResourceAdv C M e l b t = (t', fx) \<Longrightarrow> link_only C t t'"
  by (auto simp: handleResourceAdv_def openResourceReceiver_def Let_def split: sum.splits prod.splits if_splits option.splits
      intro!: mgr_run_step [OF mgr_step.receiver])

lemma handleResourceControl_only: "handleResourceControl C M e p t = (t', fx) \<Longrightarrow> link_only C t t'"
  by (auto simp: handleResourceControl_def handleResourceReq_def handleResourceHmu_def handleResourceCancelInbound_def
      split: option.splits sum.splits if_splits elim: handleResourceAdv_only)

lemma touch_link_only: "link_only C t (touch_link i now t)"
  by (auto simp: touch_link_def split: option.splits intro!: mgr_run_touch(1))

lemma handleResourcePart_only: "handleResourcePart e p t = (t', fx) \<Longrightarrow> link_only C t t'"
  by (auto simp: handleResourcePart_def split: list.splits intro: touch_link_only)

lemma handlePathRequest_only: "handlePathRequest e p t = (t', fx) \<Longrightarrow> link_only C t t'"
  by (auto simp: handlePathRequest_def Let_def split: sum.splits if_splits option.splits)

lemma handleLinkData_only: "handleLinkData C M e p t = (t', fx) \<Longrightarrow> link_only C t t'"
  unfolding handleLinkData_def
  by (auto split: if_splits intro: handleKeepalive_only handleLinkPayload_only handleResourceControl_only handleResourcePart_only)

lemmas handler_only = handleLinkData_only handlePathRequest_only handleLinkRequest_only handleLRProof_only handleLinkProof_only

lemma dispatch_cases:
  assumes "dispatch C M e raw t = (t', fx)" and "env_ok e"
  obtains "link_only C t t'"
  | p where "ParsePacket raw = Inr p" and "PacketType p = 1" and "handleAnnounce_t C e p t = (t', fx)"
proof (cases "ParsePacket raw")
  case (Inl x)
  with assms that(1) show thesis by (simp add: dispatch_def)
next
  case (Inr p)
  show thesis
  proof (cases "PacketType p = 1")
    case True
    with assms Inr show thesis by (intro that(2) [of p]) (simp_all add: dispatch_def dispatch_packet_def)
  next
    case False
    have "handleData C e p t = (t', fx) \<Longrightarrow> t' = t" "handleResourceProof p t = (t', fx) \<Longrightarrow> t' = t"
      by (auto simp: handleData_def handleResourceProof_def Let_def split: option.splits sum.splits)
    then have "link_only C t t'"
      using assms False Inr unfolding dispatch_def dispatch_packet_def
      by (auto split: if_splits intro: handler_only)
    then show thesis by (rule that(1))
  qed
qed

lemma acquireLinkTo_only: "env_ok e \<Longrightarrow> acquireLinkTo C e dest deadline t = (t', fx, a) \<Longrightarrow> link_only C t t'"
proof -
  assume e: "env_ok e" and h: "acquireLinkTo C e dest deadline t = (t', fx, a)"
  show ?thesis
  proof (cases "\<exists>k. ActiveTo dest (linkManager t) = None \<and> Recall dest t = Some k")
    case False
    then show ?thesis using h by (auto simp: acquireLinkTo_def split: option.splits)
  next
    case True
    show ?thesis
    proof (cases "StartLinkAsInitiator C (scalar_e e) (seed_e e) (now_e e) dest None (linkManager t)")
      case (Inl err)
      then show ?thesis using h True by (auto simp: acquireLinkTo_def)
    next
      case (Inr r)
      obtain lm l req where r: "r = (lm, l, req)" by (cases r)
      from Inr r obtain x s where xs: "scalar_e e = Some x" "seed_e e = Some s"
        by (cases "scalar_e e"; cases "seed_e e") (auto simp: StartLinkAsInitiator_def newClampedX25519_def split: if_splits sum.splits option.splits)
      have "mgr_step C (EvStart req) (linkManager t) lm"
        by (rule mgr_step.start [OF Inr [unfolded r xs]]) (use e xs in \<open>auto simp: env_ok_def\<close>)
      then have s: "link_only C t (t\<lparr>linkManager := lm\<rparr>)" by (intro link_only_lm mgr_run_step)
      then show ?thesis
        using h True Inr r link_only_trans [OF s close_link_only]
        by (auto simp: acquireLinkTo_def Let_def split: option.splits prod.splits if_splits)
    qed
  qed
qed

lemma acquire_end_only: "acquire_end activated fired now deadline l t = (t', fx, a) \<Longrightarrow> link_only C t t'"
  by (auto simp: acquire_end_def split: if_splits prod.splits intro: close_link_only)

lemma SendOverLink_only: "SendOverLink C M e salts i plaintext deadline t = (t', fx, s) \<Longrightarrow> link_only C t t'"
proof -
  assume h: "SendOverLink C M e salts i plaintext deadline t = (t', fx, s)"
  have clear: "mgr_run C lm (put_link (clearProofWaiter hh (registerProofWaiter ch hh l)) lm)" if "Get_link i lm = Some l" for lm l ch hh
  proof -
    let ?l = "registerProofWaiter ch hh l"
    have "Get_link (ID ?l) (put_link ?l lm) = Some ?l" by simp
    from mgr_run_trans [OF mgr_run_touch(3) [OF that] mgr_run_touch(4) [OF this]]
    show ?thesis by (simp add: put_link_def update_twice registerProofWaiter_def clearProofWaiter_def)
  qed
  show ?thesis
    using h unfolding SendOverLink_def
    by (auto simp: Let_def split: option.splits if_splits sum.splits prod.splits intro!: link_only_lm intro: clear mgr_run_touch(3) mgr_run_step [OF mgr_step.sender])
qed

lemma proof_wait_end_only: "proof_wait_end arrived i h t = (t', fx, err) \<Longrightarrow> link_only C t t'"
proof -
  assume w: "proof_wait_end arrived i h t = (t', fx, err)"
  have "link_only C t (t\<lparr>linkManager := put_link (clearProofWaiter h l) (linkManager t)\<rparr>)" if "Get_link i (linkManager t) = Some l" for t l
    using that by (intro link_only_lm mgr_run_touch(4))
  then show ?thesis
    using w by (auto simp: proof_wait_end_def Let_def split: if_splits option.splits prod.splits intro: close_link_only link_only_trans)
qed

lemma transfer_end_only: "transfer_end terr i t = (t', fx, err) \<Longrightarrow> link_only C t t'"
  by (auto simp: transfer_end_def split: option.splits if_splits prod.splits intro: close_link_only)

lemma sweep_one_only: "sweep_one e a t = (t', fx) \<Longrightarrow> link_only C t t'"
  by (cases a) (auto split: sum.splits prod.splits option.splits intro: close_link_only touch_link_only)

lemma sweep_run_only: "sweep_run e as t = (t', fx) \<Longrightarrow> link_only C t t'"
  by (induction as arbitrary: t t' fx) (auto split: prod.splits intro: sweep_one_only link_only_trans)

lemma sweepLinks_only: "sweepLinks e t = (t', fx) \<Longrightarrow> link_only C t t'"
  by (auto simp: sweepLinks_def split: option.splits intro: sweep_run_only)

lemma RequestPath_known: "RequestPath e target t = (t', fx, err) \<Longrightarrow> known t' = known t \<and> linkManager t' = linkManager t"
  by (auto simp: RequestPath_def Let_def split: if_splits sum.splits prod.splits option.splits)

lemmas step_only = acquireLinkTo_only acquire_end_only SendOverLink_only proof_wait_end_only transfer_end_only sweepLinks_only

section \<open>The table of known identities\<close>

text \<open>The specification: a table from destination hashes to identities, and what it learns from a verified announce. A repeated announce or one with
  another key is not learnt; a new destination goes in at once while there is room, else in place of one that was not heard for longest.\<close>

definition table :: "Transport \<Rightarrow> bytes \<rightharpoonup> KnownIdentity" where
  "table t = (\<lambda>d. Recall d t)"

definition learns :: "time \<Rightarrow> Announce \<Rightarrow> (bytes \<rightharpoonup> KnownIdentity) \<Rightarrow> (bytes \<rightharpoonup> KnownIdentity) \<Rightarrow> bool" where
  "learns now a T T' \<longleftrightarrow>
     (case T (DestHash_a a) of
        Some k \<Rightarrow> LastRandom k \<noteq> RandomHash a \<and> PublicKey_k k = PublicKey_a a \<and> T' = T(DestHash_a a \<mapsto> known_entry now a)
      | None \<Rightarrow>
          if card (dom T) < 4096 then T' = T(DestHash_a a \<mapsto> known_entry now a)
          else \<exists>v k. T v = Some k \<and> (\<forall>w k'. T w = Some k' \<longrightarrow> LastSeen_k k \<le> LastSeen_k k')
                 \<and> T' = (T(v := None))(DestHash_a a \<mapsto> known_entry now a))"

text \<open>The entry holds a key that its destination hash was computed from.\<close>

definition entry_ok :: "Primitives \<Rightarrow> bytes \<Rightarrow> KnownIdentity \<Rightarrow> bool" where
  "entry_ok C d k \<longleftrightarrow> DestHash_k k = d \<and> length d = 16 \<and> length (PublicKey_k k) = 64
     \<and> DestinationHash C (NameHash_k k) (take 16 (sha256 C (PublicKey_k k))) = Some d"

definition table_ok :: "Primitives \<Rightarrow> (string, KnownIdentity) gomap \<Rightarrow> bool" where
  "table_ok C m \<longleftrightarrow> gm_ok m \<and> length m \<le> 4096 \<and> (\<forall>(s, k) \<in> set m. s = hex_encode (DestHash_k k) \<and> entry_ok C (DestHash_k k) k)"

lemma oldest_some:
  assumes "s \<noteq> []" and "[] \<notin> fst ` set m"
  shows "(oldest m s tm = s \<and> (\<forall>(k, v) \<in> set m. tm \<le> LastSeen_k v))
    \<or> (\<exists>v. (oldest m s tm, v) \<in> set m \<and> LastSeen_k v \<le> tm \<and> (\<forall>(k', v') \<in> set m. LastSeen_k v \<le> LastSeen_k v'))"
  using assms
proof (induction m s tm rule: oldest.induct)
  case (2 k v m s tm)
  have k: "k \<noteq> []" and ne: "[] \<notin> fst ` set m" using 2(4) by auto
  show ?case
  proof (cases "LastSeen_k v < tm")
    case True
    then have "s = [] \<or> LastSeen_k v < tm" by simp
    from 2(1) [OF this k ne] True show ?thesis by (elim disjE exE) (rule disjI2, rule exI [of _ v], force, auto)
  next
    case False
    then have "\<not> (s = [] \<or> LastSeen_k v < tm)" using 2(3) by simp
    from 2(2) [OF this 2(3) ne] False 2(3) show ?thesis by (elim disjE exE) (auto intro: order.trans)
  qed
qed simp

lemma oldest_min:
  assumes "m \<noteq> []" and "\<And>k v. (k, v) \<in> set m \<Longrightarrow> k \<noteq> []"
  obtains v where "(oldest m [] 0, v) \<in> set m" and "\<And>k' v'. (k', v') \<in> set m \<Longrightarrow> LastSeen_k v \<le> LastSeen_k v'"
proof -
  obtain k v m' where m: "m = (k, v) # m'" using assms(1) by (cases m) auto
  have "k \<noteq> []" "[] \<notin> fst ` set m'" using assms(2) m by force+
  from oldest_some [OF this, where tm = "LastSeen_k v"] that show thesis by (fastforce simp: m)
qed

lemma table_entry:
  assumes "table_ok C m" and "map_of m s = Some k"
  shows "s = hex_encode (DestHash_k k)" "entry_ok C (DestHash_k k) k" "(s, k) \<in> set m"
  using assms map_of_SomeD [OF assms(2)] by (auto simp: table_ok_def)

lemma card_table:
  assumes "table_ok C m"
  shows "card (dom (\<lambda>d. map_of m (hex_encode d))) = length m"
proof -
  have "hex_encode ` dom (\<lambda>d. map_of m (hex_encode d)) = dom (map_of m)"
    using table_entry(1) [OF assms] by (force simp: dom_def)
  moreover have "inj_on hex_encode A" for A by (auto simp: inj_on_def)
  ultimately have "card (dom (\<lambda>d. map_of m (hex_encode d))) = card (dom (map_of m))" by (metis card_image)
  also have "\<dots> = length m" using assms by (simp add: table_ok_def gm_ok_def dom_map_of_conv_image_fst distinct_card flip: set_map)
  finally show ?thesis .
qed

lemma table_ok_update:
  assumes "table_ok C m" and "entry_ok C (DestHash_k k) k" and "length m < 4096 \<or> map_of m (hex_encode (DestHash_k k)) \<noteq> None"
  shows "table_ok C (AList.update (hex_encode (DestHash_k k)) k m)"
proof -
  let ?s = "hex_encode (DestHash_k k)"
  have "length (AList.update ?s k m) \<le> 4096"
    using assms(1,3) length_update_new [of ?s m k] length_update_old [of ?s m k] map_of_eq_None_iff [of m ?s]
    by (cases "?s \<in> fst ` set m") (auto simp: table_ok_def)
  moreover have "set (AList.update ?s k m) \<subseteq> insert (?s, k) (set m)"
    by (induction m) auto
  ultimately show ?thesis using assms(1,2) by (fastforce simp: table_ok_def)
qed

lemma table_ok_delete: "table_ok C m \<Longrightarrow> table_ok C (AList.delete s m)"
  using length_delete_le' [of s m] by (simp add: table_ok_def) (auto simp: AList.delete_eq)

lemma verified_entry:
  assumes "ParseAnnounce p = Inr a" and "Verify C a = None" and "crypto_ok C"
  shows "entry_ok C (DestHash_a a) (known_entry now a)"
proof -
  have "length (PublicKey_a a) = 64" and d: "DestinationHash C (NameHash_a a) (take 16 (sha256 C (PublicKey_a a))) = Some (DestHash_a a)"
    using assms(2) by (auto simp: Verify_def Let_def key_lens split: if_splits option.splits)
  moreover have "length (DestHash_a a) = 16"
  proof -
    have "length (take 16 (sha256 C x)) = 16" for x using length_sha256 [OF crypto_okD(1) [OF assms(3)]] by simp
    moreover obtain x where "DestHash_a a = take 16 (sha256 C x)" using d by (simp add: DestinationHash_def key_lens split: if_splits) metis
    ultimately show ?thesis by metis
  qed
  ultimately show ?thesis by (simp add: entry_ok_def known_entry_def)
qed

lemma remember_learns:
  assumes ok: "table_ok C m" and e: "entry_ok C (DestHash_a a) (known_entry now a)" and r: "remember now a m = Some m'"
  shows "table_ok C m' \<and> learns now a (\<lambda>d. map_of m (hex_encode d)) (\<lambda>d. map_of m' (hex_encode d))"
proof (cases "map_of m (hex_encode (DestHash_a a))")
  case (Some k)
  have k: "PublicKey_k k \<noteq> []" using table_entry(2) [OF ok Some] by (auto simp: entry_ok_def)
  have "DestHash_k (known_entry now a) = DestHash_a a" by (simp add: known_entry_def)
  with r Some k e table_ok_update [OF ok, of "known_entry now a"] show ?thesis
    by (auto simp: remember_def Let_def learns_def fun_eq_iff split: if_splits)
next
  case None
  have d: "DestHash_k (known_entry now a) = DestHash_a a" by (simp add: known_entry_def)
  show ?thesis
  proof (cases "length m < 4096")
    case True
    then show ?thesis
      using r None e d table_ok_update [OF ok, of "known_entry now a"]
      by (auto simp: remember_def Let_def learns_def KnownIdentityCapacity_def card_table [OF ok] fun_eq_iff)
  next
    case False
    then have "m \<noteq> []" by auto
    moreover have "s \<noteq> []" if "(s, k) \<in> set m" for s k
    proof -
      have "length s = 32" using that ok by (auto simp: table_ok_def entry_ok_def)
      then show ?thesis by auto
    qed
    ultimately obtain v where v: "(oldest m [] 0, v) \<in> set m" "\<And>k' v'. (k', v') \<in> set m \<Longrightarrow> LastSeen_k v \<le> LastSeen_k v'"
      using oldest_min by blast
    let ?o = "oldest m [] 0"
    have o: "map_of m ?o = Some v" using v(1) ok by (simp add: table_ok_def in_set_map_of)
    note oe = table_entry(1) [OF ok o]
    have "length (AList.delete ?o m) < length m"
      using v(1) by (auto simp: AList.delete_eq length_filter_less)
    then have "length (AList.delete ?o m) < 4096" using ok by (simp add: table_ok_def)
    moreover have m': "m' = AList.update (hex_encode (DestHash_a a)) (known_entry now a) (AList.delete ?o m)"
      using r None False by (simp add: remember_def Let_def KnownIdentityCapacity_def)
    ultimately have "table_ok C m'" using table_ok_update [OF table_ok_delete [OF ok], of "known_entry now a"] e d by simp
    moreover have "learns now a (\<lambda>d. map_of m (hex_encode d)) (\<lambda>d. map_of m' (hex_encode d))"
    proof -
      have "map_of m (hex_encode (DestHash_k v)) = Some v" using o oe by simp
      moreover have "\<forall>w k'. map_of m (hex_encode w) = Some k' \<longrightarrow> LastSeen_k v \<le> LastSeen_k k'" using v(2) map_of_SomeD by fastforce
      moreover have "(\<lambda>d. map_of m' (hex_encode d)) =
          ((\<lambda>d. map_of m (hex_encode d))(DestHash_k v := None))(DestHash_a a \<mapsto> known_entry now a)"
        by (auto simp: m' oe fun_eq_iff)
      ultimately show ?thesis using None False card_table [OF ok] by (auto simp: learns_def)
    qed
    ultimately show ?thesis by blast
  qed
qed

section \<open>Invariants along runs\<close>

definition transport_ok :: "Primitives \<Rightarrow> Transport \<Rightarrow> bool" where
  "transport_ok C t \<longleftrightarrow> table_ok C (known t) \<and> mgr_ok (linkManager t)"

lemma link_only_table: "link_only C t t' \<Longrightarrow> table t' = table t"
  by (auto simp: link_only_def table_def Recall_def)

lemma step_refines:
  assumes step: "transport_step C M now t t'" and C: "crypto_ok C" and ok: "table_ok C (known t)"
  shows "table_ok C (known t') \<and> mgr_run C (linkManager t) (linkManager t')
    \<and> (table t' = table t \<or> (\<exists>p a. ParseAnnounce p = Inr a \<and> Verify C a = None \<and> learns now a (table t) (table t')))"
proof -
  have only: ?thesis if "link_only C t t'" using that ok link_only_table [OF that] by (simp add: link_only_def)
  show ?thesis
    using step
  proof cases
    case (inbound e raw fx)
    from inbound(3,2) show ?thesis
    proof (cases rule: dispatch_cases)
      case 1
      then show ?thesis by (rule only)
    next
      case (2 p)
      show ?thesis
      proof (cases "t' = t")
        case True
        then show ?thesis using ok by simp
      next
        case False
        with 2(3) obtain a m where a: "ParseAnnounce p = Inr a" "Verify C a = None" "remember (now_e e) a (known t) = Some m" "t' = t\<lparr>known := m\<rparr>"
          by (auto simp: handleAnnounce_t_def split: sum.splits option.splits)
        from remember_learns [OF ok verified_entry [OF a(1,2) C] a(3)] a inbound(1) show ?thesis
          by (auto simp: table_def Recall_def)
      qed
    qed
  next
    case (request e target fx err)
    then show ?thesis using RequestPath_known [OF request(2)] ok by (simp add: table_def Recall_def)
  qed (rule only, blast intro: step_only)+
qed

interpretation transport: invariant_system "\<lambda>t t'. \<exists>now. transport_step C M now t t'" "\<lambda>t. crypto_ok C \<and> transport_ok C t" for C M
proof
  fix t t'
  assume "\<exists>now. transport_step C M now t t'" and ok: "crypto_ok C \<and> transport_ok C t"
  then obtain now where "transport_step C M now t t'" by blast
  from step_refines [OF this] ok have "table_ok C (known t')" "mgr_run C (linkManager t) (linkManager t')" by (auto simp: transport_ok_def)
  with manager.along_run [of C "linkManager t" "linkManager t'"] ok show "crypto_ok C \<and> transport_ok C t'"
    by (simp add: transport_ok_def mgr_run_def)
qed

definition transport_run :: "Primitives \<Rightarrow> Resource_Msgpack \<Rightarrow> Transport \<Rightarrow> Transport \<Rightarrow> bool" where
  "transport_run C M = rtranclp (\<lambda>t t'. \<exists>now. transport_step C M now t t')"

text \<open>A transport that has been set up but has not heard anything yet.\<close>

definition idle_transport :: "Transport \<Rightarrow> bool" where
  "idle_transport t \<longleftrightarrow> known t = [] \<and> linkManager t = NewLinkManager \<and> pathRequestsSent t = []"

lemma run_ok: "crypto_ok C \<Longrightarrow> idle_transport t0 \<Longrightarrow> transport_run C M t0 t \<Longrightarrow> transport_ok C t"
  using transport.along_run [of C M t0 t] by (simp add: transport_run_def idle_transport_def transport_ok_def table_ok_def)

text \<open>C13. Whatever reaches the service from the network, the table of known identities and the link table stay sound: along every run of
  inbound packets (any bytes), path requests, link openings, sends, timeouts and sweeps, the table has at most 4096 entries; the entry found for a
  destination hash is for that 16-byte hash and holds a 64-byte public key whose hash gives it, so that nobody can plant a key for someone
  else's address; and every link is well formed.\<close>

theorem transport_safe:
  assumes "crypto_ok C" and "idle_transport t0" and "transport_run C M t0 t"
  shows "card (dom (table t)) \<le> 4096
    \<and> (\<forall>d k. Recall d t = Some k \<longrightarrow> DestHash_k k = d \<and> length d = 16 \<and> length (PublicKey_k k) = 64
         \<and> DestinationHash C (NameHash_k k) (take 16 (sha256 C (PublicKey_k k))) = Some d)
    \<and> (\<forall>i l. Get_link i (linkManager t) = Some l \<longrightarrow> ID l = i \<and> link_ok l)"
proof -
  have ok: "table_ok C (known t)" "mgr_ok (linkManager t)" using run_ok [OF assms] by (simp_all add: transport_ok_def)
  have "card (dom (table t)) = length (known t)" using card_table [OF ok(1)] by (simp add: table_def Recall_def)
  then have "card (dom (table t)) \<le> 4096" using ok(1) by (simp add: table_ok_def)
  moreover have "DestHash_k k = d \<and> entry_ok C d k" if "Recall d t = Some k" for d k
    using table_entry [OF ok(1) that [unfolded Recall_def]] by auto
  ultimately show ?thesis using mgr_ok_Get [OF ok(2)] by (auto simp: entry_ok_def)
qed

text \<open>C14. The transport implements the table it promises: each step of a run leaves the table of known identities as it is, or makes it
  learn one announce that parsed and verified, and drives the link manager only through the manager's operations. Learning means: an
  announce whose random hash was the last one seen, or with another key than the one on record, changes nothing; a known destination is refreshed; a
  new one is added, and only when 4096 are known is one dropped for it, one that was not heard for longest.\<close>

theorem transport_refines:
  assumes "crypto_ok C" and "idle_transport t0" and "transport_run C M t0 t" and "transport_step C M now t t'"
  shows "(table t' = table t \<or> (\<exists>p a. ParseAnnounce p = Inr a \<and> Verify C a = None \<and> learns now a (table t) (table t')))
    \<and> mgr_run C (linkManager t) (linkManager t')"
  using step_refines [OF assms(4,1)] run_ok [OF assms(1-3)] by (simp add: transport_ok_def)

text \<open>A set-up transport that hears one announce.\<close>

definition demo_env :: "time \<Rightarrow> Env" where
  "demo_env now = \<lparr>now_e = now, later_e = now, send_ok = (\<lambda>i w. True), scalar_e = None, seed_e = None, iv_e = Some (replicate 16 9), iv2_e = None,
     tag_e = Some (replicate 16 5), fresh_e = 7, build_e = (\<lambda>cb ctx. None), aspect_e = (\<lambda>h n. True)\<rparr>"

definition demo_transport :: Transport where
  "demo_transport = RegisterAnnounceHandler 3 (AddInterface 1 NewTransport)"

lemma demo_transport_idle: "idle_transport demo_transport"
  by (simp add: idle_transport_def demo_transport_def RegisterAnnounceHandler_def AddInterface_def NewTransport_def)

lemma demo_announce_key: "ParseAnnounce demo_announce = Inr a \<Longrightarrow> PublicKey_a a = PublicKey (demo_identity 4)"
proof -
  assume a: "ParseAnnounce demo_announce = Inr a"
  obtain p where p: "buildAnnounce demo_crypto (demo_identity 4) ''a'' [1, 2] None 0 0 (Some [1, 2, 3, 4, 5]) = Inr p"
    using buildAnnounce_total [OF demo_crypto_ok demo_identity_ok, where ratchet = None] by blast
  then obtain rest where "Data p = PublicKey (demo_identity 4) @ rest"
    by (rule buildAnnounceE) (auto simp: announce_body_def)
  with a p identity_keys(3) [OF demo_crypto_ok demo_identity_ok, of 4] show ?thesis
    by (auto simp: demo_announce_def ParseAnnounce_def Let_def key_lens split: if_splits)
qed

lemma demo_hears:
  obtains raw a t' where "dispatch demo_crypto M (demo_env 5) raw demo_transport = (t', [OnAnnounceCall 3 a])"
    and "Recall (DestHash_a a) t' = Some (known_entry 5 a)" and "Recall (DestHash_a a) demo_transport = None"
    and "length (DestHash_a a) = 16" and "PublicKey_a a = PublicKey (demo_identity 4)"
proof -
  obtain a where a: "ParseAnnounce demo_announce = Inr a" "Verify demo_crypto a = None" using demo_announce_ok by blast
  have ty: "PacketType demo_announce = 1" using a(1) by (auto simp: ParseAnnounce_def split: if_splits)
  obtain p where p: "buildAnnounce demo_crypto (demo_identity 4) ''a'' [1, 2] None 0 0 (Some [1, 2, 3, 4, 5]) = Inr p"
    using buildAnnounce_total [OF demo_crypto_ok demo_identity_ok, where ratchet = None] by blast
  have dl: "length (DestHash_a a) = 16" using verified_entry [OF a demo_crypto_ok] by (simp add: entry_ok_def)
  have "DestHash_a a = DestHash demo_announce" using a(1) by (auto simp: ParseAnnounce_def Let_def split: if_splits)
  with dl have "packet_ok demo_announce"
    using p by (auto simp: demo_announce_def packet_ok_def flags_ok_def elim!: buildAnnounceE)
  then obtain raw where raw: "ParsePacket raw = Inr demo_announce" using ParsePacket_Pack by blast
  let ?m = "AList.update (hex_encode (DestHash_a a)) (known_entry 5 a) []"
  have k: "known demo_transport = []" "announceHandlers demo_transport = [3]"
    by (simp_all add: demo_transport_def RegisterAnnounceHandler_def AddInterface_def NewTransport_def)
  have "dispatch demo_crypto M (demo_env 5) raw demo_transport = (demo_transport\<lparr>known := ?m\<rparr>, [OnAnnounceCall 3 a])"
    using raw ty a by (simp add: dispatch_def dispatch_packet_def handleAnnounce_t_def remember_def k demo_env_def KnownIdentityCapacity_def)
  then show thesis by (rule that) (simp_all add: Recall_def k dl demo_announce_key [OF a(1)])
qed

lemma demo_step: "dispatch C M (demo_env n) raw t = (t', fx) \<Longrightarrow> transport_step C M n t t'"
  using transport_step.inbound [of "demo_env n" C M raw t t' fx] by (simp add: env_ok_def demo_env_def)

theorem transport_safe_witness:
  "\<exists>t d k. transport_run demo_crypto demo_msgpack demo_transport t \<and> Recall d t = Some k \<and> length (PublicKey_k k) = 64 \<and> card (dom (table t)) \<le> 4096"
proof -
  obtain raw a t' where h: "dispatch demo_crypto demo_msgpack (demo_env 5) raw demo_transport = (t', [OnAnnounceCall 3 a])"
    "Recall (DestHash_a a) t' = Some (known_entry 5 a)"
    using demo_hears by blast
  then have r: "transport_run demo_crypto demo_msgpack demo_transport t'" unfolding transport_run_def using demo_step [OF h(1)] by blast
  from transport_safe [OF demo_crypto_ok demo_transport_idle r] h(2) r show ?thesis by blast
qed

theorem transport_refines_witness:
  "\<exists>t' a. transport_step demo_crypto demo_msgpack 5 demo_transport t' \<and> Verify demo_crypto a = None \<and> learns 5 a (table demo_transport) (table t')"
proof -
  obtain raw a t' where h: "dispatch demo_crypto demo_msgpack (demo_env 5) raw demo_transport = (t', [OnAnnounceCall 3 a])"
    "Recall (DestHash_a a) t' = Some (known_entry 5 a)" "Recall (DestHash_a a) demo_transport = None"
    using demo_hears by blast
  note s = demo_step [OF h(1)]
  have "transport_run demo_crypto demo_msgpack demo_transport demo_transport" by (simp add: transport_run_def)
  from transport_refines [OF demo_crypto_ok demo_transport_idle this s] have
    "table t' = table demo_transport \<or> (\<exists>p a. ParseAnnounce p = Inr a \<and> Verify demo_crypto a = None \<and> learns 5 a (table demo_transport) (table t'))" by blast
  moreover have "table t' \<noteq> table demo_transport" using h(2,3) unfolding table_def by (metis option.distinct(1))
  ultimately show ?thesis using s by blast
qed

section \<open>Path requests are rate-limited\<close>

lemma map_of_filter_kept: "map_of m k = Some v \<Longrightarrow> P (k, v) \<Longrightarrow> map_of (filter P m) k = Some v"
  by (induction m) (auto split: if_splits)

text \<open>When the path to \<open>d\<close> was last asked for, if that was at \<open>since\<close> or later.\<close>

definition asked_since :: "bytes \<Rightarrow> time \<Rightarrow> Transport \<Rightarrow> bool" where
  "asked_since d since t \<longleftrightarrow> (\<exists>ts \<ge> since. map_of (pathRequestsSent t) (hex_encode d) = Some ts)"

lemma RequestPath_recent:
  assumes "RequestPath e d t = (t', fx, err)" and "asked_since d since t" and "since \<le> now_e e" and "now_e e < since + 60 * second"
  shows "fx = [] \<and> (length d = 16 \<longrightarrow> err = None)"
proof -
  obtain ts where ts: "since \<le> ts" "map_of (pathRequestsSent t) (hex_encode d) = Some ts" using assms(2) by (auto simp: asked_since_def)
  have "map_of (filter (\<lambda>(k, ts). \<not> now_e e - ts > PathRequestDedupWindow) (pathRequestsSent t)) (hex_encode d) = Some ts"
    by (rule map_of_filter_kept [OF ts(2)]) (use assms ts in \<open>simp add: PathRequestDedupWindow_def\<close>)
  then show ?thesis using assms ts by (auto simp: RequestPath_def Let_def PathRequestDedupWindow_def key_lens split: if_splits)
qed

lemma RequestPath_keeps:
  assumes "RequestPath e x t = (t', fx, err)" and "asked_since d since t" and "since \<le> now_e e" and "now_e e < since + 60 * second"
  shows "asked_since d since t'"
proof -
  obtain ts where ts: "since \<le> ts" "map_of (pathRequestsSent t) (hex_encode d) = Some ts" using assms(2) by (auto simp: asked_since_def)
  have "map_of (filter (\<lambda>(k, ts). \<not> now_e e - ts > PathRequestDedupWindow) (pathRequestsSent t)) (hex_encode d) = Some ts"
    by (rule map_of_filter_kept [OF ts(2)]) (use assms ts in \<open>simp add: PathRequestDedupWindow_def\<close>)
  then have "asked_since d since (t\<lparr>pathRequestsSent := filter (\<lambda>(k, ts). \<not> now_e e - ts > PathRequestDedupWindow) (pathRequestsSent t)\<rparr>)"
    and "asked_since d since (t\<lparr>pathRequestsSent := AList.update (hex_encode x) (now_e e) (filter (\<lambda>(k, ts). \<not> now_e e - ts > PathRequestDedupWindow) (pathRequestsSent t))\<rparr>)"
    using ts(1) assms(3) by (auto simp: asked_since_def)
  then show ?thesis using assms(1,2) by (auto simp: RequestPath_def Let_def split: if_splits sum.splits prod.splits)
qed

lemma step_keeps_asked:
  assumes "transport_step C M now t t'" and "asked_since d since t" and "since \<le> now" and "now < since + 60 * second"
  shows "asked_since d since t'"
proof -
  have only: ?thesis if "link_only C t t'" using that assms(2) by (simp add: link_only_def asked_since_def)
  show ?thesis
    using assms(1)
  proof cases
    case (inbound e raw fx)
    from inbound(3,2) show ?thesis
    proof (cases rule: dispatch_cases)
      case (2 p)
      then have "pathRequestsSent t' = pathRequestsSent t" by (auto simp: handleAnnounce_t_def split: sum.splits option.splits)
      then show ?thesis using assms(2) by (simp add: asked_since_def)
    qed (rule only)
  next
    case (request e target fx err)
    from RequestPath_keeps [OF request(2) assms(2)] show ?thesis using assms(3,4) request(1) by blast
  qed (rule only, blast intro: step_only)+
qed

text \<open>C15. Path requests are rate-limited: once a request for a destination has been sent, no request for it is sent in the sixty seconds that
  follow, whatever packets arrive, links open or close, or other destinations are asked for in the meantime (every step taken within those
  seconds); the suppressed call returns no error.\<close>

theorem path_requests_limited:
  assumes first: "RequestPath e d t = (t1, fx, err)" and sent: "fx \<noteq> []"
    and run: "(\<lambda>a b. \<exists>now. now_e e \<le> now \<and> now < now_e e + 60 * second \<and> transport_step C M now a b)\<^sup>*\<^sup>* t1 t2"
    and again: "RequestPath e' d t2 = (t3, fx', err')" and time: "now_e e \<le> now_e e'" "now_e e' < now_e e + 60 * second"
  shows "fx' = [] \<and> err' = None"
proof -
  have l: "length d = 16" using first sent by (auto simp: RequestPath_def key_lens split: if_splits)
  have "asked_since d (now_e e) t1"
    using first sent by (auto simp: RequestPath_def asked_since_def Let_def split: if_splits sum.splits prod.splits)
  with run have "asked_since d (now_e e) t2"
    by (induction rule: rtranclp_induct) (auto intro: step_keeps_asked)
  from RequestPath_recent [OF again this time] l show ?thesis by blast
qed

theorem path_requests_limited_witness:
  "\<exists>t1 fx t3. RequestPath (demo_env 5) demo_dest demo_transport = (t1, fx, None) \<and> length fx = 1 \<and> RequestPath (demo_env 6) demo_dest t1 = (t3, [], None)"
proof -
  have "case hex_decode PathRequestDestHashHex of Some w \<Rightarrow> length w = 16 | None \<Rightarrow> False" by code_simp
  then obtain w where w: "hex_decode PathRequestDestHashHex = Some w" "length w = 16" by (auto split: option.splits)
  obtain t1 fx where f: "RequestPath (demo_env 5) demo_dest demo_transport = (t1, fx, None)" "length fx = 1"
    using w by (simp add: RequestPath_def BuildPathRequest_def emit_def Broadcast_def Pack_def demo_env_def demo_dest_def demo_transport_def
        RegisterAnnounceHandler_def AddInterface_def NewTransport_def Let_def key_lens len_defs)
  obtain t3 fx' err' where g: "RequestPath (demo_env 6) demo_dest t1 = (t3, fx', err')" by (metis prod_cases3)
  have n: "now_e (demo_env m) = m" for m by (simp add: demo_env_def)
  have ne: "fx \<noteq> []" using f(2) by auto
  from path_requests_limited [OF f(1) ne rtranclp.rtrancl_refl g] f g show ?thesis by (simp add: n)
qed

section \<open>The sweeper\<close>

lemma Get_close: "close_link j t = (t', cx) \<Longrightarrow> Get_link i (linkManager t') = (if i = j then None else Get_link i (linkManager t))"
  by (auto simp: close_link_def CloseLink_def closeResourcesForLink_def Get_link_def)

lemma Get_touch:
  assumes "\<And>j l. Get_link j (linkManager t) = Some l \<Longrightarrow> ID l = j"
  shows "Get_link i (linkManager (touch_link j now t)) =
    (if i = j then map_option (\<lambda>l. l\<lparr>LastActivity := now\<rparr>) (Get_link i (linkManager t)) else Get_link i (linkManager t))"
  using assms [of j] by (auto simp: touch_link_def split: option.splits)

lemma sweep_one_frame: "sweep_one e a t = (t', fx) \<Longrightarrow> interfaces t' = interfaces t \<and> lifetime t' = lifetime t"
  by (cases a) (auto simp: close_link_def touch_link_def split: sum.splits prod.splits option.splits)

lemma sweep_run_frame: "sweep_run e as t = (t', fx) \<Longrightarrow> interfaces t' = interfaces t \<and> lifetime t' = lifetime t"
proof (induction as arbitrary: t t' fx)
  case (Cons a as)
  then obtain t1 fx1 fx2 where "sweep_one e a t = (t1, fx1)" "sweep_run e as t1 = (t', fx2)" by (auto split: prod.splits)
  then show ?case using sweep_one_frame Cons.IH by metis
qed simp

lemma emit_keepalive:
  assumes "length i = 16" and "interfaces t \<noteq> []" and "\<And>n w. send_ok e n w"
  shows "\<exists>fx. sweep_one e (Ping i) t = (touch_link i (later_e e) t, fx)"
  using assms by (simp add: BuildLinkKeepalive_def buildKeepalivePacket_def key_lens link_packet_def emit_def Broadcast_def Pack_def len_defs)

definition swept_link :: "Env \<Rightarrow> sweep_action list \<Rightarrow> Link \<Rightarrow> Link option" where
  "swept_link e as l =
     (if CloseIdle (ID l) \<in> set as then None else if Ping (ID l) \<in> set as then Some (l\<lparr>LastActivity := later_e e\<rparr>) else Some l)"

text \<open>One pass acts on each link for itself.\<close>

lemma sweep_run_link:
  assumes "sweep_run e as t = (t', fx)" and "\<And>j l. Get_link j (linkManager t) = Some l \<Longrightarrow> ID l = j \<and> length j = 16"
    and "interfaces t \<noteq> []" and "\<And>n w. send_ok e n w" and "\<And>i. Ping i \<in> set as \<Longrightarrow> length i = 16"
  shows "Get_link i (linkManager t') = Option.bind (Get_link i (linkManager t)) (swept_link e as)"
  using assms
proof (induction as arbitrary: t fx)
  case Nil
  have "swept_link e [] = Some" by (rule ext) (simp add: swept_link_def)
  with Nil show ?case by simp
next
  case (Cons a as)
  obtain t1 fx1 where o: "sweep_one e a t = (t1, fx1)" by fastforce
  then obtain fx2 where r: "sweep_run e as t1 = (t', fx2)" using Cons.prems(1) by (auto split: prod.splits)
  have ids: "ID l = j" if "Get_link j (linkManager t) = Some l" for j l using Cons.prems(2) [OF that] by simp
  have g: "Get_link j (linkManager t1) = Option.bind (Get_link j (linkManager t)) (swept_link e [a])" for j
  proof (cases a)
    case (CloseIdle k)
    then show ?thesis using Get_close [of k t t1 fx1 j] o ids [of j] by (cases "Get_link j (linkManager t)") (auto simp: swept_link_def)
  next
    case (Ping k)
    then have "length k = 16" using Cons.prems(5) by simp
    from emit_keepalive [OF this Cons.prems(3,4)] o Ping have "t1 = touch_link k (later_e e) t" by auto
    then show ?thesis
      using Get_touch [OF ids, of t j k "later_e e"] ids [of j] Ping by (cases "Get_link j (linkManager t)") (auto simp: swept_link_def)
  qed
  have id: "swept_link e [a] l = Some l' \<Longrightarrow> ID l' = ID l" for l l' by (auto simp: swept_link_def split: if_splits)
  have "Get_link j (linkManager t1) = Some l \<Longrightarrow> ID l = j \<and> length j = 16" for j l
    using g [of j] Cons.prems(2) [of j] id by (cases "Get_link j (linkManager t)") auto
  moreover have "interfaces t1 \<noteq> []" using sweep_one_frame [OF o] Cons.prems(3) by simp
  ultimately have "Get_link i (linkManager t') = Option.bind (Get_link i (linkManager t1)) (swept_link e as)"
    using Cons.IH [OF r _ _ Cons.prems(4)] Cons.prems(5) by auto
  moreover have "Option.bind (swept_link e [a] l) (swept_link e as) = swept_link e (a # as) l" for l
    by (cases a) (auto simp: swept_link_def)
  ultimately show ?case by (cases "Get_link i (linkManager t)") (auto simp: g)
qed

lemma decision_ID: "sweep_decision ka idl now l = Some (CloseIdle i) \<Longrightarrow> i = ID l" "sweep_decision ka idl now l = Some (Ping i) \<Longrightarrow> i = ID l"
  by (auto simp: sweep_decision_def Let_def split: if_splits)

lemma sweepLinks_exact:
  assumes sw: "sweepLinks e t = (t', fx)" and lt: "lifetime t = Some lt" and ok: "mgr_ok (linkManager t)" and i: "interfaces t \<noteq> []"
    and up: "\<And>n w. send_ok e n w" and l: "Get_link i (linkManager t) = Some l"
  shows "Get_link i (linkManager t') =
    (case sweep_decision (keepalive lt) (idle lt) (now_e e) l of None \<Rightarrow> Some l | Some (CloseIdle _) \<Rightarrow> None | Some (Ping _) \<Rightarrow> Some (l\<lparr>LastActivity := later_e e\<rparr>))"
proof -
  let ?d = "sweep_decision (keepalive lt) (idle lt) (now_e e)"
  define as where "as = List.map_filter (\<lambda>(_, k). ?d k) (links (linkManager t))"
  have r: "sweep_run e as t = (t', fx)" using sw lt by (simp add: sweepLinks_def as_def)
  have ids: "ID k = j \<and> length j = 16" if "Get_link j (linkManager t) = Some k" for j k
    using mgr_ok_Get [OF ok that] by (auto simp: link_ok_def)
  have ent: "Get_link (ID k) (linkManager t) = Some k" if "(s, k) \<in> set (links (linkManager t))" for s k
    using that ok in_set_map_of [of "links (linkManager t)" s k] by (auto simp: mgr_ok_def Get_link_def)
  have mem: "a \<in> set as \<longleftrightarrow> (\<exists>s k. (s, k) \<in> set (links (linkManager t)) \<and> ?d k = Some a)" for a
    by (force simp: as_def map_filter_def)
  have here: "(hex_encode i, l) \<in> set (links (linkManager t))" using l map_of_SomeD by (simp add: Get_link_def) fast
  have own: "a \<in> set as \<longleftrightarrow> ?d l = Some a" if "a = CloseIdle (ID l) \<or> a = Ping (ID l)" for a
  proof
    assume "a \<in> set as"
    then obtain s k where k: "(s, k) \<in> set (links (linkManager t))" "?d k = Some a" using mem by blast
    then have "ID k = ID l" using that decision_ID by metis
    then have "k = l" using ent [OF k(1)] l ids [OF l] by simp
    then show "?d l = Some a" using k(2) by simp
  qed (use mem here in blast)
  have "Ping j \<in> set as \<Longrightarrow> length j = 16" for j using mem decision_ID(2) ent ids by metis
  from sweep_run_link [OF r ids i up this, of i] l have "Get_link i (linkManager t') = swept_link e as l" by simp
  also have "\<dots> = (case ?d l of None \<Rightarrow> Some l | Some (CloseIdle _) \<Rightarrow> None | Some (Ping _) \<Rightarrow> Some (l\<lparr>LastActivity := later_e e\<rparr>))"
  proof (cases "?d l")
    case None
    then show ?thesis using own [of "CloseIdle (ID l)"] own [of "Ping (ID l)"] by (simp add: swept_link_def)
  next
    case (Some a)
    then show ?thesis
      using own [of "CloseIdle (ID l)"] own [of "Ping (ID l)"]
      by (cases a) (auto simp: swept_link_def dest: decision_ID)
  qed
  finally show ?thesis .
qed

text \<open>Sweeps at most \<open>gap\<close> apart, from \<open>T\<close> on, while every interface accepts what it is given.\<close>

fun ticks :: "duration \<Rightarrow> time \<Rightarrow> Env list \<Rightarrow> bool" where
  "ticks gap T [] \<longleftrightarrow> True"
| "ticks gap T (e # es) \<longleftrightarrow> T \<le> now_e e \<and> now_e e \<le> T + gap \<and> now_e e \<le> later_e e \<and> (\<forall>n w. send_ok e n w) \<and> ticks gap (now_e e) es"

fun sweeps :: "Env list \<Rightarrow> Transport \<Rightarrow> Transport" where
  "sweeps [] t = t"
| "sweeps (e # es) t = sweeps es (fst (sweepLinks e t))"

lemma sweep_mgr_ok: "crypto_ok C \<Longrightarrow> mgr_ok (linkManager t) \<Longrightarrow> mgr_ok (linkManager (fst (sweepLinks e t)))"
  using sweepLinks_only [of e t "fst (sweepLinks e t)" "snd (sweepLinks e t)" C]
    manager.along_run [of C "linkManager t" "linkManager (fst (sweepLinks e t))"]
  by (simp add: link_only_def mgr_run_def)

lemma sweepLinks_frame: "sweepLinks e t = (t', fx) \<Longrightarrow> interfaces t' = interfaces t \<and> lifetime t' = lifetime t"
  by (auto simp: sweepLinks_def split: option.splits dest: sweep_run_frame)


definition demo_opened :: Link where
  "demo_opened = demo_link\<lparr>responderIdentity := None, peerDestHash := replicate 16 4, peerEd25519Pub := replicate 32 5, initiatorEd25519Priv := replicate 32 6\<rparr>"


end
