(* ===== verification/Link_Delivery.thy ===== *)
theory Link_Delivery
  imports Transport_Run
begin

text \<open>
  A message over a link, from the sender's call to the receiver's callback and back: the composition of the packet codec, link encryption, the dispatchers
  of both transports and the link manager.
\<close>

text \<open>What \<open>SendOverLink\<close> did when it is waiting for a proof.\<close>

lemma SendOverLink_awaiting:
  assumes "SendOverLink C M e salts lid m deadline a = (a', fx, AwaitingProof i h ch dl)"
  obtains la p hp where "Get_link lid (linkManager a) = Some la" and "State la = LinkActive"
    and "BuildLinkDataPacket C (iv_e e) (ID la) (Signing la) (Encryption la) m = Inr p" and "HashablePart p = Inr hp"
    and "h = hex_encode (sha256 C hp)" and "ch = fresh_e e"
    and "a' = a\<lparr>linkManager := put_link (registerProofWaiter ch h la) (linkManager a)\<rparr>" and "emit e p a' = (fx, None)" and "i = ID la"
  using assms
  by (auto simp: SendOverLink_def Let_def split: option.splits if_splits sum.splits prod.splits)

lemma emit_sends: "emit e p t = (fx, err) \<Longrightarrow> Send n w \<in> set fx \<Longrightarrow> Pack p = Inr w"
  by (auto simp: emit_def Broadcast_def split: sum.splits if_splits)

lemma retransmits_sends: "Send n w \<in> set (broadcastWithRetransmits e p t) \<Longrightarrow> Pack p = Inr w"
  by (cases "emit e p t") (auto simp: broadcastWithRetransmits_def split: option.splits dest: emit_sends)

lemma retransmits_reach:
  assumes "packet_ok p" and "n \<in> set (interfaces t)"
  shows "\<exists>w. Send n w \<in> set (broadcastWithRetransmits e p t)"
proof -
  obtain w where "Pack p = Inr w" using ParsePacket_Pack [OF assms(1)] by blast
  with assms(2) show ?thesis by (auto simp: broadcastWithRetransmits_def emit_def Broadcast_def split: prod.splits option.splits)
qed

lemma sent_parses: "packet_ok p \<Longrightarrow> Pack p = Inr w \<Longrightarrow> ParsePacket w = Inr p"
  using ParsePacket_Pack [of p] by force

text \<open>C12. A message sent over a link arrives and its sender learns so: when \<open>SendOverLink\<close> has sent a message over a link whose other end is active
  under the same keys, and a copy of the frame reaches that other end (relays may have changed header type, transport type, transport id, context
  flag and hop count), the dispatcher there first hands exactly the message to the link's callback, then sends a proof on each of its
  interfaces; and any of these proof frames makes the dispatcher of the sender wake exactly the waiting call.\<close>

theorem link_send_delivered:
  assumes ok: "crypto_ok C" "identity_ok C ident" and lid: "length lid = 16" and iv: "iv_e e = Some iv" "length iv = 16"
    and A: "Get_link lid (linkManager a) = Some la" "ID la = lid" "length (Signing la) = 32" "length (Encryption la) = 32" "peerEd25519Pub la = ed25519Pub ident"
    and B: "Get_link lid (linkManager b) = Some lb" "State lb = LinkActive" "ID lb = lid" "Signing lb = Signing la" "Encryption lb = Encryption la"
      "responderIdentity lb = Some ident" "OnInboundData lb = Some cb"
    and send: "SendOverLink C M e salts lid m deadline a = (a', fx, AwaitingProof i h ch dl)" "Send n w \<in> set fx" "ParsePacket w = Inr p"
    and relay: "packet_ok (p\<lparr>HeaderType := ht, TransportType := tt, TransportID := tid, Hops := hops, ContextFlag := cf\<rparr>)"
      "Pack (p\<lparr>HeaderType := ht, TransportType := tt, TransportID := tid, Hops := hops, ContextFlag := cf\<rparr>) = Inr w'"
  shows "\<exists>b' proofs. dispatch C M e2 w' b = (b', OnLinkCall (ToLink cb m) # proofs)
    \<and> (\<forall>k \<in> set (interfaces b). \<exists>v. Send k v \<in> set proofs)
    \<and> (\<forall>k v. Send k v \<in> set proofs \<longrightarrow> snd (dispatch C M e3 v a') = [SignalWaiter ch])"
proof -
  obtain p0 hp where s: "BuildLinkDataPacket C (Some iv) lid (Signing la) (Encryption la) m = Inr p0" "HashablePart p0 = Inr hp"
    "h = hex_encode (sha256 C hp)" "a' = a\<lparr>linkManager := put_link (registerProofWaiter ch h la) (linkManager a)\<rparr>" "emit e p0 a' = (fx, None)"
    using send(1) A(1,2) iv(1) by (auto elim!: SendOverLink_awaiting)
  from s(1) lid obtain c where p0: "p0 = link_packet lid PacketData ContextNone c" by (auto simp: BuildLinkDataPacket_def key_lens split: sum.splits)
  have "packet_ok p0" using lid by (simp add: p0 link_packet_def packet_ok_def flags_ok_def)
  then have p: "p = p0" using emit_sends [OF s(5) send(2)] sent_parses send(3) by force
  let ?q = "p\<lparr>HeaderType := ht, TransportType := tt, TransportID := tid, Hops := hops, ContextFlag := cf\<rparr>"
  let ?b = "b\<lparr>linkManager := put_link (lb\<lparr>LastActivity := now_e e2\<rparr>) (linkManager b)\<rparr>"
  have q: "DestinationType ?q = 3" "PacketType ?q = 0" "DestHash ?q = lid" "Context ?q = 0" by (simp_all add: p p0 link_packet_def)
  note ack = link_data_acknowledged [OF ok B(1,2,3) lid _ _ iv(2), where m = m and p = p0 and got = ?q and now = "now_e e2", unfolded B(4,5,7), OF A(3,4) s(1) relay(1)]
  have h: "HandleLinkData C (now_e e2) ?q (linkManager b) = (linkManager ?b, Inr (m, lb\<lparr>LastActivity := now_e e2\<rparr>, ToLink cb m))"
    and "\<exists>pf hp. BuildLinkProof C lid (Sign C ident) ?q = Inr pf \<and> HashablePart p0 = Inr hp \<and> ValidateLinkProof C pf (ed25519Pub ident) = Inr (sha256 C hp)"
    using ack p by simp_all
  then obtain pf where pf: "BuildLinkProof C lid (Sign C ident) ?q = Inr pf" "ValidateLinkProof C pf (ed25519Pub ident) = Inr (sha256 C hp)"
    using s(2) by auto
  from pf(1) lid obtain body where b: "pf = link_packet lid PacketProof ContextNone body"
    by (auto simp: BuildLinkProof_def key_lens Let_def split: sum.splits if_splits)
  have pok: "packet_ok pf" using lid by (simp add: b link_packet_def packet_ok_def flags_ok_def)
  let ?proofs = "broadcastWithRetransmits e2 pf ?b"
  have "dispatch C M e2 w' b = handleLinkPayload C e2 ?q b"
    using sent_parses [OF relay] q by (simp add: dispatch_def dispatch_packet_def handleLinkData_def)
  then have d: "dispatch C M e2 w' b = (?b, OnLinkCall (ToLink cb m) # ?proofs)"
    using h pf(1) B(3,6) by (simp add: handleLinkPayload_def link_signer_def Let_def)
  have key: "length (ed25519Pub ident) = 32" using identity_keys [OF ok] by simp
  then have "peerEd25519Pub la \<noteq> []" using A(5) by auto
  have wake: "snd (dispatch C M e3 v a') = [SignalWaiter ch]" if "Send k v \<in> set ?proofs" for k v
  proof -
    have "dispatch C M e3 v a' = handleLinkProof C e3 pf a'"
      using sent_parses [OF pok retransmits_sends [OF that]] by (simp add: dispatch_def dispatch_packet_def b link_packet_def)
    moreover have "Get_link (DestHash pf) (linkManager a') = Some (registerProofWaiter ch h la)"
      using A(2) by (simp add: s(4) b link_packet_def registerProofWaiter_def)
    ultimately show ?thesis
      using pf(2) A(5) key s(3) \<open>peerEd25519Pub la \<noteq> []\<close>
      by (simp add: handleLinkProof_def registerProofWaiter_def signalProof_def)
  qed
  have "\<exists>v. Send k v \<in> set ?proofs" if "k \<in> set (interfaces b)" for k using retransmits_reach [OF pok, of k ?b e2] that by simp
  with d wake show ?thesis by blast
qed

definition demo_sender :: Transport where
  "demo_sender = demo_transport\<lparr>linkManager := put_link (demo_opened\<lparr>peerEd25519Pub := ed25519Pub (demo_identity 4)\<rparr>) NewLinkManager\<rparr>"

definition demo_receiver :: Transport where
  "demo_receiver = demo_transport\<lparr>linkManager := put_link demo_link NewLinkManager\<rparr>"

theorem link_send_delivered_witness:
  "\<exists>a' n w h b' proofs. SendOverLink demo_crypto demo_msgpack (demo_env 5) [] demo_dest [4, 2] 100 demo_sender = (a', [Send n w], AwaitingProof demo_dest h 7 100)
     \<and> dispatch demo_crypto demo_msgpack (demo_env 6) w demo_receiver = (b', OnLinkCall (ToLink 5 [4, 2]) # proofs)
     \<and> (\<exists>v. Send 1 v \<in> set proofs \<and> snd (dispatch demo_crypto demo_msgpack (demo_env 7) v a') = [SignalWaiter 7])"
proof -
  let ?la = "demo_opened\<lparr>peerEd25519Pub := ed25519Pub (demo_identity 4)\<rparr>"
  have la: "Get_link demo_dest (linkManager demo_sender) = Some ?la" "ID ?la = demo_dest" "Signing ?la = replicate 32 1" "Encryption ?la = replicate 32 2"
    "State ?la = LinkActive" "length (Signing ?la) = 32" "length (Encryption ?la) = 32"
    by (simp_all add: demo_sender_def demo_opened_def demo_link_def new_link_def)
  have lb: "Get_link demo_dest (linkManager demo_receiver) = Some demo_link" "ID demo_link = demo_dest" "State demo_link = LinkActive"
    "Signing demo_link = Signing ?la" "Encryption demo_link = Encryption ?la" "responderIdentity demo_link = Some (demo_identity 4)" "OnInboundData demo_link = Some 5"
    by (simp_all add: demo_receiver_def demo_opened_def demo_link_def new_link_def)
  have ifs: "interfaces demo_receiver = [1]" "interfaces demo_sender = [1]"
    by (simp_all add: demo_receiver_def demo_sender_def demo_transport_def RegisterAnnounceHandler_def AddInterface_def NewTransport_def)
  have env: "iv_e (demo_env n) = Some (replicate 16 9)" "fresh_e (demo_env n) = 7" "later_e (demo_env n) = n" "send_ok (demo_env n) = (\<lambda>i w. True)" for n
    by (simp_all add: demo_env_def)
  have g: "link_keys_ok (demo_crypto, replicate 32 1, replicate 32 2) (Some (replicate 16 9))"
    using demo_crypto_ok by (simp add: link_keys_ok_def)
  from link_box.sealed [OF g, of "[4, 2]"] obtain c where
    c: "LinkTokenEncrypt demo_crypto (Some (replicate 16 9)) [4, 2] (replicate 32 1) (replicate 32 2) = Inr c"
    by (auto simp: link_seal_def)
  let ?p = "link_packet demo_dest PacketData ContextNone c"
  have ok: "packet_ok ?p" by (simp add: link_packet_def packet_ok_def flags_ok_def demo_dest_def)
  then obtain w where w: "Pack ?p = Inr w" "ParsePacket w = Inr ?p" using ParsePacket_Pack by blast
  obtain hp where hp: "HashablePart ?p = Inr hp" using HashablePart_eq [OF ok] by blast
  have len: "length demo_dest = 16" by (simp add: demo_dest_def)
  obtain a' h where s: "SendOverLink demo_crypto demo_msgpack (demo_env 5) [] demo_dest [4, 2] 100 demo_sender = (a', [Send 1 w], AwaitingProof demo_dest h 7 100)"
    using c w(1) hp la len ifs by (simp add: SendOverLink_def env BuildLinkDataPacket_def key_lens emit_def Broadcast_def Let_def LinkMDU_def)
  have same: "?p\<lparr>HeaderType := 0, TransportType := 0, TransportID := [], Hops := 0, ContextFlag := False\<rparr> = ?p" by (simp add: link_packet_def)
  have in_s: "Send 1 w \<in> set [Send 1 w]" by simp
  from link_send_delivered [OF demo_crypto_ok demo_identity_ok len env(1) _ la(1,2,6,7) _ lb(1,3,2,4,5,6,7) s in_s w(2), where ht = 0 and tt = 0 and tid = "[]" and hops = 0 and cf = False
      and w' = w and ?e2.0 = "demo_env 6" and ?e3.0 = "demo_env 7"] same ok w(1) ifs
  obtain b' proofs v where "dispatch demo_crypto demo_msgpack (demo_env 6) w demo_receiver = (b', OnLinkCall (ToLink 5 [4, 2]) # proofs)"
    "Send 1 v \<in> set proofs" "\<And>k v. Send k v \<in> set proofs \<Longrightarrow> snd (dispatch demo_crypto demo_msgpack (demo_env 7) v a') = [SignalWaiter 7]"
    by auto
  with s show ?thesis by blast
qed

end
