(* ===== verification/Lxmf.thy ===== *)
theory Lxmf
  imports Link_Delivery Rewrite
begin

text \<open>
  LXMF messages and their delivery, \<open>internal/lxmf/message.go\<close> and \<open>delivery.go\<close>: packing and signing, parsing and verifying in the
  opportunistic and the direct form, and the routing of a message to a single packet or a link. The msgpack codec and the arithmetic on
  \<open>float64\<close> timestamps are parameters.
\<close>

section \<open>Messages\<close>

definition signatureLen :: nat where "signatureLen = 64"
definition minOpportunisticBodyLen :: nat where "minOpportunisticBodyLen = IdentityHashLen + signatureLen"
definition MaxOpportunisticPayload :: nat where "MaxOpportunisticPayload = 295"

definition FullName_lxmf :: string where "FullName_lxmf = FullName [''lxmf'', ''delivery'']"

text \<open>A nil \<open>Title\<close>, \<open>Content\<close> or \<open>Fields\<close> is empty; for \<open>Stamp\<close> nil and empty differ.\<close>

record Message =
  DestHash_m :: bytes
  SourceHash :: bytes
  Signature_m :: bytes
  Timestamp :: time
  Title :: bytes
  Content_m :: bytes
  Fields_m :: fieldmap
  Stamp :: "bytes option"
  rawPayload :: bytes

datatype lxmf_error =
    NilIdentity | BadHashLens | MarshalFailed | ErrPayloadTooLarge nat | BodyTooShort_m nat | DestHashLen nat
  | DecodeArray | TooFewElems nat | DecodeTimestamp | DecodeTitle | DecodeContent | DecodeFields
  | SenderKeyLen | SignatureInvalid_m | ReencodeFailed
  | RecipientLen | ErrRecipientUnknown bytes | EncryptFailed token_error | BroadcastFailed transport_error

text \<open>The codec: \<open>Marshal\<close> of the payload array, \<open>Unmarshal\<close> into raw elements, a \<open>float64\<close>, a byte slice (\<open>Some None\<close> is nil), a string,
  an untyped map and an untyped value, and \<open>Marshal\<close> of untyped values. A \<open>float64\<close> is its bits; the last two are
  the conversions from microseconds and into seconds and nanoseconds.\<close>

record Lxmf_Codec =
  marshal_payload :: "64 word \<Rightarrow> bytes \<Rightarrow> bytes \<Rightarrow> fieldmap \<Rightarrow> bytes option"
  raw_elems :: "bytes \<Rightarrow> bytes list option"
  un_float :: "bytes \<Rightarrow> 64 word option"
  un_bytes :: "bytes \<Rightarrow> bytes option option"
  un_string :: "bytes \<Rightarrow> bytes option"
  un_map :: "bytes \<Rightarrow> fieldmap option"
  un_any :: "bytes \<Rightarrow> gval option"
  marshal_any :: "gval list \<Rightarrow> bytes option"
  float_seconds :: "int \<Rightarrow> 64 word"
  split_seconds :: "64 word \<Rightarrow> int \<times> int"

definition buildSignedDataWithID :: "Primitives \<Rightarrow> bytes \<Rightarrow> bytes \<Rightarrow> bytes \<Rightarrow> bytes \<times> bytes" where
  "buildSignedDataWithID C destHash sourceHash payload =
     (let hashedPart = destHash @ sourceHash @ payload; mh = sha256 C hashedPart in (hashedPart @ mh, mh))"

definition buildSignedData :: "Primitives \<Rightarrow> bytes \<Rightarrow> bytes \<Rightarrow> bytes \<Rightarrow> bytes" where
  "buildSignedData C destHash sourceHash payload = fst (buildSignedDataWithID C destHash sourceHash payload)"

definition ComputeMessageID :: "Primitives \<Rightarrow> bytes \<Rightarrow> bytes \<Rightarrow> bytes \<Rightarrow> bytes" where
  "ComputeMessageID C destHash sourceHash payload = sha256 C (destHash @ sourceHash @ payload)"

definition MessageID :: "Primitives \<Rightarrow> Message \<Rightarrow> bytes" where
  "MessageID C m = ComputeMessageID C (DestHash_m m) (SourceHash m) (rawPayload m)"

text \<open>The result is the body and the message id.\<close>

definition signAndPackDirectAt ::
  "Primitives \<Rightarrow> Lxmf_Codec \<Rightarrow> Identity option \<Rightarrow> bytes \<Rightarrow> bytes \<Rightarrow> bytes \<Rightarrow> bytes \<Rightarrow> fieldmap \<Rightarrow> time \<Rightarrow> lxmf_error + bytes \<times> bytes" where
  "signAndPackDirectAt C K senderID senderDestHash destHash title content flds ts =
     (case senderID of None \<Rightarrow> Inl NilIdentity | Some ident \<Rightarrow>
        if length senderDestHash \<noteq> IdentityHashLen \<or> length destHash \<noteq> IdentityHashLen then Inl BadHashLens
        else case marshal_payload K (float_seconds K (ts div 1000)) title content flds of None \<Rightarrow> Inl MarshalFailed | Some payload \<Rightarrow>
          (let (signedData, mid) = buildSignedDataWithID C destHash senderDestHash payload; sig = Sign C ident signedData
           in Inr (destHash @ senderDestHash @ sig @ payload, mid)))"

definition signAndPackOpportunisticAt ::
  "Primitives \<Rightarrow> Lxmf_Codec \<Rightarrow> Identity option \<Rightarrow> bytes \<Rightarrow> bytes \<Rightarrow> bytes \<Rightarrow> bytes \<Rightarrow> fieldmap \<Rightarrow> time \<Rightarrow> lxmf_error + bytes \<times> bytes" where
  "signAndPackOpportunisticAt C K senderID senderDestHash destHash title content flds ts =
     (case senderID of None \<Rightarrow> Inl NilIdentity | Some ident \<Rightarrow>
        if length senderDestHash \<noteq> IdentityHashLen \<or> length destHash \<noteq> IdentityHashLen then Inl BadHashLens
        else case marshal_payload K (float_seconds K (ts div 1000)) title content flds of None \<Rightarrow> Inl MarshalFailed | Some payload \<Rightarrow>
          if length payload > MaxOpportunisticPayload then Inl (ErrPayloadTooLarge (length payload))
          else
            (let (signedData, mid) = buildSignedDataWithID C destHash senderDestHash payload; sig = Sign C ident signedData
             in Inr (senderDestHash @ sig @ payload, mid)))"

definition CheckOpportunisticSize :: "Lxmf_Codec \<Rightarrow> bytes \<Rightarrow> bytes \<Rightarrow> fieldmap \<Rightarrow> lxmf_error option" where
  "CheckOpportunisticSize K title content flds =
     (case marshal_payload K 0 title content flds of None \<Rightarrow> Some MarshalFailed
      | Some payload \<Rightarrow> if length payload > MaxOpportunisticPayload then Some (ErrPayloadTooLarge (length payload)) else None)"

definition decodeFields :: "Lxmf_Codec \<Rightarrow> bytes \<Rightarrow> fieldmap option" where
  "decodeFields K raw = (if raw = [0xC0] then Some [] else un_map K raw)"

text \<open>A byte string, or a string taken for one.\<close>

definition bytes_or_string :: "Lxmf_Codec \<Rightarrow> bytes \<Rightarrow> bytes option" where
  "bytes_or_string K raw = (case un_bytes K raw of Some None \<Rightarrow> Some [] | Some (Some b) \<Rightarrow> Some b | None \<Rightarrow> un_string K raw)"

definition unpackPayload :: "Lxmf_Codec \<Rightarrow> Message \<Rightarrow> lxmf_error + Message" where
  "unpackPayload K m =
     (case raw_elems K (rawPayload m) of None \<Rightarrow> Inl DecodeArray | Some elems \<Rightarrow>
        if length elems < 4 then Inl (TooFewElems (length elems))
        else case un_float K (elems ! 0) of None \<Rightarrow> Inl DecodeTimestamp | Some ts \<Rightarrow>
        case bytes_or_string K (elems ! 1) of None \<Rightarrow> Inl DecodeTitle | Some title \<Rightarrow>
        case bytes_or_string K (elems ! 2) of None \<Rightarrow> Inl DecodeContent | Some content \<Rightarrow>
        case decodeFields K (elems ! 3) of None \<Rightarrow> Inl DecodeFields | Some flds \<Rightarrow>
          (let (whole, frac) = split_seconds K ts
           in Inr (m\<lparr>Timestamp := whole * second + frac, Title := title, Content_m := content, Fields_m := flds,
                    Stamp := (if length elems \<ge> 5 then (case un_bytes K (elems ! 4) of Some s \<Rightarrow> s | None \<Rightarrow> None) else None)\<rparr>)))"

definition parsed_message :: "bytes \<Rightarrow> bytes \<Rightarrow> bytes \<Rightarrow> bytes \<Rightarrow> Message" where
  "parsed_message dest src sig payload = \<lparr>DestHash_m = dest, SourceHash = src, Signature_m = sig, Timestamp = 0, Title = [], Content_m = [],
     Fields_m = [], Stamp = None, rawPayload = payload\<rparr>"

definition ParseDirectBody :: "Lxmf_Codec \<Rightarrow> bytes \<Rightarrow> lxmf_error + Message" where
  "ParseDirectBody K body =
     (if length body < 2 * IdentityHashLen + signatureLen then Inl (BodyTooShort_m (length body))
      else unpackPayload K (parsed_message (take IdentityHashLen body) (take IdentityHashLen (drop IdentityHashLen body))
             (take signatureLen (drop (2 * IdentityHashLen) body)) (drop (2 * IdentityHashLen + signatureLen) body)))"

definition ParseOpportunisticBody :: "Lxmf_Codec \<Rightarrow> bytes \<Rightarrow> bytes \<Rightarrow> lxmf_error + Message" where
  "ParseOpportunisticBody K body destHash =
     (if length body < minOpportunisticBodyLen then Inl (BodyTooShort_m (length body))
      else if length destHash \<noteq> IdentityHashLen then Inl (DestHashLen (length destHash))
      else unpackPayload K (parsed_message destHash (take IdentityHashLen body) (take signatureLen (drop IdentityHashLen body))
             (drop (IdentityHashLen + signatureLen) body)))"

fun un_all :: "Lxmf_Codec \<Rightarrow> bytes list \<Rightarrow> gval list option" where
  "un_all K [] = Some []"
| "un_all K (e # es) = (case un_any K e of None \<Rightarrow> None | Some v \<Rightarrow> map_option ((#) v) (un_all K es))"

definition reencodeFirstFour :: "Lxmf_Codec \<Rightarrow> bytes \<Rightarrow> bytes option" where
  "reencodeFirstFour K payload =
     (case raw_elems K payload of None \<Rightarrow> None | Some elems \<Rightarrow>
        if length elems < 4 then None
        else case un_all K (take 4 elems) of None \<Rightarrow> None | Some vs \<Rightarrow> marshal_any K vs)"

definition Verify_m :: "Primitives \<Rightarrow> Lxmf_Codec \<Rightarrow> Message \<Rightarrow> bytes \<Rightarrow> lxmf_error option" where
  "Verify_m C K m senderEd25519Pub =
     (if length senderEd25519Pub \<noteq> 32 then Some SenderKeyLen
      else if Validate C senderEd25519Pub (buildSignedData C (DestHash_m m) (SourceHash m) (rawPayload m)) (Signature_m m) then None
      else if Stamp m = None then Some SignatureInvalid_m
      else case reencodeFirstFour K (rawPayload m) of None \<Rightarrow> Some ReencodeFailed | Some stripped \<Rightarrow>
        if Validate C senderEd25519Pub (buildSignedData C (DestHash_m m) (SourceHash m) stripped) (Signature_m m) then None
        else Some SignatureInvalid_m)"

section \<open>Delivery\<close>

record Delivery =
  identity_v :: Identity
  destHash_v :: bytes
  OnMessage_v :: bool
  LinkSendTimeout :: duration

text \<open>The callbacks of the delivery destination are addresses.\<close>

definition NewDelivery :: "Primitives \<Rightarrow> Identity option \<Rightarrow> nat \<Rightarrow> nat \<Rightarrow> nat option \<Rightarrow> Transport \<Rightarrow> Transport \<times> Delivery option" where
  "NewDelivery C ident onPacket onLink buildAnn t =
     (case ident of None \<Rightarrow> (t, None) | Some i \<Rightarrow>
      case DestinationHashFor C i FullName_lxmf of None \<Rightarrow> (t, None) | Some h \<Rightarrow>
        (case RegisterLocal (Some \<lparr>DestHash_d = h, Identity_d = Some i, OnPacket = Some onPacket, OnLinkPlaintext = Some onLink, BuildAnnounce_d = buildAnn\<rparr>) t of
           (t', Some _) \<Rightarrow> (t', None)
         | (t', None) \<Rightarrow> (t', Some \<lparr>identity_v = i, destHash_v = h, OnMessage_v = False, LinkSendTimeout = 0\<rparr>)))"

definition identityHashFromPublic :: "Primitives \<Rightarrow> bytes \<Rightarrow> bytes" where
  "identityHashFromPublic C publicKey = take IdentityHashLen (sha256 C publicKey)"

definition buildOutboundPacket :: "bytes \<Rightarrow> bytes \<Rightarrow> bytes \<Rightarrow> Packet" where
  "buildOutboundPacket recipientDestHash ciphertext transportID =
     (if length transportID = IdentityHashLen
      then \<lparr>HeaderType = HeaderType2, ContextFlag = False, TransportType = NetworkTransport, DestinationType = DestinationSingle,
            PacketType = PacketData, Hops = 0, TransportID = transportID, DestHash = recipientDestHash, Context = ContextNone, Data = ciphertext\<rparr>
      else \<lparr>HeaderType = HeaderType1, ContextFlag = False, TransportType = BroadcastTransport, DestinationType = DestinationSingle,
            PacketType = PacketData, Hops = 0, TransportID = [], DestHash = recipientDestHash, Context = ContextNone, Data = ciphertext\<rparr>)"

text \<open>A send either fails, has broadcast the message with the given id, or goes on over a link with a body, an id and a timeout.\<close>

datatype send_outcome = Failed lxmf_error | SentID bytes | OverLink bytes bytes duration

definition sendOverLink :: "Primitives \<Rightarrow> Lxmf_Codec \<Rightarrow> time \<Rightarrow> Delivery \<Rightarrow> bytes \<Rightarrow> bytes \<Rightarrow> bytes \<Rightarrow> fieldmap \<Rightarrow> send_outcome" where
  "sendOverLink C K now d recipient title content flds =
     (case signAndPackDirectAt C K (Some (identity_v d)) (destHash_v d) recipient title content flds now of Inl e \<Rightarrow> Failed e
      | Inr (directBody, mid) \<Rightarrow>
          OverLink directBody mid (if LinkSendTimeout d \<le> 0 then DefaultLinkSendTimeout else LinkSendTimeout d))"

definition SendWithID ::
  "Primitives \<Rightarrow> Lxmf_Codec \<Rightarrow> Env \<Rightarrow> Delivery \<Rightarrow> bytes \<Rightarrow> bytes \<Rightarrow> bytes \<Rightarrow> fieldmap \<Rightarrow> Transport \<Rightarrow> effect list \<times> send_outcome" where
  "SendWithID C K e d recipient title content flds t =
     (if length recipient \<noteq> IdentityHashLen then ([], Failed RecipientLen)
      else case Recall recipient t of None \<Rightarrow> ([], Failed (ErrRecipientUnknown recipient)) | Some k \<Rightarrow>
        case signAndPackOpportunisticAt C K (Some (identity_v d)) (destHash_v d) recipient title content flds (now_e e) of
          Inl (ErrPayloadTooLarge n) \<Rightarrow> ([], sendOverLink C K (later_e e) d recipient title content flds)
        | Inl err \<Rightarrow> ([], Failed err)
        | Inr (body, mid) \<Rightarrow>
            (case TokenEncrypt C (scalar_e e) (iv_e e) body (X25519Public_k k) (identityHashFromPublic C (PublicKey_k k)) of
               Inl err \<Rightarrow> ([], Failed (EncryptFailed err))
             | Inr ciphertext \<Rightarrow>
                 (case emit e (buildOutboundPacket recipient ciphertext (TransportID_k k)) t of
                    (fx, Some err) \<Rightarrow> (fx, Failed (BroadcastFailed err))
                  | (fx, None) \<Rightarrow> (fx, SentID mid))))"

text \<open>What both inbound paths do with a parsed message: the verified message that is handed to \<open>OnMessage\<close>, if any.\<close>

definition receive_parsed :: "Primitives \<Rightarrow> Lxmf_Codec \<Rightarrow> Env \<Rightarrow> Delivery \<Rightarrow> Message \<Rightarrow> Transport \<Rightarrow> Transport \<times> effect list \<times> Message option" where
  "receive_parsed C K e d msg t =
     (case Recall (SourceHash msg) t of
        None \<Rightarrow> (case RequestPath e (SourceHash msg) t of (t', fx, _) \<Rightarrow> (t', fx, None))
      | Some sender \<Rightarrow>
          (case Verify_m C K msg (Ed25519Public_k sender) of Some _ \<Rightarrow> (t, [], None)
           | None \<Rightarrow> (t, [], if OnMessage_v d then Some msg else None)))"

definition handleInbound :: "Primitives \<Rightarrow> Lxmf_Codec \<Rightarrow> Env \<Rightarrow> Delivery \<Rightarrow> Packet \<Rightarrow> Transport \<Rightarrow> Transport \<times> effect list \<times> Message option" where
  "handleInbound C K e d p t =
     (case TokenDecrypt C (identity_v d) (Data p) of Inl _ \<Rightarrow> (t, [], None) | Inr plaintext \<Rightarrow>
      case ParseOpportunisticBody K plaintext (DestHash p) of Inl _ \<Rightarrow> (t, [], None)
      | Inr msg \<Rightarrow> receive_parsed C K e d msg t)"

definition handleInboundLinkPlaintext ::
  "Primitives \<Rightarrow> Lxmf_Codec \<Rightarrow> Env \<Rightarrow> Delivery \<Rightarrow> bytes \<Rightarrow> Transport \<Rightarrow> Transport \<times> effect list \<times> Message option" where
  "handleInboundLinkPlaintext C K e d plaintext t =
     (case ParseDirectBody K plaintext of Inl _ \<Rightarrow> (t, [], None) | Inr msg \<Rightarrow> receive_parsed C K e d msg t)"

section \<open>What is packed is unpacked\<close>

text \<open>What the service relies on in msgpack: an encoded payload is an array of four elements that decode to the time, the title, the
  content and the fields, these up to the decoder's choice of types, \<open>norm\<close>.\<close>

definition lxmf_codec :: "Lxmf_Codec \<Rightarrow> (fieldmap \<Rightarrow> fieldmap) \<Rightarrow> bool" where
  "lxmf_codec K norm \<longleftrightarrow> (\<forall>ts title content flds payload. marshal_payload K ts title content flds = Some payload \<longrightarrow>
     (\<exists>a b c d. raw_elems K payload = Some [a, b, c, d] \<and> un_float K a = Some ts \<and> un_bytes K b = Some (Some title)
       \<and> un_bytes K c = Some (Some content) \<and> decodeFields K d = Some (norm flds)))"

lemma unpack_packed:
  assumes "lxmf_codec K norm" and "marshal_payload K ts title content flds = Some payload"
  obtains now where "unpackPayload K (parsed_message dest src sig payload) =
    Inr ((parsed_message dest src sig payload)\<lparr>Timestamp := now, Title := title, Content_m := content, Fields_m := norm flds\<rparr>)"
proof -
  obtain a b c d where e: "raw_elems K payload = Some [a, b, c, d]" "un_float K a = Some ts" "un_bytes K b = Some (Some title)"
      "un_bytes K c = Some (Some content)" "decodeFields K d = Some (norm flds)"
    using assms unfolding lxmf_codec_def by blast
  obtain whole frac where "split_seconds K ts = (whole, frac)" by fastforce
  with e show thesis by (intro that [of "whole * second + frac"]) (simp add: unpackPayload_def parsed_message_def bytes_or_string_def)
qed

text \<open>A message that its sender signed over the payload it carries is handed over.\<close>

lemma receive_signed:
  assumes ok: "crypto_ok C" "identity_ok C sender" and k: "Recall src t = Some k" "PublicKey_k k = PublicKey sender" and d: "OnMessage_v d"
    and m: "DestHash_m m = dest" "SourceHash m = src" "rawPayload m = payload" "Signature_m m = Sign C sender (buildSignedData C dest src payload)"
  shows "receive_parsed C K e d m t = (t, [], Some m)"
proof -
  have "Ed25519Public_k k = ed25519Pub sender" using k(2) PublicKey_ed [OF ok] by (simp add: Ed25519Public_k_def)
  moreover have "Verify_m C K m (ed25519Pub sender) = None"
    using m Sign_Validate [OF ok] identity_keys(2) [OF ok] by (simp add: Verify_m_def)
  ultimately show ?thesis using k(1) m(2) d by (simp add: receive_parsed_def)
qed

text \<open>What the recipient's application sees of a message.\<close>

definition arrives :: "Primitives \<Rightarrow> bytes \<Rightarrow> bytes \<Rightarrow> bytes \<Rightarrow> bytes \<Rightarrow> fieldmap \<Rightarrow> bytes \<Rightarrow> Message \<Rightarrow> bool" where
  "arrives C src dest title content flds mid m \<longleftrightarrow> SourceHash m = src \<and> DestHash_m m = dest \<and> Title m = title \<and> Content_m m = content
     \<and> Fields_m m = flds \<and> MessageID C m = mid"

lemma packed_received:
  assumes ok: "crypto_ok C" "identity_ok C sender" and codec: "lxmf_codec K norm" and p: "marshal_payload K ts title content flds = Some payload"
    and s: "buildSignedDataWithID C dest src payload = (sdat, mid)" and k: "Recall src t = Some k" "PublicKey_k k = PublicKey sender" and d: "OnMessage_v d"
  shows "\<exists>m. unpackPayload K (parsed_message dest src (Sign C sender sdat) payload) = Inr m \<and> receive_parsed C K e d m t = (t, [], Some m)
    \<and> arrives C src dest title content (norm flds) mid m"
proof -
  obtain now where u: "unpackPayload K (parsed_message dest src (Sign C sender sdat) payload) =
      Inr ((parsed_message dest src (Sign C sender sdat) payload)\<lparr>Timestamp := now, Title := title, Content_m := content, Fields_m := norm flds\<rparr>)"
    by (rule unpack_packed [OF codec p])
  let ?m = "(parsed_message dest src (Sign C sender sdat) payload)\<lparr>Timestamp := now, Title := title, Content_m := content, Fields_m := norm flds\<rparr>"
  have "receive_parsed C K e d ?m t = (t, [], Some ?m)"
    by (rule receive_signed [OF ok k d, where dest = dest and payload = payload]) (use s in \<open>simp_all add: parsed_message_def buildSignedData_def\<close>)
  moreover have "arrives C src dest title content (norm flds) mid ?m"
    using s by (auto simp: arrives_def parsed_message_def MessageID_def ComputeMessageID_def buildSignedDataWithID_def Let_def)
  ultimately show ?thesis using u by blast
qed

lemma SendWithID_SentID:
  assumes "SendWithID C K e d dest title content flds t = (fx, SentID mid)"
  obtains k payload sdat ct where "Recall dest t = Some k" and "length dest = 16" and "length (destHash_v d) = 16"
    and "marshal_payload K (float_seconds K (now_e e div 1000)) title content flds = Some payload"
    and "buildSignedDataWithID C dest (destHash_v d) payload = (sdat, mid)"
    and "TokenEncrypt C (scalar_e e) (iv_e e) (destHash_v d @ Sign C (identity_v d) sdat @ payload) (X25519Public_k k) (identityHashFromPublic C (PublicKey_k k)) = Inr ct"
    and "emit e (buildOutboundPacket dest ct (TransportID_k k)) t = (fx, None)"
proof -
  have len: "length dest = 16" using assms by (auto simp: SendWithID_def key_lens split: if_splits)
  obtain k where k: "Recall dest t = Some k" using assms len by (cases "Recall dest t") (auto simp: SendWithID_def key_lens)
  obtain body where b: "signAndPackOpportunisticAt C K (Some (identity_v d)) (destHash_v d) dest title content flds (now_e e) = Inr (body, mid)"
      "\<exists>ct. TokenEncrypt C (scalar_e e) (iv_e e) body (X25519Public_k k) (identityHashFromPublic C (PublicKey_k k)) = Inr ct
        \<and> emit e (buildOutboundPacket dest ct (TransportID_k k)) t = (fx, None)"
    using assms len k
    by (auto simp: SendWithID_def key_lens sendOverLink_def split: sum.splits prod.splits option.splits lxmf_error.splits)
  from b(1) obtain payload where p: "marshal_payload K (float_seconds K (now_e e div 1000)) title content flds = Some payload" "length (destHash_v d) = 16"
    by (auto simp: signAndPackOpportunisticAt_def key_lens Let_def split: if_splits option.splits prod.splits)
  obtain sdat mid' where s: "buildSignedDataWithID C dest (destHash_v d) payload = (sdat, mid')" by fastforce
  from b(1) p s len have "mid' = mid" "body = destHash_v d @ Sign C (identity_v d) sdat @ payload"
    by (auto simp: signAndPackOpportunisticAt_def key_lens split: if_splits)
  then show thesis using that k len p s b(2) by blast
qed

lemma SendWithID_OverLink:
  assumes "SendWithID C K e d dest title content flds t = (fx, OverLink body mid tmo)"
  obtains payload sdat where "length dest = 16" and "length (destHash_v d) = 16"
    and "marshal_payload K (float_seconds K (later_e e div 1000)) title content flds = Some payload"
    and "buildSignedDataWithID C dest (destHash_v d) payload = (sdat, mid)"
    and "body = dest @ destHash_v d @ Sign C (identity_v d) sdat @ payload"
proof -
  have "sendOverLink C K (later_e e) d dest title content flds = OverLink body mid tmo"
    using assms by (auto simp: SendWithID_def split: if_splits option.splits sum.splits prod.splits lxmf_error.splits)
  then have b: "signAndPackDirectAt C K (Some (identity_v d)) (destHash_v d) dest title content flds (later_e e) = Inr (body, mid)"
    by (auto simp: sendOverLink_def split: sum.splits prod.splits)
  then obtain payload where p: "marshal_payload K (float_seconds K (later_e e div 1000)) title content flds = Some payload" "length (destHash_v d) = 16" "length dest = 16"
    by (auto simp: signAndPackDirectAt_def key_lens Let_def split: if_splits option.splits prod.splits)
  obtain sdat mid' where s: "buildSignedDataWithID C dest (destHash_v d) payload = (sdat, mid')" by fastforce
  from b p s have "mid' = mid" "body = dest @ destHash_v d @ Sign C (identity_v d) sdat @ payload"
    by (auto simp: signAndPackDirectAt_def key_lens split: if_splits)
  then show thesis using that p s by blast
qed

section \<open>Delivery end to end\<close>

text \<open>The recipient's end: its delivery destination is registered, and it has heard the sender announce.\<close>

definition recipient_ready :: "Identity \<Rightarrow> Identity \<Rightarrow> bytes \<Rightarrow> bytes \<Rightarrow> nat \<Rightarrow> Delivery \<Rightarrow> Transport \<Rightarrow> bool" where
  "recipient_ready rcpt sender dest src cb d t \<longleftrightarrow> identity_v d = rcpt \<and> OnMessage_v d
     \<and> (\<exists>l. map_of (locals t) (hex_encode dest) = Some l \<and> OnPacket l = Some cb)
     \<and> (\<exists>k. Recall src t = Some k \<and> PublicKey_k k = PublicKey sender)"

lemma handleData_calls:
  assumes "map_of (locals t) (hex_encode (DestHash p)) = Some l" and "OnPacket l = Some cb"
  shows "\<exists>proofs. handleData C e p t = (t, proofs @ [OnPacketCall cb p])"
  using assms by (simp add: handleData_def Let_def)


text \<open>Parameters to evaluate the model on: a codec for one message, a sender and a recipient.\<close>

definition demo_codec :: Lxmf_Codec where
  "demo_codec = \<lparr>marshal_payload = (\<lambda>ts title content flds. if ts = 0 \<and> title = [] \<and> content = [1, 2] \<and> flds = [] then Some [7] else None),
     raw_elems = (\<lambda>b. Some [[1], [2], [3], [4]]), un_float = (\<lambda>b. Some 0), un_bytes = (\<lambda>b. Some (Some (if b = [2] then [] else [1, 2]))),
     un_string = (\<lambda>b. None), un_map = (\<lambda>b. Some []), un_any = (\<lambda>b. None), marshal_any = (\<lambda>vs. None),
     float_seconds = (\<lambda>n. 0), split_seconds = (\<lambda>w. (0, 0))\<rparr>"

lemma demo_codec_ok: "lxmf_codec demo_codec (\<lambda>f. f)"
  by (auto simp: lxmf_codec_def demo_codec_def decodeFields_def split: if_splits)

definition demo_known :: "byte \<Rightarrow> bytes \<Rightarrow> KnownIdentity" where
  "demo_known n dest = \<lparr>DestHash_k = dest, PublicKey_k = PublicKey (demo_identity n), NameHash_k = [], AppData_k = [], LastSeen_k = 0, LastRandom = [],
     Hops_k = 0, TransportID_k = []\<rparr>"

definition demo_src :: bytes where "demo_src = replicate 16 8"

definition demo_from :: Transport where
  "demo_from = demo_transport\<lparr>known := [(hex_encode demo_dest, demo_known 4 demo_dest)]\<rparr>"

definition demo_to :: Transport where
  "demo_to = demo_transport\<lparr>known := [(hex_encode demo_src, demo_known 6 demo_src)],
     locals := [(hex_encode demo_dest, \<lparr>DestHash_d = demo_dest, Identity_d = Some (demo_identity 4), OnPacket = Some 11, OnLinkPlaintext = None, BuildAnnounce_d = None\<rparr>)]\<rparr>"

definition demo_delivery :: "byte \<Rightarrow> bytes \<Rightarrow> Delivery" where
  "demo_delivery n h = \<lparr>identity_v = demo_identity n, destHash_v = h, OnMessage_v = True, LinkSendTimeout = 0\<rparr>"


section \<open>Who can speak for an address\<close>

lemma receive_parsed_Some:
  assumes "receive_parsed C K e d msg t = (t', fx, Some m)"
  obtains k payload where "m = msg" and "t' = t" and "fx = []" and "Recall (SourceHash m) t = Some k" and "payload = rawPayload m \<or> reencodeFirstFour K (rawPayload m) = Some payload"
    and "ed_verify C (Ed25519Public_k k) (buildSignedData C (DestHash_m m) (SourceHash m) payload) (Signature_m m)"
  using assms by (auto simp: receive_parsed_def Verify_m_def split: option.splits prod.splits if_splits dest!: Validate_D)

lemma unpackPayload_keeps:
  "unpackPayload K m = Inr m' \<Longrightarrow> DestHash_m m' = DestHash_m m \<and> SourceHash m' = SourceHash m \<and> Signature_m m' = Signature_m m \<and> rawPayload m' = rawPayload m"
  by (auto simp: unpackPayload_def split: option.splits if_splits prod.splits)

text \<open>The message was signed with the key that its source address was computed from.\<close>

definition authentic :: "Primitives \<Rightarrow> Lxmf_Codec \<Rightarrow> Message \<Rightarrow> bool" where
  "authentic C K m \<longleftrightarrow> (\<exists>pub name payload. length pub = 64 \<and> DestinationHash C name (take 16 (sha256 C pub)) = Some (SourceHash m)
    \<and> (payload = rawPayload m \<or> reencodeFirstFour K (rawPayload m) = Some payload)
    \<and> ed_verify C (drop 32 pub) (buildSignedData C (DestHash_m m) (SourceHash m) payload) (Signature_m m))"

lemma receive_authentic:
  assumes "table_ok C (known t)" and "receive_parsed C K e d msg t = (t', fx, Some m)"
  shows "authentic C K m" "m = msg" "t' = t" "fx = []"
proof -
  from assms(2) obtain k payload where k: "m = msg" "t' = t" "fx = []" "Recall (SourceHash m) t = Some k" "payload = rawPayload m \<or> reencodeFirstFour K (rawPayload m) = Some payload"
    "ed_verify C (Ed25519Public_k k) (buildSignedData C (DestHash_m m) (SourceHash m) payload) (Signature_m m)"
    by (rule receive_parsed_Some)
  from table_entry(2) [OF assms(1) k(4) [unfolded Recall_def]] table_entry(1) [OF assms(1) k(4) [unfolded Recall_def]]
  have "length (PublicKey_k k) = 64" "DestinationHash C (NameHash_k k) (take 16 (sha256 C (PublicKey_k k))) = Some (SourceHash m)"
    by (auto simp: entry_ok_def)
  with k(5,6) show "authentic C K m" unfolding Ed25519Public_k_def authentic_def by blast
  show "m = msg" "t' = t" "fx = []" using k by simp_all
qed

lemma inbound_parsed:
  "handleInbound C K e d p t = (t', fx, Some m) \<or> handleInboundLinkPlaintext C K e d body t = (t', fx, Some m)
     \<Longrightarrow> \<exists>msg. receive_parsed C K e d msg t = (t', fx, Some m)"
  by (auto simp: handleInbound_def handleInboundLinkPlaintext_def split: sum.splits)

text \<open>C20. Nobody can speak for another address: whatever the transport has heard before, a message that is handed to the application, from a packet
  or from a link, carries a signature over destination, source and payload (as received, or with its stamp removed) that verifies under a key whose
  hash is the source address; one that came in a packet was signed for the destination in the packet's header.\<close>

theorem lxmf_authentic:
  assumes ok: "crypto_ok C" and t: "idle_transport t0" "transport_run C M t0 t"
    and h: "handleInbound C K e d p t = (t', fx, Some m) \<or> handleInboundLinkPlaintext C K e d body t = (t', fx, Some m)"
  shows "authentic C K m \<and> (handleInbound C K e d p t = (t', fx, Some m) \<longrightarrow> DestHash_m m = DestHash p) \<and> t' = t \<and> fx = []"
proof -
  have dest: "DestHash_m m = DestHash p" if "handleInbound C K e d p t = (t', fx, Some m)"
    using that by (auto simp: handleInbound_def ParseOpportunisticBody_def parsed_message_def split: sum.splits if_splits
        elim!: receive_parsed_Some dest!: unpackPayload_keeps)
  have tbl: "table_ok C (known t)" using run_ok [OF ok t] by (simp add: transport_ok_def)
  obtain msg where r: "receive_parsed C K e d msg t = (t', fx, Some m)" using inbound_parsed [OF h] by (elim exE)
  from receive_authentic [OF tbl r] dest show ?thesis by (intro conjI impI) assumption+
qed

theorem lxmf_authentic_witness:
  "\<exists>t body m. transport_run demo_crypto demo_msgpack demo_transport t
     \<and> handleInboundLinkPlaintext demo_crypto demo_codec (demo_env 6) (demo_delivery 4 demo_dest) body t = (t, [], Some m)
     \<and> authentic demo_crypto demo_codec m"
proof -
  obtain raw a t where h: "dispatch demo_crypto demo_msgpack (demo_env 5) raw demo_transport = (t, [OnAnnounceCall 3 a])"
      "Recall (DestHash_a a) t = Some (known_entry 5 a)" "length (DestHash_a a) = 16" "PublicKey_a a = PublicKey (demo_identity 4)"
    by (rule demo_hears)
  have run: "transport_run demo_crypto demo_msgpack demo_transport t" unfolding transport_run_def using demo_step [OF h(1)] by blast
  let ?src = "DestHash_a a"
  obtain sdat mid where sd: "buildSignedDataWithID demo_crypto demo_dest ?src [7] = (sdat, mid)" by fastforce
  have p: "marshal_payload demo_codec 0 [] [1, 2] [] = Some [7]" by (simp add: demo_codec_def)
  have k: "PublicKey_k (known_entry 5 a) = PublicKey (demo_identity 4)" using h(4) by (simp add: known_entry_def)
  have "OnMessage_v (demo_delivery 4 demo_dest)" by (simp add: demo_delivery_def)
  from packed_received [OF demo_crypto_ok demo_identity_ok demo_codec_ok p sd h(2) k this, where e = "demo_env 6"] obtain m where
    m: "unpackPayload demo_codec (parsed_message demo_dest ?src (Sign demo_crypto (demo_identity 4) sdat) [7]) = Inr m"
      "receive_parsed demo_crypto demo_codec (demo_env 6) (demo_delivery 4 demo_dest) m t = (t, [], Some m)" by blast
  let ?body = "demo_dest @ ?src @ Sign demo_crypto (demo_identity 4) sdat @ [7]"
  have r: "handleInboundLinkPlaintext demo_crypto demo_codec (demo_env 6) (demo_delivery 4 demo_dest) ?body t = (t, [], Some m)"
    using m h(3) length_Sign [OF demo_crypto_ok demo_identity_ok]
    by (simp add: handleInboundLinkPlaintext_def ParseDirectBody_def signatureLen_def key_lens demo_dest_def)
  from lxmf_authentic [OF demo_crypto_ok demo_transport_idle run disjI2 [OF r]] run r show ?thesis by blast
qed

end
