(* ===== verification/Service.thy ===== *)
theory Service
  imports Lxmf Outbound Commands History "HOL-Library.Log_Nat"
begin

text \<open>
  The daemon's top layer, \<open>internal/service/service.go\<close>, \<open>inbox.go\<close>, \<open>forward.go\<close>, \<open>replay.go\<close> and \<open>announces.go\<close>: the
  state all components share, what happens to a received message, to an announce and on the prune tick, the hooks of the
  command dispatcher, the announce cache on disk, and the start-up of all of it.
\<close>

section \<open>State\<close>

record Service =
  cfg :: Config
  identity :: Identity
  transport :: Transport
  delivery :: Delivery
  roster :: Roster
  history :: Log
  outbound :: OutboundQueue
  idmap :: "Cache option"

text \<open>A goroutine the service starts (the replay to a new member), and what the transport sends.\<close>

datatype service_effect = StartReplay bytes time | Net effect

datatype announce_failure = AppDataFailed | BuildFailed announce_error | SendFailed transport_error

text \<open>What the handling of one event reads from outside: the clock at its start and later, the clock and the random id of
  the k-th message it queues, the address of the next bubble, the encoded size of a field value, the network and the entropy of
  an announce, and the texts of Go's errors and of \<open>%q\<close>.\<close>

record Inputs =
  now_i :: time
  later_i :: time
  queued_i :: "nat \<Rightarrow> string \<times> time"
  bubble_i :: nat
  enc_size_i :: "gval \<Rightarrow> nat option"
  net_i :: Env
  rnd_i :: "bytes option"
  err_text_i :: "announce_failure \<Rightarrow> string"
  printable_i :: "nat \<Rightarrow> bool"

section \<open>Announcing\<close>

definition buildAnnounceWithContext :: "Primitives \<Rightarrow> Msgpack \<Rightarrow> time \<Rightarrow> bytes option \<Rightarrow> byte \<Rightarrow> Service \<Rightarrow> announce_failure + Packet" where
  "buildAnnounceWithContext C M now rnd ctx s =
     (case EncodeLXMFAppData M (bytes_of (DisplayName (Service (cfg s)))) None of None \<Rightarrow> Inl AppDataFailed | Some appData \<Rightarrow>
      case BuildAnnounceWithContext C now rnd (identity s) FullName_lxmf appData None ctx of Inl e \<Rightarrow> Inl (BuildFailed e)
      | Inr p \<Rightarrow> Inr p)"

definition buildAnnounce_s :: "Primitives \<Rightarrow> Msgpack \<Rightarrow> time \<Rightarrow> bytes option \<Rightarrow> Service \<Rightarrow> announce_failure + Packet" where
  "buildAnnounce_s C M now rnd s =
     (case EncodeLXMFAppData M (bytes_of (DisplayName (Service (cfg s)))) None of None \<Rightarrow> Inl AppDataFailed | Some appData \<Rightarrow>
      case BuildAnnounce C now rnd (identity s) FullName_lxmf appData None of Inl e \<Rightarrow> Inl (BuildFailed e)
      | Inr p \<Rightarrow> Inr p)"

definition announceNow :: "Primitives \<Rightarrow> Msgpack \<Rightarrow> Inputs \<Rightarrow> Service \<Rightarrow> effect list \<times> announce_failure option" where
  "announceNow C M i s =
     (case buildAnnounce_s C M (later_i i) (rnd_i i) s of Inl e \<Rightarrow> ([], Some e)
      | Inr pkt \<Rightarrow> (case emit (net_i i) pkt (transport s) of (fx, err) \<Rightarrow> (fx, map_option SendFailed err)))"

section \<open>The hooks of the dispatcher\<close>

definition lookupAnnouncedName :: "Msgpack \<Rightarrow> Service \<Rightarrow> bytes \<Rightarrow> string" where
  "lookupAnnouncedName M s hashBytes =
     (if length hashBytes \<noteq> IdentityHashLen then []
      else case Recall hashBytes (transport s) of None \<Rightarrow> [] | Some k \<Rightarrow>
        if AppData_k k = [] then []
        else (case DecodeLXMFAppDataDisplayName M (AppData_k k) of None \<Rightarrow> [] | Some name \<Rightarrow> string_of name))"

definition pathLookup :: "Service \<Rightarrow> string \<Rightarrow> PathInfo" where
  "pathLookup s destHashHex =
     (let nothing = \<lparr>Known = False, PathSeen = 0, Hops = 0, NextHopHex = [], LinkActive = False\<rparr>
      in case hex_decode destHashHex of None \<Rightarrow> nothing | Some destHash \<Rightarrow>
        if length destHash \<noteq> 16 then nothing
        else (case Recall destHash (transport s) of None \<Rightarrow> nothing | Some k \<Rightarrow>
          \<lparr>Known = True, PathSeen = LastSeen_k k, Hops = uint (Hops_k k),
           NextHopHex = (if length (TransportID_k k) = 16 then hex_encode (TransportID_k k) else []),
           LinkActive = (ActiveTo destHash (linkManager (transport s)) \<noteq> None)\<rparr>))"

definition onJoin :: "Inputs \<Rightarrow> Service \<Rightarrow> string \<Rightarrow> service_effect list" where
  "onJoin i s senderHex =
     (case hex_decode senderHex of None \<Rightarrow> [] | Some b \<Rightarrow>
        if length b \<noteq> 16 then []
        else if ReplayCount (Replay (cfg s)) > 0 then [StartReplay b (later_i i)] else [])"

text \<open>The dispatcher as \<open>New\<close> wires it.\<close>

definition dispatcher :: "Primitives \<Rightarrow> Msgpack \<Rightarrow> Inputs \<Rightarrow> Service \<Rightarrow> Dispatcher" where
  "dispatcher C M i s =
     \<lparr>Cfg = cfg s, AnnounceHook = Some (map_option (err_text_i i) (snd (announceNow C M i s))),
      PathLookup = Some (pathLookup s), OnJoin = True, LookupAnnouncedName = Some (lookupAnnouncedName M s),
      MaxReplyContentBytes = 0, printable = printable_i i\<rparr>"

definition run_hook :: "Primitives \<Rightarrow> Msgpack \<Rightarrow> Inputs \<Rightarrow> Service \<Rightarrow> hook_call \<Rightarrow> service_effect list" where
  "run_hook C M i s c =
     (case c of AnnounceCall \<Rightarrow> map Net (fst (announceNow C M i s)) | OnJoinCall h \<Rightarrow> onJoin i s h)"

section \<open>Replies\<close>

definition enqueue_text :: "Inputs \<Rightarrow> bytes \<Rightarrow> string \<Rightarrow> Service \<Rightarrow> Service" where
  "enqueue_text i recipient text s =
     s\<lparr>outbound := Enqueue (outbound s) (fst (queued_i i 0)) (snd (queued_i i 0)) recipient (bytes_of text)\<rparr>"

definition replyInvite :: "Inputs \<Rightarrow> bytes \<Rightarrow> Service \<Rightarrow> Service" where
  "replyInvite i senderBytes s = enqueue_text i senderBytes
     ''Welcome. To join this chat send /join. Send /? for help. Until you join, your messages aren't forwarded.'' s"

definition replyPaused :: "Inputs \<Rightarrow> bytes \<Rightarrow> Service \<Rightarrow> Service" where
  "replyPaused i senderBytes s = enqueue_text i senderBytes
     ''You're paused. Your message wasn't forwarded. Send /resume to come back.'' s"

definition replyOverInboundLimit :: "Inputs \<Rightarrow> bytes \<Rightarrow> nat \<Rightarrow> Service \<Rightarrow> Service" where
  "replyOverInboundLimit i senderBytes charCount s = enqueue_text i senderBytes
     (''Message rejected: limit is '' @ int_str (MaxInboundChars (Service (cfg s))) @ '' characters per message, yours was ''
       @ nat_str charCount @ ''. Please shorten and resend.'') s"

section \<open>Forwarding\<close>

text \<open>The fields for one recipient: the closure of \<open>buildRewrite\<close> reads the id cache when it runs.\<close>

definition fields_for :: "Cache option \<Rightarrow> plan option \<Rightarrow> string \<Rightarrow> fieldmap \<Rightarrow> fieldmap option" where
  "fields_for c rewrite h flds =
     (case rewrite of None \<Rightarrow> Some flds | Some p \<Rightarrow> (case c of None \<Rightarrow> Some flds | Some c \<Rightarrow> run_rewrite c p h flds))"

fun forward_loop :: "Inputs \<Rightarrow> Service \<Rightarrow> string \<Rightarrow> string \<Rightarrow> fieldmap \<Rightarrow> plan option \<Rightarrow> nat option \<Rightarrow> string list
    \<Rightarrow> OutboundQueue \<times> nat \<Rightarrow> OutboundQueue \<times> nat" where
  "forward_loop i s senderHex body flds rewrite bubble [] (q, n) = (q, n)"
| "forward_loop i s senderHex body flds rewrite bubble (h # hs) (q, n) =
     forward_loop i s senderHex body flds rewrite bubble hs
       (if h = senderHex then (q, n)
        else case hex_decode h of None \<Rightarrow> (q, n) | Some raw \<Rightarrow>
          if length raw \<noteq> 16 then (q, n)
          else case fields_for (idmap s) rewrite h flds of None \<Rightarrow> (q, n) | Some rf \<Rightarrow>
            if IsTextOnly (roster s) h \<and> body = [] then (q, n)
            else (EnqueueBubble q (fst (queued_i i n)) (snd (queued_i i n)) raw (bytes_of body)
                    (if IsTextOnly (roster s) h then [] else rf) bubble, Suc n))"

definition forwardToRoster :: "Inputs \<Rightarrow> string \<Rightarrow> string \<Rightarrow> fieldmap \<Rightarrow> plan option \<Rightarrow> nat option \<Rightarrow> Service \<Rightarrow> Service \<times> nat" where
  "forwardToRoster i senderHex body flds rewrite bubble s =
     (case forward_loop i s senderHex body flds rewrite bubble (ActiveHashes (roster s)) (outbound s, 0) of
        (q, n) \<Rightarrow> (s\<lparr>outbound := q\<rparr>, n))"

definition newBubbleForForward :: "Inputs \<Rightarrow> Service \<Rightarrow> Service \<times> nat option" where
  "newBubbleForForward i s =
     (case idmap s of None \<Rightarrow> (s, None) | Some c \<Rightarrow>
        if IDCacheTTL (Service (cfg s)) \<le> 0 then (s, None)
        else (s\<lparr>idmap := Some (NewBubble c (bubble_i i) (IDCacheTTL (Service (cfg s))) (later_i i))\<rparr>, Some (bubble_i i)))"

section \<open>Received messages\<close>

text \<open>The body of the forwarded copy: the prefixed text and the notes on dropped attachments.\<close>

definition forward_body :: "string \<Rightarrow> string \<Rightarrow> string list \<Rightarrow> string" where
  "forward_body nick content drops =
     foldl (\<lambda>body note. if body = [] then note else body @ '' '' @ note)
       (if content = [] then [] else ''['' @ nick @ ''] '' @ content) drops"

definition sender_nick :: "Roster \<Rightarrow> string \<Rightarrow> string" where
  "sender_nick r senderHex =
     (case Get r senderHex of None \<Rightarrow> take 8 senderHex | Some u \<Rightarrow> if Nickname u = [] then take 8 senderHex else Nickname u)"

text \<open>The bubble of a primary message, with the sender's own view of it.\<close>

definition open_bubble :: "Primitives \<Rightarrow> Inputs \<Rightarrow> string \<Rightarrow> Message \<Rightarrow> string \<Rightarrow> fieldmap \<Rightarrow> Service \<Rightarrow> Service \<times> nat option" where
  "open_bubble C i senderHex msg content flds s =
     (if \<not> isPrimaryBubble content flds then (s, None)
      else case newBubbleForForward i s of
        (s', Some b) \<Rightarrow>
          (case idmap s' of None \<Rightarrow> (s', Some b)
           | Some c \<Rightarrow> (s'\<lparr>idmap := Some (RegisterView c (later_i i) (Some b) senderHex (hex_encode (MessageID C msg)))\<rparr>, Some b))
      | (s', None) \<Rightarrow> (s', None))"

text \<open>The fan-out and the history entry of a chat message whose body and fields survived the policy.\<close>

definition relay :: "Primitives \<Rightarrow> Inputs \<Rightarrow> Message \<Rightarrow> string \<Rightarrow> string \<Rightarrow> fieldmap \<Rightarrow> string \<Rightarrow> Service \<Rightarrow> Service" where
  "relay C i msg nick content flds body s =
     (let senderBytes = SourceHash msg; senderHex = hex_encode senderBytes;
          (idm, rewrite) = buildRewrite (idmap s) (later_i i) flds;
          (s2, bubble) = open_bubble C i senderHex msg content flds (s\<lparr>idmap := idm\<rparr>);
          stamped = (case stampReactorIdentity flds senderBytes of None \<Rightarrow> flds | Some f \<Rightarrow> f);
          (s3, delivered) = forwardToRoster i senderHex body stamped rewrite bubble s2
      in if delivered > 0 \<and> content \<noteq> []
         then s3\<lparr>history := fst (Append (history s3)
                \<lparr>At = now_i i, SenderHash = senderHex, SenderNick = nick, Content = content\<rparr>)\<rparr>
         else s3)"

text \<open>A chat message of an active member, from the stamp on.\<close>

definition forward_message :: "Primitives \<Rightarrow> Inputs \<Rightarrow> Message \<Rightarrow> string \<Rightarrow> Service \<Rightarrow> Service" where
  "forward_message C i msg text s =
     (let s1 = s\<lparr>roster := fst (MarkMessage (roster s) (SourceHash msg) (now_i i))\<rparr>;
          nick = sender_nick (roster s1) (hex_encode (SourceHash msg));
          content = sanitizeForward text;
          (flds, drops) = filterAttachments (enc_size_i i) (Fields_m msg) (Service (cfg s));
          body = forward_body nick content drops
      in if body = [] \<and> flds = [] then s1 else relay C i msg nick content flds body s1)"

text \<open>A command: dispatched, its hooks run, its reply queued.\<close>

definition run_command :: "Primitives \<Rightarrow> Msgpack \<Rightarrow> Inputs \<Rightarrow> bytes \<Rightarrow> string \<Rightarrow> Service \<Rightarrow> Service \<times> service_effect list" where
  "run_command C M i senderBytes content s =
     (case Dispatch (dispatcher C M i s) (roster s) (later_i i) (hex_encode senderBytes) (Parse content) of
        (r, reply, hooks) \<Rightarrow>
          (let s1 = s\<lparr>roster := r\<rparr>
           in (if reply = [] then s1 else enqueue_text i senderBytes reply s1, concat (map (run_hook C M i s) hooks))))"

definition onLXMFReceived :: "Primitives \<Rightarrow> Msgpack \<Rightarrow> Inputs \<Rightarrow> Message \<Rightarrow> Service \<Rightarrow> Service \<times> service_effect list" where
  "onLXMFReceived C M i msg s =
     (let senderBytes = SourceHash msg; senderHex = hex_encode senderBytes
      in if IsBanned (roster s) senderBytes then (s, [])
         else
          (let s1 = s\<lparr>roster := fst (Touch (roster s) senderBytes (now_i i))\<rparr>;
               content = TrimRight (string_of (Content_m msg)) [CHR 0x0D, CHR 0x0A];
               limit = MaxInboundChars (Service (cfg s))
           in if IsCommand content then run_command C M i senderBytes content s1
              else if limit > 0 \<and> int (RuneCount content) > limit
                then (replyOverInboundLimit i senderBytes (RuneCount content) s1, [])
              else if \<not> Has (roster s1) senderBytes then (replyInvite i senderBytes s1, [])
              else if IsPaused (roster s1) senderHex then (replyPaused i senderBytes s1, [])
              else (forward_message C i msg content s1, [])))"

section \<open>Replay\<close>

text \<open>\<open>float64\<close> on positive rationals, a numerator over a denominator: \<open>fl\<close> rounds to 53 significant bits, ties to even. Only
  values below \<open>2 ^ 53\<close> occur.\<close>

definition round_even :: "int \<Rightarrow> int \<Rightarrow> int" where
  "round_even n d = (let q = n div d; r = n mod d in if 2 * r > d \<or> 2 * r = d \<and> odd q then q + 1 else q)"

definition fl :: "int \<times> int \<Rightarrow> int \<times> int" where
  "fl x = (case x of (n, d) \<Rightarrow>
     if n = 0 then (0, 1)
     else (let s0 = nat (53 + bitlen d - bitlen n);
               sh = (if n * 2 ^ s0 \<ge> d * 2 ^ 53 then s0 - 1 else s0)
           in (round_even (n * 2 ^ sh) d, 2 ^ sh)))"

text \<open>\<open>Duration.Seconds\<close>, \<open>Minutes\<close> and \<open>Hours\<close> of a non-negative duration: the whole units plus the rest.\<close>

definition in_units :: "duration \<Rightarrow> duration \<Rightarrow> int \<times> int" where
  "in_units d u = (case fl (d mod u, u) of (n, m) \<Rightarrow> fl (d div u * m + n, m))"

definition trunc :: "int \<times> int \<Rightarrow> int" where "trunc x = fst x div snd x"

text \<open>\<open>int(...)\<close> truncates towards zero, and the arithmetic is symmetric in the sign.\<close>

definition humanizeAge :: "duration \<Rightarrow> string" where
  "humanizeAge d =
     (if d < minute then int_str (sgn d * trunc (in_units \<bar>d\<bar> second)) @ ''s''
      else if d < hour then int_str (trunc (in_units d minute)) @ ''m''
      else if d < 24 * hour then int_str (trunc (in_units d hour)) @ ''h''
      else int_str (trunc (case in_units d hour of (a, b) \<Rightarrow> fl (a, b * 24))) @ ''d'')"

text \<open>\<open>Time.Sub\<close> saturates.\<close>

definition time_sub :: "time \<Rightarrow> time \<Rightarrow> duration" where
  "time_sub a b = max (- (2 ^ 63)) (min (2 ^ 63 - 1) (a - b))"

definition replay_line :: "time \<Rightarrow> Entry \<Rightarrow> string" where
  "replay_line now e = ''[replay '' @ humanizeAge (time_sub now (At e)) @ ''] ['' @ SenderNick e @ ''] '' @ sanitizeForward (Content e)"

fun replay_loop :: "Inputs \<Rightarrow> bytes \<Rightarrow> time \<Rightarrow> nat \<Rightarrow> Entry list \<Rightarrow> OutboundQueue \<Rightarrow> OutboundQueue" where
  "replay_loop i joiner now k [] q = q"
| "replay_loop i joiner now k (e # es) q = replay_loop i joiner now (Suc k) es
     (Enqueue q (fst (queued_i i k)) (snd (queued_i i k)) joiner (bytes_of (replay_line now e)))"

definition replay_cutoff :: "time \<Rightarrow> ReplayConfig \<Rightarrow> time" where
  "replay_cutoff now rc = (if ReplayMaxAge rc > 0 then now - ReplayMaxAge rc else 0)"

definition replayHistoryTo :: "Inputs \<Rightarrow> bytes \<Rightarrow> time \<Rightarrow> Service \<Rightarrow> Service" where
  "replayHistoryTo i joinerHash now s =
     s\<lparr>outbound := replay_loop i joinerHash now 0 (SinceOldest (history s) (replay_cutoff now (Replay (cfg s)))) (outbound s)\<rparr>"

section \<open>Announces and pruning\<close>

definition AspectMatch :: "Primitives \<Rightarrow> bytes \<Rightarrow> bool" where
  "AspectMatch C nameHash = bytesEqual nameHash (NameHash C FullName_lxmf)"

definition maybeAdoptAnnouncedNickname :: "Msgpack \<Rightarrow> Announce \<Rightarrow> Service \<Rightarrow> Service" where
  "maybeAdoptAnnouncedNickname M a s =
     (let hashHex = hex_encode (DestHash_a a)
      in case Get (roster s) hashHex of None \<Rightarrow> s | Some u \<Rightarrow>
         if Nickname u \<noteq> [] then s
         else case DecodeLXMFAppDataDisplayName M (AppData a) of None \<Rightarrow> s | Some name \<Rightarrow>
           if name = [] \<or> SanitizeNickname (string_of name) = [] then s
           else s\<lparr>roster := fst (SetNickname (roster s) hashHex (SanitizeNickname (string_of name)))\<rparr>)"

definition OnAnnounce :: "Msgpack \<Rightarrow> time \<Rightarrow> Announce \<Rightarrow> Service \<Rightarrow> Service" where
  "OnAnnounce M now a s =
     (let stamp = (case EmittedAt a of Inl _ \<Rightarrow> now | Inr emitted \<Rightarrow> if emitted > now then now else emitted)
      in maybeAdoptAnnouncedNickname M a (s\<lparr>roster := fst (UpdateLastAnnounce (roster s) (DestHash_a a) stamp)\<rparr>))"

definition runPrune :: "time \<Rightarrow> Service \<Rightarrow> Service" where
  "runPrune now s = s\<lparr>roster := fst (Prune (roster s) now (PruneAfter (Service (cfg s))) (PruneSilentAfter (Service (cfg s))))\<rparr>"

section \<open>The announce cache on disk\<close>

text \<open>The file: absent, or its parsed entries (\<open>null\<close> is \<open>None\<close>); the errors are what the next read or write meets.\<close>

record announceStore =
  a_file :: "KnownIdentity option list option"
  a_read_err :: "string option"
  a_write_err :: "string option"

definition announceStoreMaxAge :: duration where "announceStoreMaxAge = 30 * 24 * hour"

fun keep_recent :: "time \<Rightarrow> KnownIdentity option list \<Rightarrow> KnownIdentity list \<times> nat" where
  "keep_recent cutoff [] = ([], 0)"
| "keep_recent cutoff (None # es) = keep_recent cutoff es"
| "keep_recent cutoff (Some e # es) =
     (case keep_recent cutoff es of (kept, dropped) \<Rightarrow>
        if LastSeen_k e < cutoff then (kept, Suc dropped) else (e # kept, dropped))"

definition load_announces :: "time \<Rightarrow> announceStore \<Rightarrow> string + KnownIdentity list \<times> nat" where
  "load_announces now st =
     (case a_read_err st of Some e \<Rightarrow> Inl e | None \<Rightarrow>
      case a_file st of None \<Rightarrow> Inr ([], 0) | Some es \<Rightarrow> Inr (keep_recent (now - announceStoreMaxAge) es))"

definition save_announces :: "KnownIdentity list \<Rightarrow> announceStore \<Rightarrow> announceStore \<times> string option" where
  "save_announces es st =
     (case a_write_err st of Some e \<Rightarrow> (st, Some e) | None \<Rightarrow> (st\<lparr>a_file := Some (map Some es)\<rparr>, None))"

definition OnAnnounce_persist :: "Transport \<Rightarrow> announceStore \<Rightarrow> announceStore" where
  "OnAnnounce_persist t st = fst (save_announces (KnownSnapshot t) st)"

fun restore_all :: "KnownIdentity list \<Rightarrow> Transport \<Rightarrow> Transport" where
  "restore_all [] t = t"
| "restore_all (k # ks) t = restore_all ks (Restore (Some k) t)"

text \<open>What \<open>New\<close> does with the store.\<close>

definition restore_announces :: "time \<Rightarrow> announceStore \<Rightarrow> Transport \<Rightarrow> Transport" where
  "restore_announces now st t = (case load_announces now st of Inl _ \<Rightarrow> t | Inr (es, _) \<Rightarrow> restore_all es t)"

section \<open>Start-up\<close>

text \<open>Where the identity came from, and for a fresh one what is written: the key file, and the text of the backup file (which
  may fail to be written without consequence).\<close>

datatype loaded = FromConfig Identity | FromFile Identity | Created Identity bytes string

datatype new_error =
    StateDir string | LoadRoster string | LoadHistory string | OpenLog string | BadB64 string | BadIdentity identity_error
  | SaveIdentity string | RegisterFailed | LoadOutbound string

text \<open>\<open>stat\<close> says what is at the path: nothing, or what reading the file gives.\<close>

definition loadOrCreateIdentity ::
  "Primitives \<Rightarrow> (string \<Rightarrow> string + bytes) \<Rightarrow> (bytes \<Rightarrow> string) \<Rightarrow> string \<Rightarrow> (string + bytes) option \<Rightarrow> bytes option \<Rightarrow> bytes option
    \<Rightarrow> string option \<Rightarrow> new_error + loaded" where
  "loadOrCreateIdentity C decode64 encode64 b64 stat rnd1 rnd2 kerr =
     (if TrimSpace b64 \<noteq> [] then
        (case decode64 (TrimSpace b64) of Inl e \<Rightarrow> Inl (BadB64 e) | Inr raw \<Rightarrow>
         case IdentityFromPrivateKey C raw of Inl e \<Rightarrow> Inl (BadIdentity e) | Inr ident \<Rightarrow> Inr (FromConfig ident))
      else case stat of
        Some file \<Rightarrow> (case IdentityFromFile C file of Inl e \<Rightarrow> Inl (BadIdentity e) | Inr ident \<Rightarrow> Inr (FromFile ident))
      | None \<Rightarrow>
          (case NewIdentity C rnd1 rnd2 of Inl e \<Rightarrow> Inl (BadIdentity e) | Inr ident \<Rightarrow>
           case kerr of Some e \<Rightarrow> Inl (SaveIdentity e)
           | None \<Rightarrow> Inr (Created ident (PrivateKey ident) (encode64 (PrivateKey ident) @ nl))))"

fun loaded_identity :: "loaded \<Rightarrow> Identity" where
  "loaded_identity (FromConfig ident) = ident"
| "loaded_identity (FromFile ident) = ident"
| "loaded_identity (Created ident key backup) = ident"

text \<open>The files and oracles of a start.\<close>

record Disk =
  mkdir_err :: "string option"
  roster_store :: Store
  history_file :: "Entry list option"
  history_read_err :: "string option"
  history_write_err :: "string option"
  log_err :: "string option"
  queue_store :: outboundStore
  announce_store :: announceStore

text \<open>The callbacks of the delivery destination are 0 (packets), 1 (link plaintexts) and 2 (path-response announces); the announce
  handlers are 0 (\<open>announceTap\<close>) and 1 (\<open>announcePersistTap\<close>).\<close>

definition New_service :: "Primitives \<Rightarrow> time \<Rightarrow> Disk \<Rightarrow> new_error + loaded \<Rightarrow> Config \<Rightarrow> new_error + Service" where
  "New_service C now d ident c =
     (case mkdir_err d of Some e \<Rightarrow> Inl (StateDir e) | None \<Rightarrow>
      case New (Some (roster_store d)) of Inl e \<Rightarrow> Inl (LoadRoster e) | Inr r \<Rightarrow>
      case New_log (ReplayCount (Replay c)) (history_file d) (history_read_err d) (history_write_err d) of
        Inl e \<Rightarrow> Inl (LoadHistory e) | Inr hist \<Rightarrow>
      case log_err d of Some e \<Rightarrow> Inl (OpenLog e) | None \<Rightarrow>
      case ident of Inl e \<Rightarrow> Inl e | Inr ld \<Rightarrow>
      (let self = loaded_identity ld;
           t0 = SetInitiatorIdentity (Some self) NewTransport
       in case NewDelivery C (Some self) 0 1 (Some 2) t0 of (_, None) \<Rightarrow> Inl RegisterFailed
          | (t1, Some dl) \<Rightarrow>
              (case Load_queue (newOutboundQueue (Some (queue_store d))) of Inl e \<Rightarrow> Inl (LoadOutbound e) | Inr q \<Rightarrow>
                 Inr \<lparr>cfg = c, identity = self,
                      transport = RegisterAnnounceHandler 1 (restore_announces now (announce_store d) (RegisterAnnounceHandler 0 t1)),
                      delivery = dl\<lparr>OnMessage_v := True\<rparr>, roster = r, history = hist, outbound = q,
                      idmap = (if IDCacheTTL (Service c) > 0
                               then Some (New_cache (IDCacheTTL (Service c)) (IDCacheMax (Service c))) else None)\<rparr>)))"

text \<open>Dialling the configured interfaces, the first thing \<open>Run\<close> does: an interface that cannot be reached is logged and left out.
  \<open>dial\<close> is the outcome of \<open>DialReconnectingTCP\<close>: an error, or the address of the client.\<close>

datatype dial_error = UnsupportedType string | DialFailed string

definition dialInterface :: "(string \<Rightarrow> duration \<Rightarrow> string + nat) \<Rightarrow> InterfaceConfig \<Rightarrow> Service \<Rightarrow> Service \<times> dial_error option" where
  "dialInterface dial f s =
     (if IfType f = ''tcp_client''
      then case dial (IfAddr f) (IfTimeout f) of
             Inl e \<Rightarrow> (s, Some (DialFailed e))
           | Inr client \<Rightarrow> (s\<lparr>transport := AddInterface client (transport s)\<rparr>, None)
      else (s, Some (UnsupportedType (IfType f))))"

fun dial_loop :: "(string \<Rightarrow> duration \<Rightarrow> string + nat) \<Rightarrow> InterfaceConfig list \<Rightarrow> Service \<Rightarrow> Service" where
  "dial_loop dial [] s = s"
| "dial_loop dial (f # fs) s = dial_loop dial fs (fst (dialInterface dial f s))"

definition Run_dials :: "(string \<Rightarrow> duration \<Rightarrow> string + nat) \<Rightarrow> Service \<Rightarrow> Service" where
  "Run_dials dial s = dial_loop dial (Interfaces (cfg s)) s"

section \<open>The outbound sender\<close>

text \<open>What the queue asks of the transport: when the recipient last announced, and a path request.\<close>

definition LastAnnounceFor :: "Service \<Rightarrow> bytes \<Rightarrow> time option" where
  "LastAnnounceFor s recipient = map_option LastSeen_k (Recall recipient (transport s))"

definition SendLXMF :: "Primitives \<Rightarrow> Lxmf_Codec \<Rightarrow> Env \<Rightarrow> bytes \<Rightarrow> bytes \<Rightarrow> fieldmap \<Rightarrow> Service \<Rightarrow> effect list \<times> send_outcome" where
  "SendLXMF C K e recipient body flds s = SendWithID C K e (delivery s) recipient [] body flds (transport s)"

definition RequestPath_q :: "Env \<Rightarrow> bytes \<Rightarrow> Service \<Rightarrow> Service \<times> effect list" where
  "RequestPath_q e recipient s =
     (case RequestPath e recipient (transport s) of (t, fx, _) \<Rightarrow> (s\<lparr>transport := t\<rparr>, fx))"

section \<open>A frame from an interface\<close>

text \<open>The callbacks the transport runs for a frame: the announce handlers, and the delivery's two inbound paths, which hand a
  verified message to \<open>go d.OnMessage\<close>. The result is the messages of the goroutines started.\<close>

fun run_callback :: "Primitives \<Rightarrow> Msgpack \<Rightarrow> Lxmf_Codec \<Rightarrow> Inputs \<Rightarrow> effect \<Rightarrow> Service \<times> announceStore \<Rightarrow> (Service \<times> announceStore) \<times> effect list \<times> Message list" where
  "run_callback C M K i (OnAnnounceCall h a) (s, st) =
     (if h = 0 then ((OnAnnounce M (later_i i) a s, st), [], [])
      else ((s, OnAnnounce_persist (transport s) st), [], []))"
| "run_callback C M K i (OnPacketCall cb p) (s, st) =
     (case handleInbound C K (net_i i) (delivery s) p (transport s) of
        (t, fx, m) \<Rightarrow> ((s\<lparr>transport := t\<rparr>, st), fx, case m of None \<Rightarrow> [] | Some m \<Rightarrow> [m]))"
| "run_callback C M K i (OnLinkCall (ToLink cb body)) (s, st) =
     (case handleInboundLinkPlaintext C K (net_i i) (delivery s) body (transport s) of
        (t, fx, m) \<Rightarrow> ((s\<lparr>transport := t\<rparr>, st), fx, case m of None \<Rightarrow> [] | Some m \<Rightarrow> [m]))"
| "run_callback C M K i x (s, st) = ((s, st), [x], [])"

fun run_callbacks :: "Primitives \<Rightarrow> Msgpack \<Rightarrow> Lxmf_Codec \<Rightarrow> Inputs \<Rightarrow> effect list \<Rightarrow> Service \<times> announceStore \<Rightarrow> (Service \<times> announceStore) \<times> effect list \<times> Message list" where
  "run_callbacks C M K i [] s = (s, [], [])"
| "run_callbacks C M K i (x # xs) s =
     (case run_callback C M K i x s of (s1, fx1, ms1) \<Rightarrow>
      case run_callbacks C M K i xs s1 of (s2, fx2, ms2) \<Rightarrow> (s2, fx1 @ fx2, ms1 @ ms2))"

text \<open>The environment of the transport's handlers, with the aspects and the announce builder of this service.\<close>

definition wired :: "Primitives \<Rightarrow> Msgpack \<Rightarrow> Inputs \<Rightarrow> Service \<Rightarrow> Env" where
  "wired C M i s = (net_i i)
     \<lparr>aspect_e := (\<lambda>h nameHash. if h = 0 then AspectMatch C nameHash else True),
      build_e := (\<lambda>cb ctx. case buildAnnounceWithContext C M (later_i i) (rnd_i i) ctx s of Inl _ \<Rightarrow> None | Inr p \<Rightarrow> Some p)\<rparr>"

definition receive_frame ::
  "Primitives \<Rightarrow> Msgpack \<Rightarrow> Resource_Msgpack \<Rightarrow> Lxmf_Codec \<Rightarrow> Inputs \<Rightarrow> bytes \<Rightarrow> Service \<times> announceStore
    \<Rightarrow> (Service \<times> announceStore) \<times> effect list \<times> Message list" where
  "receive_frame C M R K i raw x = (case x of (s, st) \<Rightarrow>
     case dispatch C R (wired C M i s) raw (transport s) of
       (t, fx) \<Rightarrow> run_callbacks C M K i fx (s\<lparr>transport := t\<rparr>, st))"

end
