(* ===== verification/Service_Run.thy ===== *)
theory Service_Run
  imports Service
begin

text \<open>
  What the service does with what it receives: who hears a chat message and who does not, what an announce changes, replay, the
  announce cache across a restart, and the invariants of the running daemon.
\<close>

section \<open>What is queued\<close>

definition sent :: "OutboundQueue \<Rightarrow> (bytes \<times> bytes \<times> fieldmap) list" where
  "sent q = map (\<lambda>(p, m). (Recipient m, Body m, MFields m)) (pending q)"

lemma EnqueueBubble_sent [simp]: "sent (EnqueueBubble q mid now r b f bub) = sent q @ [(r, b, f)]"
  by (simp add: EnqueueBubble_def sent_def)

lemma Enqueue_sent [simp]: "sent (Enqueue q mid now r b) = sent q @ [(r, b, [])]"
  by (simp add: Enqueue_def EnqueueWithFields_def)

lemma enqueue_text_fields [simp]:
  "sent (outbound (enqueue_text i r text s)) = sent (outbound s) @ [(r, bytes_of text, [])]"
  "cfg (enqueue_text i r text s) = cfg s" "roster (enqueue_text i r text s) = roster s"
  "history (enqueue_text i r text s) = history s" "idmap (enqueue_text i r text s) = idmap s"
  "transport (enqueue_text i r text s) = transport s"
  by (simp_all add: enqueue_text_def)

lemmas replies = replyInvite_def replyPaused_def replyOverInboundLimit_def

text \<open>The reference: the copy one member gets, if any.\<close>

definition copy_for :: "Service \<Rightarrow> string \<Rightarrow> fieldmap \<Rightarrow> plan option \<Rightarrow> string \<Rightarrow> (bytes \<times> bytes \<times> fieldmap) option" where
  "copy_for s body flds rewrite h =
     (case (hex_decode h, fields_for (idmap s) rewrite h flds) of
        (Some raw, Some f) \<Rightarrow>
          if length raw \<noteq> 16 \<or> IsTextOnly (roster s) h \<and> body = [] then None
          else Some (raw, bytes_of body, if IsTextOnly (roster s) h then [] else f)
      | _ \<Rightarrow> None)"

lemma forward_loop_copies:
  "forward_loop i s x body flds rewrite bubble hs (q, n) = (q', n') \<Longrightarrow>
     sent q' = sent q @ List.map_filter (copy_for s body flds rewrite) (filter (\<lambda>h. h \<noteq> x) hs)
     \<and> n' = n + length (List.map_filter (copy_for s body flds rewrite) (filter (\<lambda>h. h \<noteq> x) hs))"
proof (induction hs arbitrary: q n)
  case (Cons h hs)
  then show ?case
    by (cases "h = x"; cases "hex_decode h"; cases "fields_for (idmap s) rewrite h flds")
      (auto simp: copy_for_def map_filter_simps split: if_splits dest!: Cons.IH)
qed (simp add: map_filter_simps)


lemma forwardToRoster_effect:
  assumes "forwardToRoster i x body flds rewrite bubble s = (s', n)"
  shows "sent (outbound s') = sent (outbound s) @ List.map_filter (copy_for s body flds rewrite) (filter (\<lambda>h. h \<noteq> x) (ActiveHashes (roster s)))"
    "n = length (List.map_filter (copy_for s body flds rewrite) (filter (\<lambda>h. h \<noteq> x) (ActiveHashes (roster s))))"
    "s' = s\<lparr>outbound := outbound s'\<rparr>"
  using assms by (auto simp: forwardToRoster_def split: prod.splits dest!: forward_loop_copies)

lemma open_bubble_frame: "open_bubble C i x m c f s = (s', b) \<Longrightarrow> s' = s\<lparr>idmap := idmap s'\<rparr>"
  by (auto simp: open_bubble_def newBubbleForForward_def split: if_splits option.splits)

section \<open>The audience\<close>

text \<open>A message that is forwarded: from a member who is neither banned nor paused, not a command and within the limit.\<close>

definition chat_text :: "Message \<Rightarrow> string" where
  "chat_text m = TrimRight (string_of (Content_m m)) [CHR 0x0D, CHR 0x0A]"

definition heard :: "Service \<Rightarrow> Message \<Rightarrow> bool" where
  "heard s m \<longleftrightarrow> \<not> IsBanned (roster s) (SourceHash m) \<and> Has (roster s) (SourceHash m)
     \<and> \<not> IsPaused (roster s) (hex_encode (SourceHash m)) \<and> \<not> IsCommand (chat_text m)
     \<and> \<not> (MaxInboundChars (Service (cfg s)) > 0 \<and> int (RuneCount (chat_text m)) > MaxInboundChars (Service (cfg s)))"

lemma Has_member: "Has r hb \<longleftrightarrow> length hb = 16 \<and> map_of (users r) (hex_encode hb) \<noteq> None"
  by (auto simp: Has_def normalizeHash_def)

lemma stamps_keep:
  "Has (fst (Touch r hb now)) k = Has r k" "IsPaused (fst (Touch r hb now)) h = IsPaused r h"
  "sender_nick (fst (Touch r hb now)) h = sender_nick r h" "sender_nick (fst (MarkMessage r hb now)) h = sender_nick r h"
  by (auto simp: Has_member IsPaused_def sender_nick_def Get_def roster_simps split: option.splits)

lemma ActiveHashes_update:
  "map_of m k = Some u \<Longrightarrow> Paused u' = Paused u \<Longrightarrow>
     map fst (filter (\<lambda>(h, u). \<not> Paused u) (AList.update k u' m)) = map fst (filter (\<lambda>(h, u). \<not> Paused u) m)"
  by (induction m) (auto split: if_splits)

lemma ActiveHashes_stamps [simp]:
  "ActiveHashes (fst (Touch r hb now)) = ActiveHashes r" "ActiveHashes (fst (MarkMessage r hb now)) = ActiveHashes r"
  by (auto simp: ActiveHashes_def roster_simps split: option.splits intro!: ActiveHashes_update)

lemma received_heard:
  "heard s m \<Longrightarrow> onLXMFReceived C M i m s =
     (forward_message C i m (chat_text m) (s\<lparr>roster := fst (Touch (roster s) (SourceHash m) (now_i i))\<rparr>), [])"
  by (auto simp: onLXMFReceived_def heard_def chat_text_def Let_def stamps_keep)

text \<open>The fan-out of a chat message, and what it leaves alone.\<close>

definition fan_out :: "Service \<Rightarrow> Message \<Rightarrow> string \<Rightarrow> fieldmap \<Rightarrow> plan option \<Rightarrow> (bytes \<times> bytes \<times> fieldmap) list" where
  "fan_out s m body flds rw = List.map_filter (copy_for s body flds rw)
     (filter (\<lambda>h. h \<noteq> hex_encode (SourceHash m)) (ActiveHashes (roster s)))"

lemma relay_effect:
  obtains s2 rw where "roster s2 = roster s"
    "sent (outbound (relay C i m nick content flds body s)) = sent (outbound s) @ fan_out s2 m body
       (case stampReactorIdentity flds (SourceHash m) of None \<Rightarrow> flds | Some f \<Rightarrow> f) rw"
    "rw = snd (buildRewrite (idmap s) (later_i i) flds)"
    "roster (relay C i m nick content flds body s) = roster s" "cfg (relay C i m nick content flds body s) = cfg s"
    "transport (relay C i m nick content flds body s) = transport s" "delivery (relay C i m nick content flds body s) = delivery s"
    "history (relay C i m nick content flds body s) =
       (if fan_out s2 m body (case stampReactorIdentity flds (SourceHash m) of None \<Rightarrow> flds | Some f \<Rightarrow> f) rw \<noteq> [] \<and> content \<noteq> []
        then fst (Append (history s) \<lparr>At = now_i i, SenderHash = hex_encode (SourceHash m), SenderNick = nick, Content = content\<rparr>)
        else history s)"
proof -
  let ?h = "hex_encode (SourceHash m)"
  let ?st = "case stampReactorIdentity flds (SourceHash m) of None \<Rightarrow> flds | Some f \<Rightarrow> f"
  obtain idm rw where br: "buildRewrite (idmap s) (later_i i) flds = (idm, rw)" by fastforce
  obtain s2 b where ob: "open_bubble C i ?h m content flds (s\<lparr>idmap := idm\<rparr>) = (s2, b)" by fastforce
  obtain s3 n where fw: "forwardToRoster i ?h body ?st rw b s2 = (s3, n)" by fastforce
  have e: "relay C i m nick content flds body s = (if n > 0 \<and> content \<noteq> []
      then s3\<lparr>history := fst (Append (history s3) \<lparr>At = now_i i, SenderHash = ?h, SenderNick = nick, Content = content\<rparr>)\<rparr> else s3)"
    by (simp add: relay_def Let_def br ob fw)
  from open_bubble_frame [OF ob] have f2: "roster s2 = roster s" "outbound s2 = outbound s" "cfg s2 = cfg s" "transport s2 = transport s"
      "delivery s2 = delivery s" "history s2 = history s"
    by (cases s2, simp)+
  from forwardToRoster_effect(3) [OF fw] have f3: "roster s3 = roster s2" "cfg s3 = cfg s2" "transport s3 = transport s2"
      "delivery s3 = delivery s2" "history s3 = history s2"
    by (cases s3, simp)+
  show thesis
    using forwardToRoster_effect(1,2) [OF fw] f2 f3 br
    by (intro that [of s2 rw]) (simp_all add: e fan_out_def)
qed

lemma valid_hash_decode:
  assumes "valid_hash h"
  obtains raw where "hex_decode h = Some raw" "length raw = 16" "hex_encode raw = h"
proof -
  have "\<forall>c \<in> set h. hex_char c \<Longrightarrow> even (length h) \<Longrightarrow> hex_decode h \<noteq> None" for h
    by (induction h rule: hex_decode.induct) (auto simp: hex_char_def hex_value_def split: option.splits)
  moreover have "\<forall>c \<in> set h. hex_char c" "even (length h)" using assms by (simp_all add: valid_hash_def)
  ultimately obtain raw where d: "hex_decode h = Some raw" by blast
  have "length raw = 16" using length_hex_decode [OF d] assms by (simp add: valid_hash_def)
  moreover have "hex_encode raw = h" using hex_decode_Some_encode [OF d] assms by (simp add: valid_hash_def)
  ultimately show thesis using d that by blast
qed

lemma ActiveHashes_iff: "roster_inv r \<Longrightarrow> h \<in> set (ActiveHashes r) \<longleftrightarrow> (\<exists>u. map_of (users r) h = Some u \<and> \<not> Paused u)"
  by (auto simp: ActiveHashes_def roster_inv_def image_iff in_set_map_of)

lemma ActiveHashes_valid: "roster_inv r \<Longrightarrow> h \<in> set (ActiveHashes r) \<Longrightarrow> valid_hash h"
  by (auto simp: ActiveHashes_def roster_inv_def)

lemma ActiveHashes_distinct: "roster_inv r \<Longrightarrow> distinct (ActiveHashes r)"
  by (simp add: ActiveHashes_def roster_inv_def gm_ok_def distinct_map_filter)

lemma set_map_filter: "y \<in> set (List.map_filter f xs) \<longleftrightarrow> (\<exists>x \<in> set xs. f x = Some y)"
  by (induction xs) (auto simp: map_filter_simps split: option.splits)

lemma copy_for_SomeD: "copy_for s body flds rw h = Some (b, x, f) \<Longrightarrow> hex_decode h = Some b \<and> x = bytes_of body"
  by (auto simp: copy_for_def split: option.splits if_splits)

lemma fan_out_recipients:
  assumes "roster_inv (roster s)" and "(b, x, f) \<in> set (fan_out s m body flds rw)"
  shows "b \<noteq> SourceHash m" "x = bytes_of body" "\<exists>u. map_of (users (roster s)) (hex_encode b) = Some u \<and> \<not> Paused u"
proof -
  from assms(2) obtain h where h: "h \<in> set (ActiveHashes (roster s))" "h \<noteq> hex_encode (SourceHash m)" "hex_decode h = Some b" "x = bytes_of body"
    by (auto simp: fan_out_def set_map_filter dest: copy_for_SomeD)
  moreover have "hex_encode b = h" using valid_hash_decode [OF ActiveHashes_valid [OF assms(1) h(1)]] h(3) by auto
  ultimately show "b \<noteq> SourceHash m" "x = bytes_of body" "\<exists>u. map_of (users (roster s)) (hex_encode b) = Some u \<and> \<not> Paused u"
    using ActiveHashes_iff [OF assms(1)] by auto
qed

lemma distinct_copies:
  "distinct hs \<Longrightarrow> \<forall>h \<in> set hs. valid_hash h \<Longrightarrow> distinct (map fst (List.map_filter (copy_for s body flds rw) hs))"
proof (induction hs)
  case (Cons h hs)
  have "b \<noteq> b'" if "copy_for s body flds rw h = Some (b, x)" "h' \<in> set hs" "copy_for s body flds rw h' = Some (b', x')" for b x b' x' h'
  proof -
    have "hex_decode h = Some b" "hex_decode h' = Some b'"
      using that copy_for_SomeD by (metis prod.exhaust)+
    with that(2) Cons.prems show ?thesis
      by (metis distinct.simps(2) list.set_intros option.sel valid_hash_decode)
  qed
  with Cons show ?case by (fastforce simp: map_filter_simps set_map_filter split: option.splits)
qed (simp add: map_filter_simps)

lemma fan_out_distinct: "roster_inv (roster s) \<Longrightarrow> distinct (map fst (fan_out s m body flds rw))"
  unfolding fan_out_def by (intro distinct_copies) (auto simp: ActiveHashes_distinct ActiveHashes_valid)

lemma received_unheard:
  assumes "\<not> heard s m" and "onLXMFReceived C M i m s = (s', fx)"
  shows "\<exists>new. sent (outbound s') = sent (outbound s) @ new \<and> (\<forall>x \<in> set new. fst x = SourceHash m) \<and> length new \<le> 1
    \<and> (IsBanned (roster s) (SourceHash m) \<longrightarrow> new = [] \<and> roster s' = roster s) \<and> history s' = history s \<and> idmap s' = idmap s
    \<and> transport s' = transport s"
proof -
  have c: "\<exists>new. sent (outbound s') = sent (outbound s) @ new \<and> (\<forall>x \<in> set new. fst x = SourceHash m) \<and> length new \<le> 1
      \<and> history s' = history s \<and> idmap s' = idmap s \<and> transport s' = transport s"
    if "run_command C M i (SourceHash m) content (s\<lparr>roster := r\<rparr>) = (s', fx)" for content r
    using that by (auto simp: run_command_def Let_def split: prod.splits if_splits)
  show ?thesis
    using assms c by (auto simp: onLXMFReceived_def heard_def chat_text_def Let_def stamps_keep replies split: if_splits)
qed

text \<open>The nickname, text, fields and body of the forwarded copies.\<close>

definition outgoing :: "Inputs \<Rightarrow> Service \<Rightarrow> Message \<Rightarrow> string \<times> string \<times> fieldmap \<times> string" where
  "outgoing i s m =
     (case filterAttachments (enc_size_i i) (Fields_m m) (Service (cfg s)) of (flds, drops) \<Rightarrow>
        (let nick = sender_nick (roster s) (hex_encode (SourceHash m)); content = sanitizeForward (chat_text m)
         in (nick, content, flds, forward_body nick content drops)))"

lemma heard_state:
  assumes "roster_inv (roster s)" and "heard s m"
  obtains S nick content flds body where "outgoing i s m = (nick, content, flds, body)"
    "roster_inv (roster S)" "outbound S = outbound s" "history S = history s" "idmap S = idmap s" "cfg S = cfg s"
    "ActiveHashes (roster S) = ActiveHashes (roster s)"
    "onLXMFReceived C M i m s = (if body = [] \<and> flds = [] then S else relay C i m nick content flds body S, [])"
proof -
  let ?s1 = "s\<lparr>roster := fst (Touch (roster s) (SourceHash m) (now_i i))\<rparr>"
  let ?S = "?s1\<lparr>roster := fst (MarkMessage (roster ?s1) (SourceHash m) (now_i i))\<rparr>"
  obtain nick content flds body where o: "outgoing i s m = (nick, content, flds, body)" by (metis prod.exhaust)
  have "forward_message C i m (chat_text m) ?s1 = (if body = [] \<and> flds = [] then ?S else relay C i m nick content flds body ?S)"
    using o by (auto simp: outgoing_def forward_message_def Let_def stamps_keep cong: if_cong split: prod.splits)
  with assms o show thesis by (intro that [of nick content flds body ?S]) (simp_all add: received_heard MarkMessage_inv Touch_inv)
qed

lemma received_fan:
  assumes "heard s m" and "onLXMFReceived C M i m s = (s', fx)" and "roster_inv (roster s)"
  obtains (bare) "outbound s' = outbound s" "history s' = history s" "fx = []"
  | (fan) s2 body flds rw where "roster_inv (roster s2)" "sent (outbound s') = sent (outbound s) @ fan_out s2 m body flds rw" "fx = []"
    "ActiveHashes (roster s2) = ActiveHashes (roster s)"
proof -
  obtain S nick content flds body where o: "roster_inv (roster S)" "outbound S = outbound s" "history S = history s"
    "ActiveHashes (roster S) = ActiveHashes (roster s)"
    and r: "onLXMFReceived C M i m s = (if body = [] \<and> flds = [] then S else relay C i m nick content flds body S, [])"
    by (rule heard_state [OF assms(3,1), of i C M])
  show thesis
  proof (cases "body = [] \<and> flds = []")
    case True
    with r o assms(2) show thesis by (intro bare) simp_all
  next
    case False
    obtain s2 rw where "roster s2 = roster S" "sent (outbound (relay C i m nick content flds body S)) = sent (outbound S) @ fan_out s2 m body
       (case stampReactorIdentity flds (SourceHash m) of None \<Rightarrow> flds | Some f \<Rightarrow> f) rw" by (rule relay_effect)
    with r o assms(2) show thesis unfolding if_not_P [OF False] by (intro fan [of s2]) auto
  qed
qed

text \<open>C2. Who hears a message: if it is heard (its sender is a member, neither banned nor paused, and it is no command and within
  the limit), every new outbound message goes to an active member other than the sender, to each at most once, all with the
  same text; otherwise at most one reply is queued, to the sender alone, and history and id cache stay as they were. A banned
  sender gets nothing and changes nothing.\<close>

theorem audience_exact:
  assumes "roster_inv (roster s)" and "onLXMFReceived C M i m s = (s', fx)"
  shows "\<exists>new. sent (outbound s') = sent (outbound s) @ new
    \<and> (if heard s m
       then distinct (map fst new) \<and> fx = []
         \<and> (\<exists>body. \<forall>(b, x, f) \<in> set new. b \<noteq> SourceHash m \<and> x = body
              \<and> (\<exists>u. map_of (users (roster s)) (hex_encode b) = Some u \<and> \<not> Paused u))
       else length new \<le> 1 \<and> (\<forall>x \<in> set new. fst x = SourceHash m) \<and> history s' = history s \<and> idmap s' = idmap s
         \<and> (IsBanned (roster s) (SourceHash m) \<longrightarrow> new = [] \<and> roster s' = roster s))"
proof (cases "heard s m")
  case False
  with received_unheard [OF False assms(2)] show ?thesis by auto
next
  case True
  show ?thesis
  proof (cases rule: received_fan [OF True assms(2,1)])
    case 1
    with True show ?thesis by (intro exI [of _ "[]"]) auto
  next
    case (2 s2 body flds rw)
    note fan = this
    have "b \<noteq> SourceHash m \<and> x = bytes_of body \<and> (\<exists>u. map_of (users (roster s)) (hex_encode b) = Some u \<and> \<not> Paused u)"
      if "(b, x, f) \<in> set (fan_out s2 m body flds rw)" for b x f
    proof -
      from fan_out_recipients [OF fan(1) that] obtain u where u: "b \<noteq> SourceHash m" "x = bytes_of body"
        "map_of (users (roster s2)) (hex_encode b) = Some u" "\<not> Paused u" by auto
      then have "hex_encode b \<in> set (ActiveHashes (roster s))" using ActiveHashes_iff [OF fan(1)] fan(4) by simp
      with u show ?thesis using ActiveHashes_iff [OF assms(1)] by simp
    qed
    then have "\<exists>y. \<forall>(b, x, f) \<in> set (fan_out s2 m body flds rw). b \<noteq> SourceHash m \<and> x = y
        \<and> (\<exists>u. map_of (users (roster s)) (hex_encode b) = Some u \<and> \<not> Paused u)"
      by (intro exI [of _ "bytes_of body"]) blast
    with True fan(2,3) fan_out_distinct [OF fan(1)] show ?thesis
      by (intro exI [of _ "fan_out s2 m body flds rw"]) simp
  qed
qed

lemma map_filter_total: "(\<And>x. x \<in> set xs \<Longrightarrow> f x = Some (g x)) \<Longrightarrow> List.map_filter f xs = map g xs"
  by (induction xs) (auto simp: map_filter_simps)

text \<open>C3. A text message that is heard reaches every active member but its sender, each exactly once and in the order of the
  roster, as the sanitized text behind the sender's nickname, and joins the history unless nobody was there to hear it.\<close>

theorem chat_reaches_members:
  assumes "roster_inv (roster s)" and "heard s m" and "Fields_m m = []" and "chat_text m \<noteq> []"
  defines "h \<equiv> hex_encode (SourceHash m)" and "content \<equiv> sanitizeForward (chat_text m)"
  shows "(case onLXMFReceived C M i m s of (s', fx) \<Rightarrow>
      let others = filter (\<lambda>k. k \<noteq> h) (ActiveHashes (roster s)); nick = sender_nick (roster s) h
      in sent (outbound s') = sent (outbound s)
           @ map (\<lambda>k. (the (hex_decode k), bytes_of (''['' @ nick @ ''] '' @ content), [])) others
         \<and> entries (history s') = (if others = [] then entries (history s)
             else keep_last (capacity (history s))
               (entries (history s) @ [\<lparr>At = now_i i, SenderHash = h, SenderNick = nick, Content = content\<rparr>])))"
proof -
  define nick where "nick = sender_nick (roster s) h"
  define body where "body = ''['' @ nick @ ''] '' @ content"
  have c: "content \<noteq> []" using assms(4) by (simp add: content_def sanitizeForward_def)
  then have o: "outgoing i s m = (nick, content, [], body)"
    using assms(3) by (simp add: outgoing_def filterAttachments_def forward_body_def nick_def body_def content_def h_def Let_def)
  obtain S where S: "roster_inv (roster S)" "outbound S = outbound s" "history S = history s" "idmap S = idmap s" "cfg S = cfg s"
    "ActiveHashes (roster S) = ActiveHashes (roster s)"
    and run: "onLXMFReceived C M i m s = (relay C i m nick content [] body S, [])"
    by (rule heard_state [OF assms(1,2), of i C M]) (simp add: o body_def)
  obtain s2 rw where r: "roster s2 = roster S" "sent (outbound (relay C i m nick content [] body S)) = sent (outbound S) @ fan_out s2 m body
       (case stampReactorIdentity [] (SourceHash m) of None \<Rightarrow> [] | Some f \<Rightarrow> f) rw"
    "rw = snd (buildRewrite (idmap S) (later_i i) [])"
    "history (relay C i m nick content [] body S) =
       (if fan_out s2 m body (case stampReactorIdentity [] (SourceHash m) of None \<Rightarrow> [] | Some f \<Rightarrow> f) rw \<noteq> [] \<and> content \<noteq> []
        then fst (Append (history S) \<lparr>At = now_i i, SenderHash = h, SenderNick = nick, Content = content\<rparr>) else history S)"
    unfolding h_def by (rule relay_effect)
  have rw: "rw = None" by (simp add: r(3) buildRewrite_def split: option.splits)
  have st: "stampReactorIdentity [] x = None" for x by (simp add: stampReactorIdentity_def hasReactionField_def)
  have "copy_for s2 body [] None k = Some (the (hex_decode k), bytes_of body, [])" if "k \<in> set (ActiveHashes (roster s))" for k
  proof -
    from ActiveHashes_valid [OF S(1)] S(6) that have "valid_hash k" by simp
    then obtain raw where "hex_decode k = Some raw" "length raw = 16" by (rule valid_hash_decode)
    then show ?thesis by (simp add: copy_for_def fields_for_def body_def)
  qed
  then have "fan_out s2 m body [] None = map (\<lambda>k. (the (hex_decode k), bytes_of body, [])) (filter (\<lambda>k. k \<noteq> h) (ActiveHashes (roster s)))"
    unfolding fan_out_def h_def r(1) S(6) by (intro map_filter_total) simp
  with r rw st c S(2,3) run show ?thesis by (simp add: Let_def nick_def [symmetric] body_def)
qed

definition demo_chat :: Service where
  "demo_chat = \<lparr>cfg = defaults, identity = demo_identity 4, transport = demo_transport, delivery = demo_delivery 4 demo_dest,
     roster = \<lparr>users = [(user_a, (new_user user_a 100)\<lparr>Nickname := ''Ann''\<rparr>), (user_c, (new_user user_c 200)\<lparr>Nickname := ''Bob''\<rparr>)],
       banlist = [user_b], store = None\<rparr>,
     history = demo_log, outbound = newOutboundQueue None, idmap = None\<rparr>"

definition demo_inputs :: Inputs where
  "demo_inputs = \<lparr>now_i = 500, later_i = 501, queued_i = (\<lambda>k. (nat_str k, 502)), bubble_i = 0, enc_size_i = (\<lambda>v. Some 10),
     net_i = demo_env 500, rnd_i = Some [1, 2, 3, 4, 5], err_text_i = (\<lambda>e. ''failed''), printable_i = (\<lambda>c. True)\<rparr>"

definition demo_chat_msg :: "byte \<Rightarrow> string \<Rightarrow> Message" where
  "demo_chat_msg b text = \<lparr>DestHash_m = demo_dest, SourceHash = replicate 16 b, Signature_m = [], Timestamp = 0, Title = [],
     Content_m = bytes_of text, Fields_m = [], Stamp = None, rawPayload = []\<rparr>"

lemma demo_hex: "hex_encode (replicate 16 170) = user_a" "hex_encode (replicate 16 187) = user_b" "hex_encode (replicate 16 204) = user_c"
  "hex_decode user_c = Some (replicate 16 204)" "hex_decode user_a = Some (replicate 16 170)"
proof -
  show a: "hex_encode (replicate 16 170) = user_a" "hex_encode (replicate 16 187) = user_b" "hex_encode (replicate 16 204) = user_c"
    by code_simp+
  show "hex_decode user_c = Some (replicate 16 204)" "hex_decode user_a = Some (replicate 16 170)"
    unfolding a(1,3) [symmetric] by simp_all
qed

lemma demo_texts: "chat_text (demo_chat_msg b ''hi'') = ''hi''" "\<not> IsCommand ''hi''" "RuneCount ''hi'' = 2"
  by code_simp+

lemma demo_chat_inv: "roster_inv (roster demo_chat)" "no_banned_member (roster demo_chat)" "user_a \<noteq> user_c"
  using demo_hashes by (simp_all add: roster_inv_def no_banned_member_def demo_chat_def gm_ok_def new_user_def valid_hash_def user_c_def user_a_def user_b_def hex_char_def)

lemma demo_heard: "heard demo_chat (demo_chat_msg 170 ''hi'')"
  by (simp add: heard_def demo_texts Has_member IsBanned_def normalizeHash_16 IsPaused_def)
    (simp add: demo_chat_msg_def demo_hex demo_chat_def demo_hashes normalizeHash_16 IsPaused_def new_user_def defaults_def ToLower_hex)

definition demo_names :: Msgpack where
  "demo_names = \<lparr>marshal_app_data = (\<lambda>name cost. Some name), unmarshal_array = (\<lambda>d. Some [d]), unmarshal_bin = Some, unmarshal_str = Some\<rparr>"

lemma demo_chat_fields [simp]:
  "roster demo_chat = \<lparr>users = [(user_a, (new_user user_a 100)\<lparr>Nickname := ''Ann''\<rparr>), (user_c, (new_user user_c 200)\<lparr>Nickname := ''Bob''\<rparr>)],
       banlist = [user_b], store = None\<rparr>"
  "sent (outbound demo_chat) = []" "history demo_chat = demo_log" "SourceHash (demo_chat_msg b txt) = replicate 16 b" "Fields_m (demo_chat_msg b txt) = []"
  by (simp_all add: demo_chat_def sent_def newOutboundQueue_def demo_chat_msg_def)

theorem chat_reaches_members_witness:
  "sent (outbound (fst (onLXMFReceived demo_crypto demo_names demo_inputs (demo_chat_msg 170 ''hi'') demo_chat)))
     = [(replicate 16 204, bytes_of ''[Ann] hi'', [])]"
proof -
  have "sanitizeForward ''hi'' = ''hi''" by code_simp
  moreover have "ActiveHashes (roster demo_chat) = [user_a, user_c]" "sender_nick (roster demo_chat) user_a = ''Ann''"
    by (simp_all add: ActiveHashes_def sender_nick_def Get_def new_user_def)
  ultimately show ?thesis
    using chat_reaches_members [OF demo_chat_inv(1) demo_heard, where C = demo_crypto and M = demo_names and i = demo_inputs]
    by (simp add: demo_texts demo_hex demo_chat_inv(3) case_prod_beta Let_def)
qed

text \<open>A stranger's text is answered with the invitation.\<close>

theorem audience_exact_witness:
  "\<exists>new. sent (outbound (fst (onLXMFReceived demo_crypto demo_names demo_inputs (demo_chat_msg 7 ''hi'') demo_chat))) = new
     \<and> length new \<le> 1 \<and> (\<forall>x \<in> set new. fst x = replicate 16 7)"
proof -
  have "hex_encode (replicate 16 7) \<notin> {user_a, user_c}"
    unfolding demo_hex(1,3) [symmetric] by simp
  then have "\<not> heard demo_chat (demo_chat_msg 7 ''hi'')" by (simp add: heard_def Has_member)
  with audience_exact [OF demo_chat_inv(1) prod.collapse [symmetric], where C = demo_crypto and M = demo_names and i = demo_inputs
      and m = "demo_chat_msg 7 ''hi''"]
  show ?thesis by auto
qed

end
