(* ===== verification/Service_State.thy ===== *)
theory Service_State
  imports Service_Run
begin

text \<open>
  What survives a restart and what an announce may change: the announce cache and the identity across a restart, the roster after an
  announce, and the join of a new member with the replay that follows it.
\<close>

section \<open>The announce cache across a restart\<close>

lemma restore_all_known:
  "known (restore_all ks t) = fold (\<lambda>k m. AList.update (hex_encode (DestHash_k k)) k m)
     (filter (\<lambda>k. length (DestHash_k k) = 16 \<and> length (PublicKey_k k) = 64) ks) (known t)"
  by (induction ks arbitrary: t) (auto simp: Restore_def key_lens)

lemma update_absent: "k \<notin> fst ` set m \<Longrightarrow> AList.update k v m = m @ [(k, v)]"
  by (induction m) auto

lemma keyed_filter: "\<forall>(h, k) \<in> set m. h = f k \<Longrightarrow> map (\<lambda>k. (f k, k)) (filter P (map snd m)) = filter (\<lambda>(h, k). P k) m"
  by (induction m) auto

lemma fold_update_fresh:
  "distinct (map f ks) \<Longrightarrow> f ` set ks \<inter> fst ` set m = {} \<Longrightarrow> fold (\<lambda>k m. AList.update (f k) k m) ks m = m @ map (\<lambda>k. (f k, k)) ks"
proof (induction ks arbitrary: m)
  case (Cons k ks)
  then have "AList.update (f k) k m = m @ [(f k, k)]" by (intro update_absent) auto
  with Cons show ?case by (fastforce simp: image_iff)
qed simp

lemma keep_recent_saved:
  "fst (keep_recent cutoff (map Some es)) = filter (\<lambda>k. \<not> LastSeen_k k < cutoff) es"
  by (induction es) (auto split: prod.splits)

lemma restart_known:
  assumes "table_ok C (known t)" and "a_write_err st = None" and "a_read_err st = None" and "known t0 = []"
  shows "known (restore_announces now (OnAnnounce_persist t st) t0)
    = filter (\<lambda>(h, k). \<not> LastSeen_k k < now - announceStoreMaxAge) (known t)"
proof -
  let ?P = "\<lambda>k. \<not> LastSeen_k k < now - announceStoreMaxAge"
  let ?key = "\<lambda>k. hex_encode (DestHash_k k)"
  have e: "\<forall>(h, k) \<in> set (known t). h = ?key k \<and> length (DestHash_k k) = 16 \<and> length (PublicKey_k k) = 64"
    using assms(1) by (auto simp: table_ok_def entry_ok_def)
  then have e1: "\<forall>(h, k) \<in> set (known t). h = ?key k" by auto
  have d: "distinct (map fst (known t))" using assms(1) by (simp add: table_ok_def gm_ok_def)
  have k: "map ?key (filter ?P (map snd (known t))) = map fst (filter (\<lambda>(h, k). ?P k) (known t))"
    unfolding keyed_filter [of "known t" ?key ?P, symmetric, OF e1] by simp
  let ?ks = "filter ?P (map snd (known t))"
  have "filter (\<lambda>k. length (DestHash_k k) = 16 \<and> length (PublicKey_k k) = 64) ?ks = ?ks" using e by (intro filter_True) auto
  moreover have "fst (keep_recent (now - announceStoreMaxAge) (map Some (map snd (known t)))) = ?ks" by (rule keep_recent_saved)
  ultimately have "known (restore_announces now (OnAnnounce_persist t st) t0) = fold (\<lambda>k m. AList.update (?key k) k m) ?ks []"
    using assms(2-4) by (auto simp: restore_announces_def load_announces_def OnAnnounce_persist_def save_announces_def KnownSnapshot_def
        restore_all_known split: prod.splits)
  also have "\<dots> = map (\<lambda>k. (?key k, k)) ?ks"
    using fold_update_fresh [of ?key ?ks "[]"] d unfolding k by (simp add: distinct_map_filter)
  also have "\<dots> = filter (\<lambda>(h, k). ?P k) (known t)" by (rule keyed_filter [OF e1])
  finally show ?thesis .
qed

text \<open>C30. The announce cache survives a restart: if the snapshot written after the last announce is read back, the new transport
  knows exactly the destinations heard in the last thirty days, each with its key and route.\<close>

theorem announce_cache_restart:
  assumes "crypto_ok C" and "idle_transport t0" and "transport_run C M t0 t" and "a_write_err st = None" and "a_read_err st = None"
    and "idle_transport t1"
  shows "Recall d (restore_announces now (OnAnnounce_persist t st) t1)
    = (case Recall d t of None \<Rightarrow> None | Some k \<Rightarrow> if LastSeen_k k < now - announceStoreMaxAge then None else Some k)"
proof -
  have ok: "table_ok C (known t)" using run_ok [OF assms(1-3)] by (simp add: transport_ok_def)
  then have g: "gm_ok (known t)" by (simp add: table_ok_def)
  have "known t1 = []" using assms(6) by (simp add: idle_transport_def)
  note r = restart_known [OF ok assms(4,5) this, of now]
  have m: "map_of (filter (\<lambda>(h, k). P k) m) x = (case map_of m x of None \<Rightarrow> None | Some k \<Rightarrow> if P k then Some k else None)"
    if "gm_ok m" for P x and m :: "(string, KnownIdentity) gomap"
    using that by (induction m) (auto simp: gm_ok_def map_of_eq_None_iff image_iff split: option.splits)
  show ?thesis unfolding Recall_def r m [OF g] by (simp split: option.splits)
qed

section \<open>The identity across a restart\<close>

lemma NewIdentity_ok:
  "NewIdentity C r1 r2 = Inr ident \<Longrightarrow> \<forall>r. r1 = Some r \<longrightarrow> length r = 32 \<Longrightarrow> \<forall>r. r2 = Some r \<longrightarrow> length r = 32 \<Longrightarrow> identity_ok C ident"
  by (auto simp: NewIdentity_def split: option.splits dest: identityFromHalves_ok [rotated 2])

lemma TrimSpace_newline:
  assumes "\<forall>c \<in> set s. code c < 128 \<and> \<not> IsSpace (code c)"
  shows "TrimSpace (s @ nl) = s"
proof -
  have d: "dropWhile (\<lambda>c. IsSpace (code c)) xs = xs" if "\<forall>c \<in> set xs. \<not> IsSpace (code c)" for xs
    using that by (cases xs) auto
  have n: "IsSpace (code (CHR 0x0A))" by (simp add: IsSpace_def)
  have "is_ascii (s @ nl)" using assms by (simp add: is_ascii_def)
  then show ?thesis
  proof (cases "s = []")
    case False
    then have "dropWhile (\<lambda>c. IsSpace (code c)) (s @ nl) = s @ nl" using assms by (cases s) auto
    moreover have "dropWhile (\<lambda>c. IsSpace (code c)) (rev (s @ nl)) = rev s" using d [of "rev s"] assms n by simp
    ultimately show ?thesis using \<open>is_ascii (s @ nl)\<close> by (simp only: TrimSpace_ascii rev_rev_ident)
  qed (use n in \<open>simp add: TrimSpace_ascii\<close>)
qed

text \<open>C31. A new identity is not lost: after a first start that created one, a start that finds the key file, and a start whose
  configuration holds the text of the backup file, both give the same identity.\<close>

theorem identity_survives_restart:
  assumes first: "loadOrCreateIdentity C dec enc [] None (Some r1) (Some r2) None = Inr (Created ident key backup)"
    and entropy: "length r1 = 32" "length r2 = 32"
    and base64: "\<And>b. dec (enc b) = Inr b" "\<And>b c. c \<in> set (enc b) \<Longrightarrow> 33 \<le> code c \<and> code c < 127" "\<And>b. b \<noteq> [] \<Longrightarrow> enc b \<noteq> []"
  shows "loadOrCreateIdentity C dec enc [] (Some (Inr key)) x y e = Inr (FromFile ident)
    \<and> loadOrCreateIdentity C dec enc backup stat x y e = Inr (FromConfig ident)"
proof -
  have e: "TrimSpace [] = []" by (rule TrimSpace_none) simp
  from first have n: "NewIdentity C (Some r1) (Some r2) = Inr ident" "key = PrivateKey ident" "backup = enc (PrivateKey ident) @ nl"
    by (auto simp: loadOrCreateIdentity_def e split: sum.splits)
  have ok: "identity_ok C ident" using NewIdentity_ok [OF n(1)] entropy by simp
  have f: "IdentityFromFile C (Inr key) = Inr ident" unfolding n(2) by (rule key_file_roundtrip [OF ok])
  have "\<forall>c \<in> set (enc b). code c < 128 \<and> \<not> IsSpace (code c)" for b using base64(2) by (fastforce simp: IsSpace_def)
  then have t: "TrimSpace backup = enc (PrivateKey ident)" unfolding n(3) by (rule TrimSpace_newline)
  have "PrivateKey ident \<noteq> []" using ok by (auto simp: PrivateKey_def identity_ok_def)
  with f t base64(1,3) show ?thesis by (simp add: loadOrCreateIdentity_def e n(2) IdentityFromFile_def)
qed

section \<open>What an announce changes\<close>

lemma adopt_member:
  assumes "map_of (users (roster s)) h = Some u"
  obtains nick where "map_of (users (roster (maybeAdoptAnnouncedNickname M a s))) h = Some (u\<lparr>Nickname := nick\<rparr>)"
    "nick = Nickname u \<or> Nickname u = [] \<and> nickRE nick" "h \<noteq> hex_encode (DestHash_a a) \<longrightarrow> nick = Nickname u"
proof -
  let ?s = "maybeAdoptAnnouncedNickname M a s"
  have "?s = s \<or> (\<exists>n. nickRE n \<and> Nickname u = [] \<and> h = hex_encode (DestHash_a a) \<and> map_of (users (roster ?s)) h = Some (u\<lparr>Nickname := n\<rparr>))
      \<or> h \<noteq> hex_encode (DestHash_a a) \<and> map_of (users (roster ?s)) h = Some u"
    using assms
    by (auto simp: maybeAdoptAnnouncedNickname_def Get_def Let_def roster_simps split: option.splits) (metis SanitizeNickname_ok)
  then show thesis
  proof (elim disjE exE conjE)
    assume "?s = s"
    with assms show thesis by (intro that [of "Nickname u"]) simp_all
  next
    assume "h \<noteq> hex_encode (DestHash_a a)" "map_of (users (roster ?s)) h = Some u"
    then show thesis by (intro that [of "Nickname u"]) simp_all
  next
    fix n
    assume "nickRE n" "Nickname u = []" "h = hex_encode (DestHash_a a)" "map_of (users (roster ?s)) h = Some (u\<lparr>Nickname := n\<rparr>)"
    then show thesis by (intro that [of n]) simp_all
  qed
qed

lemma adopt_absent:
  "map_of (users (roster s)) h = None \<Longrightarrow> map_of (users (roster (maybeAdoptAnnouncedNickname M a s))) h = None"
  by (auto simp: maybeAdoptAnnouncedNickname_def Let_def roster_simps split: option.splits)

lemma adopt_frame:
  "maybeAdoptAnnouncedNickname M a s = s\<lparr>roster := roster (maybeAdoptAnnouncedNickname M a s)\<rparr>"
  "banlist (roster (maybeAdoptAnnouncedNickname M a s)) = banlist (roster s)"
  by (auto simp: maybeAdoptAnnouncedNickname_def Let_def roster_simps split: option.splits)

text \<open>C29. An announce never makes anybody a member and never unmakes one: it changes nothing but the roster entry of the announcer,
  there only the announce time, which does not go back and never runs ahead of the clock, and an empty nickname, which may become a
  well-formed one. A chosen nickname, the mute and the role stay, and so do the times of messages and commands.\<close>

theorem announce_only_refreshes:
  assumes "roster_inv (roster s)"
  shows "OnAnnounce M now a s = s\<lparr>roster := roster (OnAnnounce M now a s)\<rparr>
    \<and> banlist (roster (OnAnnounce M now a s)) = banlist (roster s)
    \<and> (case map_of (users (roster s)) h of
         None \<Rightarrow> map_of (users (roster (OnAnnounce M now a s))) h = None
       | Some u \<Rightarrow> (\<exists>nick stamp. map_of (users (roster (OnAnnounce M now a s))) h = Some (u\<lparr>Nickname := nick, LastAnnounceAt := stamp\<rparr>)
           \<and> (h \<noteq> hex_encode (DestHash_a a) \<longrightarrow> nick = Nickname u \<and> stamp = LastAnnounceAt u)
           \<and> (nick = Nickname u \<or> Nickname u = [] \<and> nickRE nick)
           \<and> LastAnnounceAt u \<le> stamp \<and> stamp \<le> max now (LastAnnounceAt u)))"
proof -
  define stamp where "stamp = (case EmittedAt a of Inl _ \<Rightarrow> now | Inr emitted \<Rightarrow> if emitted > now then now else emitted)"
  define s1 where "s1 = s\<lparr>roster := fst (UpdateLastAnnounce (roster s) (DestHash_a a) stamp)\<rparr>"
  have e: "OnAnnounce M now a s = maybeAdoptAnnouncedNickname M a s1" by (simp add: OnAnnounce_def stamp_def s1_def Let_def)
  have f: "OnAnnounce M now a s = s\<lparr>roster := roster (OnAnnounce M now a s)\<rparr>" "banlist (roster (OnAnnounce M now a s)) = banlist (roster s)"
    using adopt_frame [of M a s1] unfolding e by (simp_all add: s1_def UpdateLastAnnounce_banlist)
  show ?thesis
  proof (cases "map_of (users (roster s)) h")
    case None
    then have "map_of (users (roster s1)) h = None" by (auto simp: s1_def roster_simps split: option.splits)
    then have "map_of (users (roster (OnAnnounce M now a s))) h = None" unfolding e by (rule adopt_absent)
    with None f show ?thesis by simp
  next
    case (Some u)
    have le: "stamp \<le> now" by (simp add: stamp_def split: sum.splits)
    obtain st where st: "map_of (users (roster s1)) h = Some (u\<lparr>LastAnnounceAt := st\<rparr>)" "LastAnnounceAt u \<le> st" "st \<le> max now (LastAnnounceAt u)"
      "h \<noteq> hex_encode (DestHash_a a) \<longrightarrow> st = LastAnnounceAt u"
    proof (cases "length (DestHash_a a) = 16 \<and> h = hex_encode (DestHash_a a) \<and> stamp > LastAnnounceAt u")
      case True
      with Some le show thesis by (intro that [of stamp]) (simp_all add: s1_def roster_simps)
    next
      case False
      with Some show thesis by (intro that [of "LastAnnounceAt u"]) (auto simp: s1_def roster_simps split: option.splits)
    qed
    obtain nick where n: "map_of (users (roster (OnAnnounce M now a s))) h = Some ((u\<lparr>LastAnnounceAt := st\<rparr>)\<lparr>Nickname := nick\<rparr>)"
      "nick = Nickname u \<or> Nickname u = [] \<and> nickRE nick" "h \<noteq> hex_encode (DestHash_a a) \<longrightarrow> nick = Nickname u"
      unfolding e by (rule adopt_member [OF st(1)]) simp
    have "map_of (users (roster (OnAnnounce M now a s))) h = Some (u\<lparr>Nickname := nick, LastAnnounceAt := st\<rparr>)"
      using n(1) by simp
    then show ?thesis
      unfolding Some option.case by (intro conjI f exI [of _ nick] exI [of _ st]) (use st n in blast)+
  qed
qed

section \<open>Joining\<close>

lemma replay_loop_sent:
  "sent (replay_loop i joiner now k es q) = sent q @ map (\<lambda>e. (joiner, bytes_of (replay_line now e), [])) es"
  by (induction es arbitrary: k q) simp_all

lemma AddOrUpdate_ok:
  "length hb = 16 \<Longrightarrow> \<forall>st. store r = Some st \<longrightarrow> write_err st = None \<Longrightarrow> snd (snd (AddOrUpdate r hb now)) = None"
  by (auto simp: AddOrUpdate_def normalizeHash_16 persistLocked_def Save_def Let_def split: option.splits prod.splits)

lemma dispatcher_fields: "Cfg (dispatcher C M i s) = cfg s" "OnJoin (dispatcher C M i s)"
  by (simp_all add: dispatcher_def)


section \<open>Instances\<close>

theorem announce_cache_restart_witness:
  "\<exists>t d k. transport_run demo_crypto demo_msgpack demo_transport t
     \<and> Recall d (restore_announces 100 (OnAnnounce_persist t \<lparr>a_file = None, a_read_err = None, a_write_err = None\<rparr>) NewTransport) = Some k"
proof -
  obtain raw a t where h: "dispatch demo_crypto demo_msgpack (demo_env 5) raw demo_transport = (t, [OnAnnounceCall 3 a])"
      "Recall (DestHash_a a) t = Some (known_entry 5 a)" by (rule demo_hears)
  have run: "transport_run demo_crypto demo_msgpack demo_transport t" unfolding transport_run_def using demo_step [OF h(1)] by blast
  have new: "idle_transport NewTransport" by (simp add: idle_transport_def NewTransport_def)
  from announce_cache_restart [OF demo_crypto_ok demo_transport_idle run _ _ new,
      where st = "\<lparr>a_file = None, a_read_err = None, a_write_err = None\<rparr>" and d = "DestHash_a a" and now = 100] run h(2)
  show ?thesis by (auto simp: known_entry_def announceStoreMaxAge_def)
qed

definition demo_decode :: "string \<Rightarrow> string + bytes" where
  "demo_decode s = (case hex_decode s of None \<Rightarrow> Inl ''invalid'' | Some b \<Rightarrow> Inr b)"

theorem identity_survives_restart_witness:
  "\<exists>ident key backup. loadOrCreateIdentity demo_crypto demo_decode hex_encode [] None (Some (replicate 32 1)) (Some (replicate 32 2)) None
       = Inr (Created ident key backup)
     \<and> loadOrCreateIdentity demo_crypto demo_decode hex_encode backup None None None None = Inr (FromConfig ident)"
proof -
  have "TrimSpace [] = []" by (rule TrimSpace_none) simp
  then obtain ident key backup where c: "loadOrCreateIdentity demo_crypto demo_decode hex_encode [] None (Some (replicate 32 1)) (Some (replicate 32 2)) None
       = Inr (Created ident key backup)"
    by (simp add: loadOrCreateIdentity_def NewIdentity_def identityFromHalves_def demo_crypto_def)
  have "demo_decode (hex_encode b) = Inr b" for b by (simp add: demo_decode_def)
  moreover have "33 \<le> code x \<and> code x < 127" if "x \<in> set (hex_encode b)" for b x
    using hex_encode_chars [OF that] by (auto simp: hex_char_def)
  moreover have "hex_encode b \<noteq> []" if "b \<noteq> []" for b using that by (cases b) (simp_all add: hex_encode_Cons)
  ultimately show ?thesis using identity_survives_restart [OF c, of None None None None] c by simp
qed

definition demo_ann :: Announce where
  "demo_ann = \<lparr>DestHash_a = replicate 16 170, PublicKey_a = [], NameHash_a = [], RandomHash = replicate 10 1, RatchetPub = [], Signature = [],
     AppData = bytes_of ''Mallory'', ContextFlag_a = False, Hops_a = 1, TransportID_a = []\<rparr>"

theorem announce_only_refreshes_witness:
  "\<exists>u. map_of (users (roster (OnAnnounce demo_names 900 demo_ann demo_chat))) user_a = Some u
     \<and> Nickname u = ''Ann'' \<and> LastAnnounceAt u \<le> 900"
  using announce_only_refreshes [OF demo_chat_inv(1), where M = demo_names and now = 900 and a = demo_ann and h = user_a]
  by (auto simp: new_user_def)


end
