(* ===== verification/Service_Live.thy ===== *)
theory Service_Live
  imports Service_Run Runs
begin

text \<open>
  The running daemon: frames, the message handlers and replays they start, the outbound workers, the prune ticker and the link traffic,
  interleaved in any order, each handler as one step. The state is the service, its announce file, what the workers hold, and the
  goroutines that have been started but have not run yet.
\<close>

section \<open>Steps\<close>

datatype job = Deliver Message | ReplayTo bytes time

type_synonym daemon = "Service \<times> announceStore \<times> (nat \<times> int option) list \<times> job list"

definition started :: "service_effect list \<Rightarrow> job list" where
  "started fx = List.map_filter (\<lambda>x. case x of StartReplay b now \<Rightarrow> Some (ReplayTo b now) | Net _ \<Rightarrow> None) fx"

text \<open>The random message ids a handler draws are new and distinct.\<close>

definition fresh_ids :: "Inputs \<Rightarrow> nat \<Rightarrow> OutboundQueue \<Rightarrow> bool" where
  "fresh_ids i n q \<longleftrightarrow> inj (\<lambda>k. fst (queued_i i k)) \<and> (\<forall>k \<ge> n. fst (queued_i i k) \<notin> (ID \<circ> snd) ` set (pending q))"

inductive daemon_step :: "Primitives \<Rightarrow> Msgpack \<Rightarrow> Resource_Msgpack \<Rightarrow> Lxmf_Codec \<Rightarrow> daemon \<Rightarrow> daemon \<Rightarrow> bool" for C M R K where
  frame: "env_ok (net_i i) \<Longrightarrow> receive_frame C M R K i raw (s, st) = ((s', st'), fx, ms) \<Longrightarrow>
    daemon_step C M R K (s, st, h, js) (s', st', h, js @ map Deliver ms)"
| resource: "handleInboundLinkPlaintext C K e (delivery s) body (transport s) = (t', fx, m) \<Longrightarrow>
    daemon_step C M R K (s, st, h, js) (s\<lparr>transport := t'\<rparr>, st, h, js @ (case m of None \<Rightarrow> [] | Some m \<Rightarrow> [Deliver m]))"
| message: "Deliver m \<in> set js \<Longrightarrow> fresh_ids i 0 (outbound s) \<Longrightarrow> onLXMFReceived C M i m s = (s', fx) \<Longrightarrow>
    daemon_step C M R K (s, st, h, js) (s', st, h, remove1 (Deliver m) js @ started fx)"
| replay: "ReplayTo b now \<in> set js \<Longrightarrow> fresh_ids i 0 (outbound s) \<Longrightarrow>
    daemon_step C M R K (s, st, h, js) (replayHistoryTo i b now s, st, h, remove1 (ReplayTo b now) js)"
| prune: "daemon_step C M R K (s, st, h, js) (runPrune now s, st, h, js)"
| network: "transport_step C R now (transport s) t' \<Longrightarrow> daemon_step C M R K (s, st, h, js) (s\<lparr>transport := t'\<rparr>, st, h, js)"
| dialled: "daemon_step C M R K (s, st, h, js) (fst (dialInterface dial f s), st, h, js)"
| pick: "pickDue (outbound s) now (LastAnnounceFor s) = (q', Some p) \<Longrightarrow>
    daemon_step C M R K (s, st, h, js) (s\<lparr>outbound := q'\<rparr>, st, (p, None) # h, js)"
| start: "(p, None) \<in> set h \<Longrightarrow> map_of (pending (outbound s)) p = Some m \<Longrightarrow>
    daemon_step C M R K (s, st, h, js)
      (s\<lparr>outbound := attempt_begin (outbound s) p\<rparr>, st, (p, Some (Attempts m + 1)) # remove1 (p, None) h, js)"
| finish: "(p, Some a) \<in> set h \<Longrightarrow> map_of (pending (outbound s)) p = Some m \<Longrightarrow>
    daemon_step C M R K (s, st, h, js)
      (s\<lparr>outbound := attempt_end (outbound s) now p (ID m) a res, idmap := register_sent (idmap s) now m res\<rparr>, st, remove1 (p, Some a) h, js)"

section \<open>Rosters\<close>

definition roster_good :: "Roster \<Rightarrow> bool" where
  "roster_good r \<longleftrightarrow> roster_inv r \<and> no_banned_member r \<and> names_ok r"

lemma name_ok_stamp [simp]: "name_ok (u\<lparr>LastCommandAt := x\<rparr>) = name_ok u" "name_ok (u\<lparr>LastAnnounceAt := x\<rparr>) = name_ok u"
  by (simp_all add: name_ok_def)

lemma names_ok_stamps [inv_intros]:
  "names_ok r \<Longrightarrow> names_ok (fst (Touch r hb now))" "names_ok r \<Longrightarrow> names_ok (fst (MarkMessage r hb now))"
  "names_ok r \<Longrightarrow> names_ok (fst (UpdateLastAnnounce r hb now))"
  unfolding names_ok_def by (auto simp: roster_simps split: if_splits option.splits)

lemma names_ok_prune: "roster_inv r \<Longrightarrow> names_ok r \<Longrightarrow> names_ok (fst (Prune r now a b))"
  unfolding names_ok_def roster_inv_def by (auto simp: roster_simps in_set_map_of [symmetric] dest!: map_of_SomeD)

lemma roster_good_stamps [inv_intros]:
  "roster_good r \<Longrightarrow> roster_good (fst (Touch r hb now))" "roster_good r \<Longrightarrow> roster_good (fst (MarkMessage r hb now))"
  "roster_good r \<Longrightarrow> roster_good (fst (UpdateLastAnnounce r hb now))" "roster_good r \<Longrightarrow> roster_good (fst (Prune r now a b))"
  "roster_good r \<Longrightarrow> nickRE n \<Longrightarrow> roster_good (fst (SetNickname r k n))"
  by (auto simp: roster_good_def intro: inv_intros names_ok_prune)

lemma Dispatch_good: "roster_good r \<Longrightarrow> roster_good (fst (Dispatch d r now s p))"
  using Dispatch_step command_step_inv command_step_unbanned command_step_names unfolding roster_good_def by blast

lemma OnAnnounce_good:
  "roster_good (roster s) \<Longrightarrow> roster_good (roster (OnAnnounce M now a s))"
proof -
  assume g: "roster_good (roster s)"
  have "roster_good (roster (maybeAdoptAnnouncedNickname M a s))" if "roster_good (roster s)" for s
    using that SanitizeNickname_ok
    by (auto simp: maybeAdoptAnnouncedNickname_def Let_def intro!: roster_good_stamps(5) split: option.splits)
  with g show ?thesis by (simp add: OnAnnounce_def Let_def roster_good_stamps)
qed

section \<open>The queue under the handlers\<close>

definition queue_ok :: "OutboundQueue \<Rightarrow> (nat \<times> int option) list \<Rightarrow> bool" where
  "queue_ok q h \<longleftrightarrow> queue_inv (q, h) \<and> 0 < maxAttempts q"

lemma EnqueueBubble_parts: "maxAttempts (EnqueueBubble q mid now r b f bub) = maxAttempts q"
    "(ID \<circ> snd) ` set (pending (EnqueueBubble q mid now r b f bub)) = insert mid ((ID \<circ> snd) ` set (pending q))"
  by (simp_all add: EnqueueBubble_def Let_def)

lemma enqueue_ok:
  assumes "queue_ok q h" and "fresh_ids i n q"
  shows "queue_ok (EnqueueBubble q (fst (queued_i i n)) now r b f bub) h"
    "fresh_ids i (Suc n) (EnqueueBubble q (fst (queued_i i n)) now r b f bub)"
proof -
  show "queue_ok (EnqueueBubble q (fst (queued_i i n)) now r b f bub) h"
    using assms enqueue_inv unfolding queue_ok_def fresh_ids_def EnqueueBubble_parts by blast
  have "fst (queued_i i k) \<noteq> fst (queued_i i n)" if "Suc n \<le> k" for k
    using assms(2) that by (auto simp: fresh_ids_def dest: injD)
  with assms(2) show "fresh_ids i (Suc n) (EnqueueBubble q (fst (queued_i i n)) now r b f bub)"
    unfolding fresh_ids_def EnqueueBubble_parts by (simp del: comp_apply image_comp)
qed

lemma forward_loop_ok:
  "forward_loop i s x body flds rw bub hs (q, n) = (q', n') \<Longrightarrow> queue_ok q h \<Longrightarrow> fresh_ids i n q \<Longrightarrow> queue_ok q' h"
proof (induction hs arbitrary: q n)
  case (Cons a hs)
  show ?case
    using Cons.prems Cons.IH enqueue_ok [OF Cons.prems(2,3)]
    by (auto split: if_splits option.splits)
qed simp

lemma replay_loop_ok: "queue_ok q h \<Longrightarrow> fresh_ids i n q \<Longrightarrow> queue_ok (replay_loop i j now n es q) h"
proof (induction es arbitrary: q n)
  case (Cons e es)
  then show ?case using enqueue_ok [OF Cons.prems] by (simp add: Enqueue_def EnqueueWithFields_def)
qed simp

lemma enqueue_text_ok: "queue_ok (outbound s) h \<Longrightarrow> fresh_ids i 0 (outbound s) \<Longrightarrow> queue_ok (outbound (enqueue_text i r txt s)) h"
  by (simp add: enqueue_text_def Enqueue_def EnqueueWithFields_def enqueue_ok)

lemma relay_ok:
  assumes "queue_ok (outbound s) h" and "fresh_ids i 0 (outbound s)"
  shows "queue_ok (outbound (relay C i m nick content flds body s)) h"
proof -
  let ?h = "hex_encode (SourceHash m)"
  obtain idm rw where br: "buildRewrite (idmap s) (later_i i) flds = (idm, rw)" by fastforce
  obtain s2 b where ob: "open_bubble C i ?h m content flds (s\<lparr>idmap := idm\<rparr>) = (s2, b)" by fastforce
  from open_bubble_frame [OF ob] have "outbound s2 = outbound s" by (cases s2) simp
  with assms show ?thesis
    by (auto simp: relay_def Let_def br ob forwardToRoster_def split: prod.splits dest: forward_loop_ok)
qed

section \<open>The invariant\<close>

definition service_inv :: "Primitives \<Rightarrow> Service \<Rightarrow> (nat \<times> int option) list \<Rightarrow> bool" where
  "service_inv C s h \<longleftrightarrow> roster_good (roster s) \<and> log_inv (history s) \<and> queue_ok (outbound s) h \<and> transport_ok C (transport s)"

definition daemon_inv :: "Primitives \<Rightarrow> Lxmf_Codec \<Rightarrow> daemon \<Rightarrow> bool" where
  "daemon_inv C K d \<longleftrightarrow> (case d of (s, st, h, js) \<Rightarrow> service_inv C s h \<and> (\<forall>m. Deliver m \<in> set js \<longrightarrow> authentic C K m))"

lemma relay_inv:
  assumes "service_inv C s h" and "fresh_ids i 0 (outbound s)"
  shows "service_inv C (relay D i m nick content flds body s) h"
proof -
  obtain s2 rw where "roster (relay D i m nick content flds body s) = roster s" "transport (relay D i m nick content flds body s) = transport s"
    "history (relay D i m nick content flds body s) =
       (if fan_out s2 m body (case stampReactorIdentity flds (SourceHash m) of None \<Rightarrow> flds | Some f \<Rightarrow> f) rw \<noteq> [] \<and> content \<noteq> []
        then fst (Append (history s) \<lparr>At = now_i i, SenderHash = hex_encode (SourceHash m), SenderNick = nick, Content = content\<rparr>)
        else history s)"
    by (rule relay_effect)
  with assms relay_ok show ?thesis by (simp add: service_inv_def Append_inv)
qed

lemma received_inv:
  assumes inv: "service_inv C s h" and f: "fresh_ids i 0 (outbound s)" and r: "onLXMFReceived D M i m s = (s', fx)"
  shows "service_inv C s' h"
proof (cases "heard s m")
  case True
  have "roster_inv (roster s)" using inv by (simp add: service_inv_def roster_good_def)
  let ?s2 = "s\<lparr>roster := fst (MarkMessage (fst (Touch (roster s) (SourceHash m) (now_i i))) (SourceHash m) (now_i i))\<rparr>"
  have i2: "service_inv C ?s2 h" using inv by (simp add: service_inv_def roster_good_stamps)
  have "s' = forward_message D i m (chat_text m) (s\<lparr>roster := fst (Touch (roster s) (SourceHash m) (now_i i))\<rparr>)"
    using received_heard [OF True, of D M i] r by simp
  then show ?thesis
    using i2 relay_inv [OF i2] f by (auto simp: forward_message_def Let_def split: prod.splits if_splits)
next
  case False
  let ?s1 = "s\<lparr>roster := fst (Touch (roster s) (SourceHash m) (now_i i))\<rparr>"
  have i1: "service_inv C ?s1 h" using inv by (simp add: service_inv_def roster_good_stamps)
  have t: "service_inv C (enqueue_text i b reply s) h" if "service_inv C s h" "fresh_ids i 0 (outbound s)" for b reply and s :: Service
    using that enqueue_text_ok by (simp add: service_inv_def)
  have c: "service_inv C s' h" if "run_command D M i (SourceHash m) content ?s1 = (s', fx)" for content
  proof -
    obtain rr reply hooks where d: "Dispatch (dispatcher D M i ?s1) (roster ?s1) (later_i i) (hex_encode (SourceHash m)) (Parse content) = (rr, reply, hooks)"
      by (metis prod.exhaust)
    have "roster_good rr" using Dispatch_good [of "roster ?s1"] i1 d by (metis fst_conv service_inv_def)
    then have "service_inv C (?s1\<lparr>roster := rr\<rparr>) h" using i1 by (simp add: service_inv_def)
    with t [OF this] f that d show ?thesis by (auto simp: run_command_def Let_def split: if_splits)
  qed
  from r False i1 t [OF i1] f c inv show ?thesis
    by (auto simp: onLXMFReceived_def heard_def chat_text_def Let_def stamps_keep replies split: if_splits)
qed

lemma replay_inv:
  assumes "service_inv C s h" and "fresh_ids i 0 (outbound s)"
  shows "service_inv C (replayHistoryTo i b now s) h"
  using assms replay_loop_ok by (simp add: replayHistoryTo_def service_inv_def)

text \<open>The callbacks of a frame. What they hand over is authentic, and the tables are those of the transport's own steps.\<close>

definition net_ok :: "Primitives \<Rightarrow> Service \<Rightarrow> bool" where
  "net_ok C s \<longleftrightarrow> roster_good (roster s) \<and> transport_ok C (transport s)"

lemma receive_parsed_ok:
  assumes "transport_ok C t" and "receive_parsed C K e d msg t = (t', fx, m)"
  shows "transport_ok C t' \<and> (\<forall>x. m = Some x \<longrightarrow> authentic C K x)"
proof -
  have "transport_ok C t'" if "RequestPath e target t = (t', x, y)" for target x y
    using RequestPath_known [OF that] assms(1) by (simp add: transport_ok_def)
  moreover have "authentic C K x \<and> t' = t" if "m = Some x" for x
    using receive_authentic [of C t K e d msg t' fx x] assms that by (simp add: transport_ok_def)
  ultimately show ?thesis
    using assms by (cases m) (auto simp: receive_parsed_def split: option.splits prod.splits if_splits)
qed

lemma inbound_ok:
  assumes "transport_ok C t"
  shows "handleInbound C K e d p t = (t', fx, m) \<Longrightarrow> transport_ok C t' \<and> (\<forall>x. m = Some x \<longrightarrow> authentic C K x)"
    "handleInboundLinkPlaintext C K e d body t = (t', fx, m) \<Longrightarrow> transport_ok C t' \<and> (\<forall>x. m = Some x \<longrightarrow> authentic C K x)"
  using assms by (auto simp: handleInbound_def handleInboundLinkPlaintext_def dest: receive_parsed_ok split: sum.splits)

lemma announce_fields: "outbound (OnAnnounce M now a s) = outbound s" "history (OnAnnounce M now a s) = history s" "transport (OnAnnounce M now a s) = transport s"
  by (auto simp: OnAnnounce_def maybeAdoptAnnouncedNickname_def Let_def split: option.splits)

lemma run_callback_ok:
  assumes "run_callback C M K i x (s, st) = ((s', st'), fx, ms)" and "net_ok C s"
  shows "net_ok C s' \<and> outbound s' = outbound s \<and> history s' = history s \<and> (\<forall>m \<in> set ms. authentic C K m)"
proof -
  have n: "net_ok C (s\<lparr>transport := t'\<rparr>)" if "transport_ok C t'" for t' using assms(2) that by (simp add: net_ok_def)
  have t: "transport_ok C (transport s)" using assms(2) by (simp add: net_ok_def)
  show ?thesis
  proof (cases x)
    case (OnAnnounceCall a b)
    with assms show ?thesis by (auto simp: net_ok_def announce_fields intro: OnAnnounce_good split: if_splits)
  next
    case (OnPacketCall cb p)
    with assms n inbound_ok(1) [OF t] show ?thesis by (fastforce split: prod.splits option.splits)
  next
    case (OnLinkCall dl)
    with assms n inbound_ok(2) [OF t] show ?thesis by (cases dl) (fastforce split: prod.splits option.splits)+
  qed (use assms in auto)
qed

lemma run_callbacks_ok:
  "run_callbacks C M K i xs (s, st) = ((s', st'), fx, ms) \<Longrightarrow> net_ok C s \<Longrightarrow>
     net_ok C s' \<and> outbound s' = outbound s \<and> history s' = history s \<and> (\<forall>m \<in> set ms. authentic C K m)"
proof (induction xs arbitrary: s st fx ms)
  case (Cons x xs)
  obtain s1 st1 fx1 ms1 where a: "run_callback C M K i x (s, st) = ((s1, st1), fx1, ms1)" by (metis prod.exhaust)
  obtain fx2 ms2 where b: "run_callbacks C M K i xs (s1, st1) = ((s', st'), fx2, ms2)" "ms = ms1 @ ms2"
    using Cons.prems(1) a by (auto split: prod.splits)
  from run_callback_ok [OF a Cons.prems(2)] Cons.IH [OF b(1)] b(2) show ?case by auto
qed simp

lemma receive_frame_ok:
  assumes "crypto_ok C" and "env_ok (net_i i)" and "service_inv C s h" and "receive_frame C M R K i raw (s, st) = ((s', st'), fx, ms)"
  shows "service_inv C s' h \<and> (\<forall>m \<in> set ms. authentic C K m)"
proof -
  obtain t fx0 where d: "dispatch C R (wired C M i s) raw (transport s) = (t, fx0)" by fastforce
  have "env_ok (wired C M i s)" using assms(2) by (simp add: env_ok_def wired_def)
  from transport_step.inbound [OF this d] have "transport_ok C t"
    using transport.kept [of C R "transport s" t] assms(1,3) by (auto simp: service_inv_def)
  then have "net_ok C (s\<lparr>transport := t\<rparr>)" using assms(3) by (simp add: net_ok_def service_inv_def)
  from run_callbacks_ok [OF _ this, of M K i fx0 st s' st' fx ms] d assms(3,4) show ?thesis
    by (simp add: receive_frame_def net_ok_def service_inv_def)
qed

lemma started_replays: "Deliver m \<notin> set (started fx)"
proof -
  have "(case x of StartReplay b now \<Rightarrow> Some (ReplayTo b now) | Net _ \<Rightarrow> None) \<noteq> Some (Deliver m)" for x by (cases x) simp_all
  then show ?thesis by (simp add: started_def set_map_filter)
qed

lemma dialled_parts:
  "roster (fst (dialInterface dial f s)) = roster s" "history (fst (dialInterface dial f s)) = history s"
  "outbound (fst (dialInterface dial f s)) = outbound s" "known (transport (fst (dialInterface dial f s))) = known (transport s)"
  "linkManager (transport (fst (dialInterface dial f s))) = linkManager (transport s)"
  by (simp_all add: dialInterface_def AddInterface_def split: sum.split)

lemma daemon_step_inv:
  assumes "daemon_step C M R K d d'" and "crypto_ok C" and "daemon_inv C K d"
  shows "daemon_inv C K d'"
  using assms
proof (induction rule: daemon_step.induct)
  case (frame i raw s st s' st' fx ms h js)
  then show ?case using receive_frame_ok [OF frame.prems(1) frame.hyps(1) _ frame.hyps(2), of h] by (auto simp: daemon_inv_def)
next
  case (resource e s body t' fx m st h js)
  then show ?case using inbound_ok(2) [OF _ resource.hyps] by (auto simp: daemon_inv_def service_inv_def split: option.splits)
next
  case (message m js i s s' fx st h)
  have "Deliver x \<in> set js" if "Deliver x \<in> set (remove1 (Deliver m) js @ started fx)" for x
    using that set_remove1_subset [of "Deliver m" js] started_replays by auto
  with message received_inv show ?case by (fastforce simp: daemon_inv_def)
next
  case (replay b now js i s st h)
  then show ?case using replay_inv by (auto simp: daemon_inv_def dest: notin_set_remove1)
next
  case (prune s st h js now)
  then show ?case by (simp add: daemon_inv_def service_inv_def runPrune_def roster_good_stamps)
next
  case (network now s t' st h js)
  then show ?case using transport.kept [of C R "transport s" t'] by (auto simp: daemon_inv_def service_inv_def)
next
  case (dialled s st h js dial f)
  then show ?case using dialled_parts [of dial f s] by (simp add: daemon_inv_def service_inv_def transport_ok_def)
next
  case (pick s now q' p st h js)
  moreover have "maxAttempts q' = maxAttempts (outbound s)" using step_maxAttempts [OF queue_step.pick [OF pick.hyps, of h]] by simp
  ultimately show ?case using pick_inv [OF _ pick.hyps] by (simp add: daemon_inv_def service_inv_def queue_ok_def)
next
  case (start p h s m st js)
  moreover have "maxAttempts (attempt_begin (outbound s) p) = maxAttempts (outbound s)" by (simp add: attempt_begin_def)
  ultimately show ?case using start_inv by (simp add: daemon_inv_def service_inv_def queue_ok_def)
next
  case (finish p a h s m st js now res)
  moreover have "maxAttempts (attempt_end (outbound s) now p (ID m) a res) = maxAttempts (outbound s)"
    using step_maxAttempts [OF queue_step.finish [OF finish.hyps]] by simp
  ultimately show ?case using finish_inv by (simp add: daemon_inv_def service_inv_def queue_ok_def)
qed

interpretation daemon: invariant_system "daemon_step C M R K" "\<lambda>d. crypto_ok C \<and> daemon_inv C K d" for C M R K
  by unfold_locales (use daemon_step_inv in blast)

definition daemon_run :: "Primitives \<Rightarrow> Msgpack \<Rightarrow> Resource_Msgpack \<Rightarrow> Lxmf_Codec \<Rightarrow> daemon \<Rightarrow> daemon \<Rightarrow> bool" where
  "daemon_run C M R K = rtranclp (daemon_step C M R K)"

text \<open>With a validated configuration, \<open>Run\<close> adds exactly the interfaces that answer, in the order of the configuration.\<close>

lemma dial_loop_interfaces:
  "\<forall>f \<in> set fs. IfType f = ''tcp_client'' \<Longrightarrow>
     interfaces (transport (dial_loop dial fs s)) = interfaces (transport s)
       @ List.map_filter (\<lambda>f. case dial (IfAddr f) (IfTimeout f) of Inl _ \<Rightarrow> None | Inr c \<Rightarrow> Some c) fs"
  by (induction dial fs s rule: dial_loop.induct) (auto simp: dialInterface_def AddInterface_def map_filter_simps split: sum.splits)

lemma Run_dials_steps: "daemon_run C M R K (s, st, h, js) (Run_dials dial s, st, h, js)"
proof -
  have "daemon_run C M R K (s, st, h, js) (dial_loop dial fs s, st, h, js)" for fs
  proof (induction dial fs s rule: dial_loop.induct)
    case (2 dial f fs s)
    have "daemon_step C M R K (s, st, h, js) (fst (dialInterface dial f s), st, h, js)" by (rule daemon_step.dialled)
    from converse_rtranclp_into_rtranclp [where r = "daemon_step C M R K", OF this] 2 show ?case unfolding daemon_run_def by simp
  qed (simp add: daemon_run_def)
  then show ?thesis by (simp add: Run_dials_def)
qed

section \<open>From start-up on\<close>

text \<open>Files that an earlier run can have left.\<close>

definition disk_ok :: "Primitives \<Rightarrow> Disk \<Rightarrow> bool" where
  "disk_ok C d \<longleftrightarrow> (\<forall>r. New (Some (roster_store d)) = Inr r \<longrightarrow> roster_good r)
     \<and> (\<forall>ms. load_store (queue_store d) = Inr ms \<longrightarrow> distinct (map ID ms) \<and> (\<forall>m \<in> set ms. 0 \<le> Attempts m \<and> Attempts m < maxDeliveryAttempts))
     \<and> (case a_file (announce_store d) of None \<Rightarrow> True
        | Some es \<Rightarrow> length es \<le> 4096 \<and> (\<forall>k. Some k \<in> set es \<longrightarrow> entry_ok C (DestHash_k k) k))"

lemma loaded_queue_ok:
  assumes "load_store st = Inr ms" and "distinct (map ID ms)" and "\<forall>m \<in> set ms. 0 \<le> Attempts m \<and> Attempts m < maxDeliveryAttempts"
    and "Load_queue (newOutboundQueue (Some st)) = Inr q"
  shows "queue_ok q []"
proof -
  let ?q = "newOutboundQueue (Some st)"
  have q: "q = ?q\<lparr>pending := zip [0..<length ms] ms, next_ptr := length ms\<rparr>"
    using assms(1,4) by (simp add: Load_queue_def newOutboundQueue_def)
  have "distinct (map (ID \<circ> snd) (pending q))" using assms(2) by (simp add: q flip: map_map)
  moreover have "0 \<le> Attempts m \<and> Attempts m < maxAttempts q \<and> fst e < next_ptr q" if "e \<in> set (pending q)" "snd e = m" for e m
    using that assms(3) set_zip_rightD [of "fst e" "snd e"] set_zip_leftD [of "fst e" "snd e"]
    by (fastforce simp: q newOutboundQueue_def)
  moreover have "0 < maxAttempts q" "inFlight q = []" "distinct (map fst (pending q))" by (simp_all add: q newOutboundQueue_def maxDeliveryAttempts_def)
  ultimately show ?thesis
    unfolding queue_ok_def queue_inv_def count_ok_def by (auto intro: less_imp_le)
qed

lemma keep_recent_sub: "set (fst (keep_recent c es)) \<subseteq> {k. Some k \<in> set es}" "length (fst (keep_recent c es)) \<le> length es"
  by (induction c es rule: keep_recent.induct) (auto split: prod.splits)

lemma restore_all_ok:
  "table_ok C (known t) \<Longrightarrow> \<forall>k \<in> set ks. entry_ok C (DestHash_k k) k \<Longrightarrow> length (known t) + length ks \<le> 4096 \<Longrightarrow>
     table_ok C (known (restore_all ks t)) \<and> linkManager (restore_all ks t) = linkManager t"
proof (induction ks arbitrary: t)
  case (Cons k ks)
  let ?t = "Restore (Some k) t"
  have "known ?t = AList.update (hex_encode (DestHash_k k)) k (known t)" "linkManager ?t = linkManager t"
    using Cons.prems(2) by (auto simp: Restore_def entry_ok_def key_lens)
  moreover have "length (AList.update s k m) \<le> Suc (length m)" for s and m :: "(string, KnownIdentity) gomap"
    by (cases "s \<in> fst ` set m") (simp_all add: length_update_new length_update_old)
  then have "length (AList.update (hex_encode (DestHash_k k)) k (known t)) \<le> Suc (length (known t))" by blast
  ultimately have "table_ok C (known ?t)" "linkManager ?t = linkManager t" "length (known ?t) + length ks \<le> 4096"
    using table_ok_update [OF Cons.prems(1), of k] Cons.prems(2,3) by simp_all
  with Cons.IH [of ?t] Cons.prems(2) show ?case by simp
qed simp

lemma start_inv_service:
  assumes "crypto_ok C" and "New_service C now d ident c = Inr s" and "disk_ok C d"
  shows "service_inv C s []"
proof -
  obtain self t1 dl q r hist where n: "New (Some (roster_store d)) = Inr r"
    "New_log (ReplayCount (Replay c)) (history_file d) (history_read_err d) (history_write_err d) = Inr hist"
    "NewDelivery C (Some self) 0 1 (Some 2) (SetInitiatorIdentity (Some self) NewTransport) = (t1, Some dl)"
    "Load_queue (newOutboundQueue (Some (queue_store d))) = Inr q"
    "roster s = r" "history s = hist" "outbound s = q"
    "transport s = RegisterAnnounceHandler 1 (restore_announces now (announce_store d) (RegisterAnnounceHandler 0 t1))"
    using assms(2) by (auto simp: New_service_def Let_def split: option.splits sum.splits prod.splits)
  have "known t1 = []" "linkManager t1 = NewLinkManager" "pathRequestsSent t1 = []"
    using n(3) by (auto simp: NewDelivery_def RegisterLocal_def SetInitiatorIdentity_def NewTransport_def split: option.splits prod.splits if_splits)
  then have "idle_transport (RegisterAnnounceHandler 0 t1)" by (simp add: idle_transport_def RegisterAnnounceHandler_def)
  then have t0: "transport_ok C (RegisterAnnounceHandler 0 t1)" "known (RegisterAnnounceHandler 0 t1) = []"
    using run_ok [OF assms(1)] by (simp_all add: transport_run_def idle_transport_def)
  let ?t = "restore_announces now (announce_store d) (RegisterAnnounceHandler 0 t1)"
  have "transport_ok C ?t"
  proof (cases "load_announces now (announce_store d)")
    case (Inl e)
    with t0 show ?thesis by (simp add: restore_announces_def)
  next
    case (Inr x)
    then obtain es n where x: "load_announces now (announce_store d) = Inr (es, n)" by (cases x) simp
    then consider "es = []" | fs where "a_file (announce_store d) = Some fs" "es = fst (keep_recent (now - announceStoreMaxAge) fs)"
      by (auto simp: load_announces_def split: option.splits)
    then have e: "\<forall>k \<in> set es. entry_ok C (DestHash_k k) k" "length es \<le> 4096"
      using assms(3) keep_recent_sub [where c = "now - announceStoreMaxAge"] by (cases; fastforce simp: disk_ok_def intro: le_trans)+
    from restore_all_ok [OF _ e(1), of "RegisterAnnounceHandler 0 t1"] e(2) t0 x show ?thesis
      by (simp add: restore_announces_def transport_ok_def)
  qed
  then have "transport_ok C (transport s)" by (simp add: n(8) transport_ok_def RegisterAnnounceHandler_def)
  moreover have "queue_ok q []"
  proof (cases "load_store (queue_store d)")
    case (Inl e)
    with n(4) show ?thesis by (simp add: Load_queue_def newOutboundQueue_def)
  next
    case (Inr ms)
    with loaded_queue_ok [OF Inr _ _ n(4)] assms(3) show ?thesis by (simp add: disk_ok_def)
  qed
  ultimately show ?thesis
    using n assms(3) New_log_inv [OF n(2)] by (simp add: service_inv_def disk_ok_def)
qed


text \<open>A first start, on empty files.\<close>

definition demo_disk :: Disk where
  "demo_disk = \<lparr>mkdir_err = None, roster_store = \<lparr>disk = None, read_err = None, write_err = None\<rparr>, history_file = None,
     history_read_err = None, history_write_err = None, log_err = None,
     queue_store = \<lparr>saved = None, load_err = None, save_err = None\<rparr>, announce_store = \<lparr>a_file = None, a_read_err = None, a_write_err = None\<rparr>\<rparr>"

lemma demo_disk_ok: "disk_ok C demo_disk"
  by (simp add: disk_ok_def demo_disk_def New_def Load_def load_store_def roster_good_def roster_inv_def no_banned_member_def names_ok_def gm_ok_def)

lemma demo_start: "\<exists>s. New_service demo_crypto 100 demo_disk (Inr (FromFile (demo_identity 4))) defaults = Inr s"
proof -
  obtain hh where "DestinationHashFor demo_crypto (demo_identity 4) FullName_lxmf = Some hh" "length hh = 16"
    using DestinationHashFor_Some [OF demo_crypto_ok demo_identity_ok] by blast
  then show ?thesis
    by (simp add: New_service_def demo_disk_def New_def Load_def New_log_def load_def NewDelivery_def RegisterLocal_def Load_queue_def newOutboundQueue_def
        load_store_def key_lens Let_def)
qed


end
